(* ===== verification/Acpp_Prelude.thy ===== *)
theory Acpp_Prelude
  imports Main "HOL-Library.Word" "HOL-Library.Signed_Division"
begin

text \<open>
  What the components share: names for the machine integers of the C++ sources, decimal
  printing and parsing (\<open>std::to_string\<close>, \<open>operator<<\<close> on integers, the digits read by
  \<open>std::from_chars\<close>), fixed-size character buffers, and the contract of a state machine
  whose invariant holds in every reachable state.
\<close>

section \<open>Machine integers\<close>

type_synonym u8 = "8 word"
type_synonym u16 = "16 word"
type_synonym u32 = "32 word"
type_synonym u64 = "64 word"

text \<open>Signed integers are \<open>int\<close>; a conversion to a signed type keeps the low bits (C++20).\<close>

definition to_int32 :: "int \<Rightarrow> int" where
  "to_int32 n = signed_take_bit 31 n"

definition to_int64 :: "int \<Rightarrow> int" where
  "to_int64 n = signed_take_bit 63 n"

abbreviation int32_max :: int where "int32_max \<equiv> 2147483647"
abbreviation int32_min :: int where "int32_min \<equiv> - 2147483648"
abbreviation int64_max :: int where "int64_max \<equiv> 9223372036854775807"

section \<open>Decimal numerals\<close>

definition digit_char :: "nat \<Rightarrow> char" where
  "digit_char d = char_of (48 + d)"

definition is_digit :: "char \<Rightarrow> bool" where
  "is_digit c \<longleftrightarrow> 48 \<le> (of_char c :: nat) \<and> (of_char c :: nat) \<le> 57"

definition digit_val :: "char \<Rightarrow> nat" where
  "digit_val c = of_char c - 48"

fun dec :: "nat \<Rightarrow> string" where
  "dec n = (if n < 10 then [digit_char n] else dec (n div 10) @ [digit_char (n mod 10)])"

declare dec.simps [simp del]

definition dec_int :: "int \<Rightarrow> string" where
  "dec_int i = (if i < 0 then ''-'' @ dec (nat (- i)) else dec (nat i))"

definition undec :: "string \<Rightarrow> nat" where
  "undec s = foldl (\<lambda>a c. 10 * a + digit_val c) 0 s"

text \<open>\<open>std::setw(w)\<close> with \<open>std::setfill(c)\<close>: fill on the left, never truncate.\<close>

definition pad_left :: "nat \<Rightarrow> char \<Rightarrow> string \<Rightarrow> string" where
  "pad_left w c s = replicate (w - length s) c @ s"

section \<open>Character buffers\<close>

abbreviation nul :: char where "nul \<equiv> CHR 0x00"

text \<open>The C string that starts a buffer: everything before the first NUL.\<close>

definition c_str :: "string \<Rightarrow> string" where
  "c_str buf = takeWhile (\<lambda>c. c \<noteq> nul) buf"

text \<open>Overwriting a buffer from position \<open>p\<close> on (\<open>std::copy\<close>, \<open>memcpy\<close>).\<close>

definition overwrite :: "nat \<Rightarrow> 'a list \<Rightarrow> 'a list \<Rightarrow> 'a list" where
  "overwrite p xs buf = take p buf @ xs @ drop (p + length xs) buf"

section \<open>Paths\<close>

text \<open>
  \<open>operator<<\<close> of \<open>std::filesystem::path\<close> writes the path like \<open>std::quoted\<close>: between double
  quotes, with a backslash before double quotes and backslashes. \<open>path::filename\<close> is what follows the
  last slash.
\<close>

definition quoted :: "string \<Rightarrow> string" where
  "quoted s = [CHR 0x22] @ concat (map (\<lambda>c. if c = CHR 0x22 \<or> c = CHR 0x5C then [CHR 0x5C, c] else [c]) s) @ [CHR 0x22]"

definition path_filename :: "string \<Rightarrow> string" where
  "path_filename p = rev (takeWhile (\<lambda>c. c \<noteq> CHR ''/'') (rev p))"

section \<open>ASCII case\<close>

definition ascii_lower :: "char \<Rightarrow> char" where
  "ascii_lower c = (let n = (of_char c :: nat) in if 65 \<le> n \<and> n \<le> 90 then char_of (n + 32) else c)"

definition same_nocase :: "string \<Rightarrow> string \<Rightarrow> bool" where
  "same_nocase a b \<longleftrightarrow> map ascii_lower a = map ascii_lower b"

section \<open>Outcomes of a call\<close>

text \<open>
  A C++ call returns, throws, or ends the process at a failed assertion (the build keeps
  assertions enabled in every configuration).
\<close>

datatype exn = Sqlite_error string | Out_of_range | Other_exn string

datatype 'a outcome = Ok 'a | Throw exn | Abort

text \<open>Exit codes of a process.\<close>

abbreviation (input) EXIT_SUCCESS :: int where "EXIT_SUCCESS \<equiv> 0"
abbreviation (input) EXIT_FAILURE :: int where "EXIT_FAILURE \<equiv> 1"

section \<open>Reachable states\<close>

inductive reach :: "('s \<Rightarrow> bool) \<Rightarrow> ('s \<Rightarrow> 's \<Rightarrow> bool) \<Rightarrow> 's \<Rightarrow> bool" for init step where
  reach_init: "init s \<Longrightarrow> reach init step s"
| reach_step: "reach init step s \<Longrightarrow> step s t \<Longrightarrow> reach init step t"

text \<open>
  The contract every state machine of the development discharges: the invariant holds
  initially and every step keeps it. What follows is proved once, here.
\<close>

locale invariant_system =
  fixes init :: "'s \<Rightarrow> bool"
    and step :: "'s \<Rightarrow> 's \<Rightarrow> bool"
    and inv :: "'s \<Rightarrow> bool"
  assumes inv_init: "init s \<Longrightarrow> inv s"
    and inv_step: "inv s \<Longrightarrow> step s t \<Longrightarrow> inv t"
begin

lemma reachable_inv: "reach init step s \<Longrightarrow> inv s"
  by (induction rule: reach.induct) (auto intro: inv_init inv_step)

lemma reachable_step_inv: "reach init step s \<Longrightarrow> step s t \<Longrightarrow> inv s \<and> inv t"
  by (blast intro: reachable_inv reach_step)

end

text \<open>
  A state machine that uses up a number with every step: no run is longer than the number of
  its first state, and every state can be run until nothing more can happen.
\<close>

locale ranked_system = invariant_system init step inv
  for init :: "'s \<Rightarrow> bool" and step :: "'s \<Rightarrow> 's \<Rightarrow> bool" and inv :: "'s \<Rightarrow> bool" +
  fixes rank :: "'s \<Rightarrow> nat"
  assumes rank_step: "inv s \<Longrightarrow> step s t \<Longrightarrow> rank t < rank s"
begin

lemma steps_bounded: "inv s \<Longrightarrow> (step ^^ n) s t \<Longrightarrow> inv t \<and> rank t + n \<le> rank s"
proof (induction n arbitrary: t)
  case (Suc n)
  then obtain u where u: "inv u" "rank u + n \<le> rank s" "step u t" by auto
  from inv_step [OF u(1,3)] rank_step [OF u(1,3)] u(2) show ?case by simp
qed simp

lemma settles: "inv s \<Longrightarrow> \<exists>t. step\<^sup>*\<^sup>* s t \<and> inv t \<and> (\<forall>u. \<not> step t u)"
proof (induction "rank s" arbitrary: s rule: less_induct)
  case less
  show ?case
  proof (cases "\<exists>u. step s u")
    case True
    then obtain u where u: "step s u" by blast
    from less.hyps [OF rank_step [OF less.prems u] inv_step [OF less.prems u]] u show ?thesis
      by (blast intro: converse_rtranclp_into_rtranclp)
  qed (use less.prems in blast)
qed

end

section \<open>Printing and parsing\<close>

text \<open>
  The contract of a textual or binary encoding: what was printed for a good value is read
  back as that value, and whatever is read is good.
\<close>

locale print_parse =
  fixes pr :: "'a \<Rightarrow> 'b"
    and rd :: "'b \<Rightarrow> 'a option"
    and ok :: "'a \<Rightarrow> bool"
  assumes rd_pr: "ok a \<Longrightarrow> rd (pr a) = Some a"
    and rd_ok: "rd s = Some a \<Longrightarrow> ok a"
begin

lemma pr_inj: "ok a \<Longrightarrow> ok b \<Longrightarrow> pr a = pr b \<Longrightarrow> a = b"
  by (metis rd_pr option.inject)

lemma pr_faithful: "rd (pr a) = Some a \<longleftrightarrow> ok a"
  by (blast intro: rd_pr rd_ok)

lemma rd_range: "(\<exists>s. rd s = Some a) \<longleftrightarrow> ok a"
  by (blast intro: rd_pr rd_ok)

end

section \<open>Shared counters\<close>

text \<open>
  The contract of an atomic counter among other state: each event adds to it, takes from it,
  or leaves it alone, modulo the width of the counter. Whatever the interleaving, nothing
  added is lost or taken twice.
\<close>

fun taken_sum :: "('e \<Rightarrow> 's \<Rightarrow> 's) \<Rightarrow> ('e \<Rightarrow> 's \<Rightarrow> u64) \<Rightarrow> 's \<Rightarrow> 'e list \<Rightarrow> u64" where
  "taken_sum step taken s [] = 0"
| "taken_sum step taken s (e # es) = taken e s + taken_sum step taken (step e s) es"

locale atomic_counter =
  fixes get :: "'s \<Rightarrow> u64"
    and step :: "'e \<Rightarrow> 's \<Rightarrow> 's"
    and added :: "'e \<Rightarrow> u64"
    and taken :: "'e \<Rightarrow> 's \<Rightarrow> u64"
  assumes balance: "get (step e s) + taken e s = get s + added e"
begin

lemma conservation:
  "get (fold step es s) + taken_sum step taken s es = get s + sum_list (map added es)"
proof (induction es arbitrary: s)
  case (Cons e es)
  have "get (fold step es (step e s)) + taken_sum step taken (step e s) es =
      get (step e s) + sum_list (map added es)"
    by (rule Cons)
  with balance [of e s] show ?case by (simp add: algebra_simps)
qed simp

end

section \<open>Lemmas\<close>

lemma to_int32_id: "int32_min \<le> n \<Longrightarrow> n \<le> int32_max \<Longrightarrow> to_int32 n = n"
  by (simp add: to_int32_def signed_take_bit_int_eq_self_iff)

lemma to_int64_id: "- 9223372036854775808 \<le> n \<Longrightarrow> n \<le> int64_max \<Longrightarrow> to_int64 n = n"
  by (simp add: to_int64_def signed_take_bit_int_eq_self_iff)

lemma digit_char_is_digit: "d < 10 \<Longrightarrow> is_digit (digit_char d)"
  by (simp add: is_digit_def digit_char_def)

lemma digit_val_digit_char: "d < 10 \<Longrightarrow> digit_val (digit_char d) = d"
  by (simp add: digit_val_def digit_char_def)

lemma dec_digits: "list_all is_digit (dec n)"
proof (induction n rule: dec.induct)
  case (1 n)
  then show ?case
    by (subst dec.simps) (auto simp: digit_char_is_digit)
qed

lemma dec_nonempty [simp]: "dec n \<noteq> []"
  by (subst dec.simps) simp

lemma undec_append: "undec (xs @ [c]) = 10 * undec xs + digit_val c"
  by (simp add: undec_def)

lemma undec_dec [simp]: "undec (dec n) = n"
proof (induction n rule: dec.induct)
  case (1 n)
  show ?case
  proof (cases "n < 10")
    case True
    then show ?thesis by (subst dec.simps) (simp add: undec_def digit_val_digit_char)
  next
    case False
    with 1 show ?thesis
      by (subst dec.simps) (simp add: undec_append digit_val_digit_char)
  qed
qed

lemma dec_inj: "dec m = dec n \<Longrightarrow> m = n"
  by (metis undec_dec)

lemma length_dec_le: "n < 10 ^ k \<Longrightarrow> 0 < k \<Longrightarrow> length (dec n) \<le> k"
proof (induction n arbitrary: k rule: dec.induct)
  case (1 n)
  show ?case
  proof (cases "n < 10")
    case True
    with 1 show ?thesis by (subst dec.simps) simp
  next
    case False
    with "1.prems" obtain j where k: "k = Suc j" "0 < j"
      by (cases k; cases "k - 1") auto
    with "1.prems" have "n div 10 < 10 ^ j" by (auto simp: less_mult_imp_div_less)
    with 1 False k have "length (dec (n div 10)) \<le> j" by blast
    with False k show ?thesis by (subst dec.simps) simp
  qed
qed

lemma foldl_zeros [simp]:
  "foldl (\<lambda>a c. 10 * a + digit_val c) 0 (replicate k (CHR ''0'')) = 0"
  by (induction k) (auto simp: digit_val_def)

lemma undec_pad_left [simp]: "undec (pad_left w (CHR ''0'') s) = undec s"
  by (simp add: undec_def pad_left_def)

lemma length_pad_left: "length (pad_left w c s) = max w (length s)"
  by (simp add: pad_left_def)

lemma length_overwrite:
  "p + length xs \<le> length buf \<Longrightarrow> length (overwrite p xs buf) = length buf"
  by (simp add: overwrite_def)

lemma c_str_append: "nul \<notin> set s \<Longrightarrow> c_str (s @ nul # t) = s"
  by (induction s) (auto simp: c_str_def)

lemma list_all_digit_no_nul: "list_all is_digit s \<Longrightarrow> nul \<notin> set s"
  by (auto simp: list_all_iff is_digit_def)

lemma unat_ucast_64 [simp]: "unat (ucast (m :: u32) :: u64) = unat m"
  by (simp add: unsigned_ucast_eq take_bit_nat_eq_self_iff order.strict_trans2 [OF unsigned_less])

lemma unat_of_nat_64: "n < 2 ^ 32 \<Longrightarrow> unat (of_nat n :: u64) = n"
  by (simp add: unsigned_of_nat take_bit_nat_eq_self_iff)

end
