(* ===== verification/Sqlite.thy ===== *)
theory Sqlite
  imports Acpp_Prelude
begin

unbundle bit_operations_syntax

text \<open>
  \<^verbatim>\<open>src/sqlite3.hpp\<close> and \<^verbatim>\<open>src/sqlite3.cpp\<close>: the classes \<open>connection\<close>, \<open>query\<close> and \<open>error\<close>
  over the C interface of SQLite. SQLite itself is the parameter \<open>api\<close>, a record of
  functions on an abstract library state; handles are numbers and a null pointer is \<open>None\<close>.
  Every operation of the classes is a function of the library state that returns an outcome
  and the new state.
\<close>

section \<open>The interface of SQLite\<close>

text \<open>A double is passed through unchanged, so its bit pattern represents it.\<close>

type_synonym f64 = "64 word"

datatype bind_arg = B_null | B_int64 int | B_double f64 | B_text string int | B_blob string int

record 's sqlite_api =
  sq_open_v2 :: "string \<Rightarrow> u32 \<Rightarrow> 's \<Rightarrow> (int \<times> nat option) \<times> 's"
  sq_exec :: "nat \<Rightarrow> string \<Rightarrow> 's \<Rightarrow> int \<times> 's"
  sq_close_v2 :: "nat \<Rightarrow> 's \<Rightarrow> int \<times> 's"
  sq_errmsg :: "nat \<Rightarrow> 's \<Rightarrow> string"
  sq_interrupt :: "nat \<Rightarrow> 's \<Rightarrow> 's"
  sq_prepare_v3 :: "nat \<Rightarrow> string \<Rightarrow> int \<Rightarrow> 's \<Rightarrow> (int \<times> nat option) \<times> 's"
  sq_finalize :: "nat \<Rightarrow> 's \<Rightarrow> 's"
  sq_bind :: "nat \<Rightarrow> int \<Rightarrow> bind_arg \<Rightarrow> 's \<Rightarrow> int \<times> 's"
  sq_column_count :: "nat \<Rightarrow> 's \<Rightarrow> int"
  sq_column_type :: "nat \<Rightarrow> int \<Rightarrow> 's \<Rightarrow> int"
  sq_column_int64 :: "nat \<Rightarrow> int \<Rightarrow> 's \<Rightarrow> int"
  sq_column_double :: "nat \<Rightarrow> int \<Rightarrow> 's \<Rightarrow> f64"
  sq_column_text :: "nat \<Rightarrow> int \<Rightarrow> 's \<Rightarrow> string"
  sq_column_blob :: "nat \<Rightarrow> int \<Rightarrow> 's \<Rightarrow> string"
  sq_column_bytes :: "nat \<Rightarrow> int \<Rightarrow> 's \<Rightarrow> int"
  sq_step :: "nat \<Rightarrow> 's \<Rightarrow> int \<times> 's"
  sq_reset :: "nat \<Rightarrow> 's \<Rightarrow> 's"
  sq_clear_bindings :: "nat \<Rightarrow> 's \<Rightarrow> int \<times> 's"

abbreviation (input) SQLITE_OK :: int where "SQLITE_OK \<equiv> 0"
abbreviation (input) SQLITE_BUSY :: int where "SQLITE_BUSY \<equiv> 5"
abbreviation (input) SQLITE_LOCKED :: int where "SQLITE_LOCKED \<equiv> 6"
abbreviation (input) SQLITE_ROW :: int where "SQLITE_ROW \<equiv> 100"
abbreviation (input) SQLITE_DONE :: int where "SQLITE_DONE \<equiv> 101"
abbreviation (input) SQLITE_INTEGER :: int where "SQLITE_INTEGER \<equiv> 1"
abbreviation (input) SQLITE_FLOAT :: int where "SQLITE_FLOAT \<equiv> 2"
abbreviation (input) SQLITE_TEXT :: int where "SQLITE_TEXT \<equiv> 3"
abbreviation (input) SQLITE_BLOB :: int where "SQLITE_BLOB \<equiv> 4"
abbreviation (input) SQLITE_NULL :: int where "SQLITE_NULL \<equiv> 5"

section \<open>Errors\<close>

definition error_alloc :: "string \<Rightarrow> exn" where
  "error_alloc file =
     Sqlite_error (''sqlite3 error in db \"'' @ file @ ''\"'' @ '': Cannot allocate database handle'')"

definition error_query :: "string \<Rightarrow> string \<Rightarrow> string \<Rightarrow> exn" where
  "error_query file sql_id errmsg =
     Sqlite_error (''sqlite3 error in db \"'' @ file @ ''\"'' @
       (if sql_id = [] then [] else '' ('' @ sql_id @ '')'') @ '': '' @ errmsg)"

definition error_impl :: "string \<Rightarrow> string \<Rightarrow> exn" where
  "error_impl file errmsg = Sqlite_error (''sqlite3 error in db \"'' @ file @ ''\"'' @ '': '' @ errmsg)"

section \<open>Connections\<close>

record connection =
  cn_file :: string
  cn_db :: nat

definition open_flags :: "bool \<Rightarrow> u32" where
  "open_flags create =
     0x2 OR (if create then 0x4 else 0) OR 0x40 OR 0x8000 OR 0x40000 OR 0x2000000"

definition connection_ctor ::
    "'s sqlite_api \<Rightarrow> string \<Rightarrow> bool \<Rightarrow> 's \<Rightarrow> connection outcome \<times> 's" where
  "connection_ctor api file create s =
     (let ((status, db), s) = sq_open_v2 api file (open_flags create) s
      in if status \<noteq> SQLITE_OK then
           (case db of
              None \<Rightarrow> (Throw (error_alloc file), s)
            | Some h \<Rightarrow> (Throw (error_impl file (sq_errmsg api h s)), s))
         else
           (case db of
              None \<Rightarrow> (Abort, s)
            | Some h \<Rightarrow>
               (let (status, s) = sq_exec api h ''pragma synchronous = normal'' s
                in if status \<noteq> SQLITE_OK then (Throw (error_impl file (sq_errmsg api h s)), s)
                   else (Ok \<lparr>cn_file = file, cn_db = h\<rparr>, s))))"

text \<open>The destructor logs whether closing worked; it never throws.\<close>

definition connection_dtor :: "'s sqlite_api \<Rightarrow> connection \<Rightarrow> 's \<Rightarrow> bool \<times> 's" where
  "connection_dtor api conn s =
     (let (status, s) = sq_close_v2 api (cn_db conn) s in (status = SQLITE_OK, s))"

definition connection_interrupt :: "'s sqlite_api \<Rightarrow> connection \<Rightarrow> 's \<Rightarrow> 's" where
  "connection_interrupt api conn s = sq_interrupt api (cn_db conn) s"

section \<open>Queries\<close>

record query =
  qy_db :: connection
  qy_sql :: string
  qy_sql_id :: string
  qy_stmt :: nat

datatype status = St_row | St_done | St_locked

datatype column_value = Cv_null | Cv_int64 int | Cv_double f64 | Cv_string string | Cv_blob string

definition query_error :: "'s sqlite_api \<Rightarrow> query \<Rightarrow> 's \<Rightarrow> exn" where
  "query_error api q s = error_query (cn_file (qy_db q)) (qy_sql_id q) (sq_errmsg api (cn_db (qy_db q)) s)"

definition query_ctor ::
    "'s sqlite_api \<Rightarrow> connection \<Rightarrow> string \<Rightarrow> string \<Rightarrow> 's \<Rightarrow> query outcome \<times> 's" where
  "query_ctor api db sql sql_id s =
     (let ((status, stmt), s) = sq_prepare_v3 api (cn_db db) sql (to_int32 (int (length sql + 1))) s
      in if status \<noteq> SQLITE_OK then
           (case stmt of
              Some _ \<Rightarrow> (Abort, s)
            | None \<Rightarrow> (Throw (error_query (cn_file db) sql_id (sq_errmsg api (cn_db db) s)), s))
         else
           (case stmt of
              None \<Rightarrow> (Abort, s)
            | Some h \<Rightarrow> (Ok \<lparr>qy_db = db, qy_sql = sql, qy_sql_id = sql_id, qy_stmt = h\<rparr>, s)))"

definition query_dtor :: "'s sqlite_api \<Rightarrow> query \<Rightarrow> 's \<Rightarrow> 's" where
  "query_dtor api q s = sq_finalize api (qy_stmt q) s"

text \<open>The overloads of \<open>bind\<close> share their shape: bind one-based, throw unless it worked.\<close>

definition bind_arg_at ::
    "'s sqlite_api \<Rightarrow> query \<Rightarrow> int \<Rightarrow> bind_arg \<Rightarrow> 's \<Rightarrow> unit outcome \<times> 's" where
  "bind_arg_at api q i a s =
     (let (status, s) = sq_bind api (qy_stmt q) (i + 1) a s
      in if status \<noteq> SQLITE_OK then (Throw (query_error api q s), s) else (Ok (), s))"

definition bind_null :: "'s sqlite_api \<Rightarrow> query \<Rightarrow> int \<Rightarrow> 's \<Rightarrow> unit outcome \<times> 's" where
  "bind_null api q i s = bind_arg_at api q i B_null s"

definition bind_int64 :: "'s sqlite_api \<Rightarrow> query \<Rightarrow> int \<Rightarrow> int \<Rightarrow> 's \<Rightarrow> unit outcome \<times> 's" where
  "bind_int64 api q i v s = bind_arg_at api q i (B_int64 v) s"

definition bind_double :: "'s sqlite_api \<Rightarrow> query \<Rightarrow> int \<Rightarrow> f64 \<Rightarrow> 's \<Rightarrow> unit outcome \<times> 's" where
  "bind_double api q i v s = bind_arg_at api q i (B_double v) s"

definition bind_text :: "'s sqlite_api \<Rightarrow> query \<Rightarrow> int \<Rightarrow> string \<Rightarrow> 's \<Rightarrow> unit outcome \<times> 's" where
  "bind_text api q i v s = bind_arg_at api q i (B_text v (to_int32 (int (length v)))) s"

definition bind_blob :: "'s sqlite_api \<Rightarrow> query \<Rightarrow> int \<Rightarrow> string \<Rightarrow> 's \<Rightarrow> unit outcome \<times> 's" where
  "bind_blob api q i v s = bind_arg_at api q i (B_blob v (to_int32 (int (length v)))) s"

definition column_count :: "'s sqlite_api \<Rightarrow> query \<Rightarrow> 's \<Rightarrow> int" where
  "column_count api q s = sq_column_count api (qy_stmt q) s"

definition get_column :: "'s sqlite_api \<Rightarrow> query \<Rightarrow> int \<Rightarrow> 's \<Rightarrow> column_value" where
  "get_column api q i s =
     (let ty = sq_column_type api (qy_stmt q) i s;
          bytes = nat (sq_column_bytes api (qy_stmt q) i s)
      in if ty = SQLITE_INTEGER then Cv_int64 (sq_column_int64 api (qy_stmt q) i s)
         else if ty = SQLITE_FLOAT then Cv_double (sq_column_double api (qy_stmt q) i s)
         else if ty = SQLITE_TEXT then Cv_string (take bytes (sq_column_text api (qy_stmt q) i s))
         else if ty = SQLITE_BLOB then Cv_blob (take bytes (sq_column_blob api (qy_stmt q) i s))
         else Cv_null)"

definition next_row :: "'s sqlite_api \<Rightarrow> query \<Rightarrow> u32 \<Rightarrow> 's \<Rightarrow> status outcome \<times> 's" where
  "next_row api q retries s =
     (let (status, s) = sq_step api (qy_stmt q) s; code = status smod 256
      in if code = SQLITE_DONE then (Ok St_done, s)
         else if code = SQLITE_ROW then (Ok St_row, s)
         else if (code = SQLITE_BUSY \<or> code = SQLITE_LOCKED) \<and> retries > 0 then (Ok St_locked, s)
         else (Throw (query_error api q s), s))"

definition query_start :: "'s sqlite_api \<Rightarrow> query \<Rightarrow> bool \<Rightarrow> 's \<Rightarrow> unit outcome \<times> 's" where
  "query_start api q restart s =
     (let s = sq_reset api (qy_stmt q) s
      in if restart then (Ok (), s)
         else (let (status, s) = sq_clear_bindings api (qy_stmt q) s
               in if status \<noteq> SQLITE_OK then (Throw (query_error api q s), s) else (Ok (), s)))"

section \<open>The interface of a query\<close>

text \<open>
  What the clients of \<open>query\<close> rely on: \<open>next_row\<close> reports a lock only while retries are
  left, it never ends the process, what it throws is a SQLite error, and restarting a query
  without clearing its bindings cannot fail.
\<close>

locale row_source =
  fixes nxt :: "u32 \<Rightarrow> 's \<Rightarrow> status outcome \<times> 's"
    and restart :: "'s \<Rightarrow> unit outcome \<times> 's"
  assumes locked_retries: "fst (nxt r s) = Ok St_locked \<Longrightarrow> 0 < r"
    and nxt_no_abort: "fst (nxt r s) \<noteq> Abort"
    and nxt_throws: "fst (nxt r s) = Throw e \<Longrightarrow> \<exists>m. e = Sqlite_error m"
    and restart_ok: "fst (restart s) = Ok ()"
begin

lemma nxt_cases:
  obtains (row) "fst (nxt r s) = Ok St_row" | (fin) "fst (nxt r s) = Ok St_done"
  | (locked) "fst (nxt r s) = Ok St_locked" "0 < r"
  | (throws) m where "fst (nxt r s) = Throw (Sqlite_error m)"
proof (cases "fst (nxt r s)")
  case (Ok st)
  then show thesis using that locked_retries [of r s] by (cases st) simp_all
next
  case (Throw e)
  then show thesis using that(4) nxt_throws [of r s e] by auto
next
  case Abort
  then show thesis using nxt_no_abort [of r s] by simp
qed

lemma no_retries_no_lock: "fst (nxt 0 s) \<noteq> Ok St_locked"
  using locked_retries [of 0 s] by auto

end

interpretation query_rows: row_source "next_row api q" "query_start api q True" for api q
  by unfold_locales
    (auto simp: next_row_def query_start_def query_error_def error_query_def Let_def
      split: prod.splits if_splits)

section \<open>Lemmas\<close>

lemma connection_ctor_throws:
  "fst (connection_ctor api file create s) = Throw e \<Longrightarrow> \<exists>m. e = Sqlite_error m"
  by (auto simp: connection_ctor_def error_alloc_def error_impl_def Let_def
      split: prod.splits if_splits option.splits)

lemma query_ctor_ok: "query_ctor api db sql sql_id s = (Ok q, s') \<Longrightarrow> qy_db q = db"
  by (auto simp: query_ctor_def Let_def split: prod.splits if_splits option.splits)

lemma query_ctor_throws:
  "fst (query_ctor api db sql sql_id s) = Throw e \<Longrightarrow> \<exists>m. e = Sqlite_error m"
  by (auto simp: query_ctor_def error_query_def Let_def split: prod.splits if_splits option.splits)

lemma bind_arg_at_throws: "fst (bind_arg_at api q i a s) = Throw e \<Longrightarrow> \<exists>m. e = Sqlite_error m"
  by (auto simp: bind_arg_at_def query_error_def error_query_def Let_def split: prod.splits if_splits)

lemma bind_arg_at_no_abort: "fst (bind_arg_at api q i a s) \<noteq> Abort"
  by (auto simp: bind_arg_at_def Let_def split: prod.splits)

lemma query_start_throws: "fst (query_start api q r s) = Throw e \<Longrightarrow> \<exists>m. e = Sqlite_error m"
  by (auto simp: query_start_def query_error_def error_query_def Let_def split: prod.splits if_splits)

lemma query_start_no_abort: "fst (query_start api q r s) \<noteq> Abort"
  by (auto simp: query_start_def Let_def split: prod.splits)

end
