(* ===== verification/Float32.thy ===== *)
theory Float32
  imports Complex_Main Acpp_Prelude
begin

text \<open>
  The part of single-precision IEEE 754 arithmetic that \<^verbatim>\<open>src/configuration.cpp\<close> uses on
  the time values of a configuration: multiplication rounded to nearest even, comparison,
  conversion from and to 64-bit integers. A finite value is an integer significand and a
  power of two; the sign of a zero is not kept, since no comparison can see it.
\<close>

datatype ieee = F_nan | F_inf bool | F_fin int int

type_synonym f32 = ieee

text \<open>Division by \<open>2 ^ k\<close>, rounded to the nearest integer and to the even one on a tie.\<close>

definition rne :: "int \<Rightarrow> nat \<Rightarrow> int" where
  "rne m k =
     (let q = m div 2 ^ k; r = m mod 2 ^ k
      in if 2 * r < 2 ^ k \<or> (2 * r = 2 ^ k \<and> even q) then q else q + 1)"

function blen :: "int \<Rightarrow> nat" where
  "blen n = (if n \<le> 0 then 0 else Suc (blen (n div 2)))"
  by pat_completeness auto
termination
  by (relation "measure nat") auto

declare blen.simps [simp del]

text \<open>
  Rounding of \<open>m * 2 ^ e\<close> to a float: keep 24 significant bits and no bit below
  \<open>2 ^ (-149)\<close>; a result of \<open>2 ^ 128\<close> or more overflows to an infinity.
\<close>

definition excess_bits :: "int \<Rightarrow> int \<Rightarrow> nat" where
  "excess_bits m e = nat (max (int (blen \<bar>m\<bar>) - 24) (- 149 - e))"

definition round32 :: "int \<Rightarrow> int \<Rightarrow> f32" where
  "round32 m e =
     (let k = excess_bits m e; m' = rne m k; e' = e + int k
      in if 0 \<le> e' \<and> 2 ^ 128 \<le> \<bar>m'\<bar> * 2 ^ nat e' then F_inf (m < 0) else F_fin m' e')"

fun fmul :: "f32 \<Rightarrow> f32 \<Rightarrow> f32" where
  "fmul (F_fin a x) (F_fin b y) = round32 (a * b) (x + y)"
| "fmul (F_inf s) (F_fin b y) = (if b = 0 then F_nan else F_inf (s \<noteq> (b < 0)))"
| "fmul (F_fin a x) (F_inf s) = (if a = 0 then F_nan else F_inf (s \<noteq> (a < 0)))"
| "fmul (F_inf s) (F_inf t) = F_inf (s \<noteq> t)"
| "fmul F_nan _ = F_nan"
| "fmul _ F_nan = F_nan"

fun fless :: "f32 \<Rightarrow> f32 \<Rightarrow> bool" where
  "fless (F_fin a x) (F_fin b y) =
     (let z = min x y in a * 2 ^ nat (x - z) < b * 2 ^ nat (y - z))"
| "fless (F_inf s) (F_fin b y) = s"
| "fless (F_fin a x) (F_inf s) = (\<not> s)"
| "fless (F_inf s) (F_inf t) = (s \<and> \<not> t)"
| "fless F_nan _ = False"
| "fless _ F_nan = False"

definition f32_zero :: f32 where "f32_zero = F_fin 0 0"

text \<open>\<open>1e9F\<close> is exact: \<open>5 ^ 9 * 2 ^ 9\<close>.\<close>

definition f32_1e9 :: f32 where "f32_1e9 = F_fin 1953125 9"

definition f32_of_int64 :: "int \<Rightarrow> f32" where
  "f32_of_int64 n = round32 n 0"

text \<open>
  Conversion to \<open>int64_t\<close> truncates towards zero; \<open>None\<close> where the truncated value does not
  fit, which the language leaves undefined.
\<close>

definition ftrunc :: "int \<Rightarrow> int \<Rightarrow> int" where
  "ftrunc m e = (if 0 \<le> e then m * 2 ^ nat e else sgn m * (\<bar>m\<bar> div 2 ^ nat (- e)))"

definition f32_to_int64 :: "f32 \<Rightarrow> int option" where
  "f32_to_int64 t =
     (case t of
        F_fin m e \<Rightarrow>
          (let n = ftrunc m e in if - 9223372036854775808 \<le> n \<and> n \<le> int64_max then Some n else None)
      | _ \<Rightarrow> None)"

section \<open>Rounding\<close>

lemma rne_zero_shift [simp]: "rne m 0 = m"
  by (simp add: rne_def Let_def)

lemma rne_bounds: "2 * \<bar>rne m k * 2 ^ k - m\<bar> \<le> 2 ^ k"
proof -
  define q r where "q = m div 2 ^ k" and "r = m mod 2 ^ k"
  have m: "m = q * 2 ^ k + r" and r: "0 \<le> r" "r < 2 ^ k"
    by (simp_all add: q_def r_def div_mult_mod_eq)
  show ?thesis
  proof (cases "2 * r < 2 ^ k \<or> (2 * r = 2 ^ k \<and> even q)")
    case True
    then have "rne m k = q" by (simp add: rne_def Let_def q_def r_def)
    with m r True show ?thesis by auto
  next
    case False
    then have "rne m k = q + 1" by (simp add: rne_def Let_def q_def r_def)
    with m r False show ?thesis by (auto simp: algebra_simps)
  qed
qed

lemma rne_pos: "0 < m \<Longrightarrow> 0 \<le> rne m k"
  by (auto simp: rne_def Let_def pos_imp_zdiv_nonneg_iff intro: order_trans)

lemma rne_nonpos: "m \<le> 0 \<Longrightarrow> rne m k \<le> 0"
proof (cases "m = 0")
  case False
  assume "m \<le> 0"
  with False have "m div 2 ^ k < 0" by (intro div_neg_pos_less0) auto
  then show ?thesis by (auto simp: rne_def Let_def)
qed (simp add: rne_def)

lemma rne_zero [simp]: "rne 0 k = 0"
  by (simp add: rne_def)

lemma blen_bounds: "0 < n \<Longrightarrow> 2 ^ (blen n - 1) \<le> n \<and> n < 2 ^ blen n \<and> 0 < blen n"
proof (induction n rule: blen.induct)
  case (1 n)
  show ?case
  proof (cases "n < 2")
    case True
    with "1.prems" have "n = 1" by linarith
    then show ?thesis by (simp add: blen.simps)
  next
    case False
    with 1 have IH: "2 ^ (blen (n div 2) - 1) \<le> n div 2" "n div 2 < 2 ^ blen (n div 2)"
        "0 < blen (n div 2)" by auto
    have b: "blen n = Suc (blen (n div 2))" using False by (subst blen.simps) auto
    from IH(3) have p: "2 ^ blen (n div 2) = 2 * (2 :: int) ^ (blen (n div 2) - 1)"
      by (cases "blen (n div 2)") auto
    have "2 ^ blen (n div 2) \<le> n" using IH(1) p by linarith
    moreover have "n < 2 * 2 ^ blen (n div 2)" using IH(2) by linarith
    ultimately show ?thesis by (simp add: b)
  qed
qed

text \<open>The value of a finite float.\<close>

definition fval :: "int \<Rightarrow> int \<Rightarrow> real" where
  "fval m e = of_int m * 2 powi e"

lemma fval_pos_iff: "0 < fval m e \<longleftrightarrow> 0 < m"
proof -
  have "0 < of_int m * c \<longleftrightarrow> 0 < m" if "0 < c" for c :: real
    using that by (auto simp: zero_less_mult_iff)
  then show ?thesis by (simp add: fval_def)
qed

lemma powi_split: "(2 :: real) powi (e + int k) = 2 powi e * 2 ^ k"
  by (simp add: power_int_add)

lemma powi_nat: "0 \<le> e \<Longrightarrow> (2 :: real) powi e = 2 ^ nat e"
  by (simp add: power_int_def)

text \<open>
  Rounding changes a normal value by at most one part in \<open>2 ^ 24\<close>: the shifted-out part is
  less than half a unit of the last place, and the significand has 24 bits.
\<close>

lemma rne_relative:
  assumes "0 < m" and "- 149 \<le> e"
  shows "\<bar>fval (rne m (excess_bits m e)) (e + int (excess_bits m e)) - fval m e\<bar> \<le> fval m e / 2 ^ 24"
proof (cases "excess_bits m e = 0")
  case True
  with assms show ?thesis by (simp add: fval_def)
next
  case False
  define k where "k = excess_bits m e"
  from False assms have b: "blen m = k + 24"
    by (auto simp: k_def excess_bits_def max_def split: if_splits)
  have "(2 :: int) ^ (k + 23) \<le> m"
    using blen_bounds [of m] assms b by (simp add: add.commute)
  then have "of_int (2 ^ (k + 23)) \<le> (of_int m :: real)"
    by (simp only: of_int_le_iff)
  then have lo: "(2 :: real) ^ k / 2 \<le> of_int m / 2 ^ 24" by (simp add: power_add)
  have "of_int (2 * \<bar>rne m k * 2 ^ k - m\<bar>) \<le> (of_int (2 ^ k) :: real)"
    using rne_bounds [of m k] by (simp only: of_int_le_iff)
  then have "\<bar>of_int (rne m k) * 2 ^ k - of_int m\<bar> \<le> (2 :: real) ^ k / 2" by simp
  with lo have "\<bar>of_int (rne m k) * 2 ^ k - of_int m\<bar> \<le> (of_int m :: real) / 2 ^ 24" by linarith
  then have "2 powi e * \<bar>of_int (rne m k) * 2 ^ k - of_int m\<bar> \<le> 2 powi e * ((of_int m :: real) / 2 ^ 24)"
    by (intro mult_left_mono) simp_all
  moreover have "2 powi e * \<bar>of_int (rne m k) * 2 ^ k - of_int m\<bar> = \<bar>fval (rne m k) (e + int k) - fval m e\<bar>"
  proof -
    have "fval (rne m k) (e + int k) - fval m e = 2 powi e * (of_int (rne m k) * 2 ^ k - of_int m)"
      by (simp add: fval_def powi_split algebra_simps)
    then show ?thesis by (simp add: abs_mult)
  qed
  moreover have "2 powi e * ((of_int m :: real) / 2 ^ 24) = fval m e / 2 ^ 24"
    by (simp add: fval_def)
  ultimately show ?thesis unfolding k_def by argo
qed

lemma ftrunc_bounds:
  assumes "0 \<le> m"
  shows "of_int (ftrunc m e) \<le> fval m e \<and> fval m e < of_int (ftrunc m e) + 1"
proof (cases "0 \<le> e")
  case True
  then show ?thesis by (simp add: ftrunc_def fval_def powi_nat)
next
  case False
  then have p: "(2 :: real) powi e = 1 / 2 ^ nat (- e)"
    by (simp add: power_int_def field_simps)
  have t: "ftrunc m e = m div 2 ^ nat (- e)"
    using False assms by (cases "m = 0") (simp_all add: ftrunc_def)
  have "fval m e = of_int m / of_int (2 ^ nat (- e))" by (simp add: fval_def p)
  then have "\<lfloor>fval m e\<rfloor> = m div 2 ^ nat (- e)" by (simp only: floor_divide_of_int_eq)
  then show ?thesis
    unfolding t using floor_correct [of "fval m e"] by simp
qed

lemma fless_fin: "fless (F_fin a x) (F_fin b y) \<longleftrightarrow> fval a x < fval b y"
proof -
  define z where "z = min x y"
  have x: "2 powi x = 2 powi z * (2 :: real) ^ nat (x - z)"
    and y: "2 powi y = 2 powi z * (2 :: real) ^ nat (y - z)"
    using powi_split [of z "nat (x - z)"] powi_split [of z "nat (y - z)"] by (simp_all add: z_def)
  have "fval a x < fval b y \<longleftrightarrow>
      2 powi z * of_int (a * 2 ^ nat (x - z)) < 2 powi z * (of_int (b * 2 ^ nat (y - z)) :: real)"
    unfolding fval_def x y by (simp add: algebra_simps)
  also have "\<dots> \<longleftrightarrow> a * 2 ^ nat (x - z) < b * 2 ^ nat (y - z)"
    by (subst mult_less_cancel_left_pos) (simp_all only: of_int_less_iff, simp)
  finally show ?thesis by (simp add: Let_def z_def)
qed

lemma fless_zero_fin: "fless f32_zero (F_fin m e) \<longleftrightarrow> 0 < m"
  unfolding f32_zero_def fless_fin using fval_pos_iff [of m e] by (simp add: fval_def)

lemma fless_zero_inf [simp]: "fless f32_zero (F_inf s) \<longleftrightarrow> \<not> s"
  by (simp add: f32_zero_def)

lemma round32_nonpos: "m \<le> 0 \<Longrightarrow> \<not> fless f32_zero (round32 m e)"
  using rne_nonpos [of m "excess_bits m e"]
  by (cases "m = 0") (auto simp: round32_def Let_def fless_zero_fin)

lemma round32_fin:
  assumes "0 < m" and "- 149 \<le> e" and "round32 m e = F_fin m' e'"
  shows "0 < m' \<and> \<bar>fval m' e' - fval m e\<bar> \<le> fval m e / 2 ^ 24"
proof -
  from assms(3) have eq: "m' = rne m (excess_bits m e)" "e' = e + int (excess_bits m e)"
    by (auto simp: round32_def Let_def split: if_splits)
  then have rel: "\<bar>fval m' e' - fval m e\<bar> \<le> fval m e / 2 ^ 24"
    using rne_relative [OF assms(1,2)] by simp
  have pos: "0 < y" if "\<bar>y - x\<bar> \<le> x / 2 ^ 24" "0 < x" for x y :: real
  proof -
    have "x - y \<le> \<bar>y - x\<bar>" by simp
    with that(1) have "x - y \<le> x / 2 ^ 24" by (rule order_trans [rotated])
    then have "x - y \<le> x / 16777216" by simp
    with that(2) show ?thesis by linarith
  qed
  have "0 < fval m e" using assms(1) by (simp add: fval_pos_iff)
  with rel have "0 < fval m' e'" by (rule pos)
  with rel show ?thesis by (simp add: fval_pos_iff)
qed

lemma round32_pos: "0 < m \<Longrightarrow> - 149 \<le> e \<Longrightarrow> fless f32_zero (round32 m e)"
  using round32_fin [of m e]
  by (cases "round32 m e") (auto simp: fless_zero_fin, auto simp: round32_def Let_def split: if_splits)

end
