(* ===== verification/Logging.thy ===== *)
theory Logging
  imports Acpp_Prelude
begin

text \<open>
  \<^verbatim>\<open>src/log.hpp\<close> and \<^verbatim>\<open>src/log.cpp\<close>: log levels and their names, the global logger, and
  one log message as it is built up in an \<open>osyncstream\<close> and emitted to standard error.
  Standard error is an explicit string that every operation extends. What the process
  environment supplies (clock, local time, process and thread ids, whether an insertion
  into the stream throws) is the record \<open>log_env\<close>.
\<close>

section \<open>Levels\<close>

text \<open>The enumeration has the underlying type \<open>int\<close>, so a cast may produce any integer.\<close>

type_synonym log_level = int

definition ll_off :: log_level where "ll_off = - 1"
definition ll_emerg :: log_level where "ll_emerg = 0"
definition ll_alert :: log_level where "ll_alert = 1"
definition ll_crit :: log_level where "ll_crit = 2"
definition ll_err :: log_level where "ll_err = 3"
definition ll_warning :: log_level where "ll_warning = 4"
definition ll_notice :: log_level where "ll_notice = 5"
definition ll_info :: log_level where "ll_info = 6"
definition ll_debug :: log_level where "ll_debug = 7"

lemmas ll_defs = ll_off_def ll_emerg_def ll_alert_def ll_crit_def ll_err_def
  ll_warning_def ll_notice_def ll_info_def ll_debug_def

definition valid :: "log_level \<Rightarrow> bool" where
  "valid level \<longleftrightarrow> ll_off \<le> level \<and> level \<le> ll_debug"

definition to_string :: "log_level \<Rightarrow> string" where
  "to_string l =
     (if l = ll_off then ''-''
      else if l = ll_emerg then ''X''
      else if l = ll_alert then ''A''
      else if l = ll_crit then ''C''
      else if l = ll_err then ''E''
      else if l = ll_warning then ''W''
      else if l = ll_notice then ''N''
      else if l = ll_info then ''I''
      else if l = ll_debug then ''D''
      else ''?'')"

definition levels :: "(string \<times> log_level) list" where
  "levels =
    [(''-'', ll_off), (''off'', ll_off),
     (''X'', ll_emerg), (''emerg'', ll_emerg), (''emergency'', ll_emerg),
     (''A'', ll_alert), (''alert'', ll_alert),
     (''C'', ll_crit), (''crit'', ll_crit), (''critical'', ll_crit),
     (''E'', ll_err), (''err'', ll_err), (''error'', ll_err),
     (''W'', ll_warning), (''warn'', ll_warning), (''warning'', ll_warning),
     (''N'', ll_notice), (''notice'', ll_notice),
     (''I'', ll_info), (''info'', ll_info),
     (''D'', ll_debug), (''debug'', ll_debug)]"

definition from_string :: "string \<Rightarrow> log_level option" where
  "from_string str = map_of levels str"

section \<open>The logger\<close>

record logger =
  lg_level :: log_level

definition gl_logger :: logger where
  "gl_logger = \<lparr>lg_level = ll_info\<rparr>"

definition set_level :: "log_level \<Rightarrow> logger \<Rightarrow> logger" where
  "set_level l lg = lg\<lparr>lg_level := l\<rparr>"

section \<open>One message\<close>

text \<open>
  \<open>le_put b v\<close> is the insertion of \<open>v\<close> into a stream that holds \<open>b\<close>: the new contents, or
  \<open>None\<close> when the insertion throws. \<open>le_strftime\<close> is \<open>localtime_r\<close> followed by
  \<open>strftime\<close> with the format \<^verbatim>\<open>%F %T.000000%z\<close>.
\<close>

record log_env =
  le_now :: int
  le_strftime :: "int \<Rightarrow> string"
  le_pid :: nat
  le_tid :: string
  le_put :: "string \<Rightarrow> string \<Rightarrow> string option"

type_synonym session = "u64 option \<times> u64 option"

record osyncstream =
  os_buf :: string
  os_wrapped :: bool

record log_msg =
  lm_level :: log_level
  lm_os :: "osyncstream option"
  lm_session :: session

text \<open>A synchronised stream transfers its buffer to the wrapped stream when it is destroyed.\<close>

definition os_emit :: "osyncstream \<Rightarrow> string \<Rightarrow> string" where
  "os_emit os cerr = (if os_wrapped os then cerr @ os_buf os else cerr)"

definition kill :: "log_msg \<times> string \<Rightarrow> log_msg \<times> string" where
  "kill mc =
     ((fst mc)\<lparr>lm_os := None\<rparr>,
      (case lm_os (fst mc) of None \<Rightarrow> snd mc | Some os \<Rightarrow> os_emit os (snd mc)))"

definition log_put :: "log_env \<Rightarrow> log_msg \<times> string \<Rightarrow> string \<Rightarrow> log_msg \<times> string" where
  "log_put env mc v =
     (case lm_os (fst mc) of
        None \<Rightarrow> mc
      | Some os \<Rightarrow>
         (case le_put env (os_buf os) v of
            Some b \<Rightarrow> ((fst mc)\<lparr>lm_os := Some (os\<lparr>os_buf := b\<rparr>)\<rparr>, snd mc)
          | None \<Rightarrow> kill mc))"

text \<open>The overload for variants has no handler of its own: \<open>None\<close> is the escaping exception.\<close>

definition log_put_variant ::
    "log_env \<Rightarrow> log_msg \<times> string \<Rightarrow> string \<Rightarrow> (log_msg \<times> string) option" where
  "log_put_variant env mc v =
     (case lm_os (fst mc) of
        None \<Rightarrow> Some mc
      | Some os \<Rightarrow>
         (case le_put env (os_buf os) v of
            Some b \<Rightarrow> Some ((fst mc)\<lparr>lm_os := Some (os\<lparr>os_buf := b\<rparr>)\<rparr>, snd mc)
          | None \<Rightarrow> None))"

text \<open>
  The time stamp: \<open>strftime\<close> fills a zeroed buffer of 64 characters, then the microseconds
  overwrite the zeros that end at position 26. \<open>None\<close> is the failed assertion.
\<close>

definition time_end :: nat where "time_end = 26"

definition time_stamp :: "log_env \<Rightarrow> string option" where
  "time_stamp env =
     (let time = le_now env sdiv 1000000;
          usec = dec_int (le_now env smod 1000000);
          s = le_strftime env time
      in if s = [] \<or> 64 \<le> length s then None
         else Some (c_str (overwrite (time_end - length usec) usec
                (s @ replicate (64 - length s) nul))))"

definition session_text :: "session \<Rightarrow> string list" where
  "session_text s =
     concat (map (\<lambda>x. case x of None \<Rightarrow> [] | Some n \<Rightarrow> [''.'', dec (unat n)]) [fst s, snd s])"

definition prefix_parts :: "log_env \<Rightarrow> log_level \<Rightarrow> session \<Rightarrow> string \<Rightarrow> string list" where
  "prefix_parts env level session ts =
     [ts, '' ['', dec (le_pid env), ''.'', le_tid env] @ session_text session @
     ['']'', '' '', to_string level, '' '']"

definition log_msg_ctor ::
    "log_env \<Rightarrow> logger \<Rightarrow> log_level \<Rightarrow> session \<Rightarrow> string \<Rightarrow> (log_msg \<times> string) option" where
  "log_msg_ctor env lg level session cerr =
     (if ll_off < level \<and> level \<le> lg_level lg then
        (case time_stamp env of
           None \<Rightarrow> None
         | Some ts \<Rightarrow> Some (foldl (log_put env)
             (\<lparr>lm_level = level, lm_os = Some \<lparr>os_buf = [], os_wrapped = True\<rparr>,
               lm_session = session\<rparr>, cerr)
             (prefix_parts env level session ts)))
      else Some (\<lparr>lm_level = level, lm_os = None, lm_session = session\<rparr>, cerr))"

definition log_msg_dtor :: "log_env \<Rightarrow> log_msg \<times> string \<Rightarrow> string" where
  "log_msg_dtor env mc =
     (case lm_os (fst mc) of
        None \<Rightarrow> snd mc
      | Some os \<Rightarrow>
          if os_wrapped os then
            (case le_put env (os_buf os) [CHR 0x0A] of
               Some b \<Rightarrow> os_emit (os\<lparr>os_buf := b\<rparr>) (snd mc)
             | None \<Rightarrow> os_emit os (snd mc))
          else snd mc)"

text \<open>Moving hands the stream over; the source keeps an engaged but unwrapped one.\<close>

definition log_msg_move :: "log_msg \<Rightarrow> log_msg \<times> log_msg" where
  "log_msg_move m =
     (m, m\<lparr>lm_os := map_option (\<lambda>os. os\<lparr>os_buf := [], os_wrapped := False\<rparr>) (lm_os m)\<rparr>)"

definition debug_ctor ::
    "log_env \<Rightarrow> logger \<Rightarrow> session \<Rightarrow> string \<Rightarrow> (log_msg \<times> string) option" where
  "debug_ctor env lg session cerr =
     map_option (\<lambda>mc. log_put env mc ''DEBUG '') (log_msg_ctor env lg ll_emerg session cerr)"

text \<open>A whole statement: build the message, insert the operands, destroy it.\<close>

definition log_statement ::
    "log_env \<Rightarrow> logger \<Rightarrow> log_level \<Rightarrow> session \<Rightarrow> string list \<Rightarrow> string \<Rightarrow> string option" where
  "log_statement env lg level session ps cerr =
     map_option (\<lambda>mc. log_msg_dtor env (foldl (log_put env) mc ps))
       (log_msg_ctor env lg level session cerr)"

definition quiet_env :: "log_env \<Rightarrow> bool" where
  "quiet_env env \<longleftrightarrow> (\<forall>b v. le_put env b v = Some (b @ v))"

section \<open>Lemmas\<close>

lemma valid_cases:
  "valid l \<Longrightarrow> l \<in> {-1, 0, 1, 2, 3, 4, 5, 6, 7}"
  by (auto simp: valid_def ll_defs)

lemma from_string_to_string: "valid l \<Longrightarrow> from_string (to_string l) = Some l"
  by (drule valid_cases) (auto simp: to_string_def from_string_def levels_def ll_defs)

lemma from_string_valid: "from_string s = Some l \<Longrightarrow> valid l"
  by (auto simp: from_string_def levels_def ll_defs valid_def split: if_splits)

interpretation level_names: print_parse to_string from_string valid
  by unfold_locales (auto intro: from_string_to_string from_string_valid)

lemma log_put_quiet:
  "quiet_env env \<Longrightarrow> lm_os m = Some os \<Longrightarrow>
    log_put env (m, cerr) v = (m\<lparr>lm_os := Some (os\<lparr>os_buf := os_buf os @ v\<rparr>)\<rparr>, cerr)"
  by (simp add: log_put_def quiet_env_def)

lemma foldl_log_put_quiet:
  "quiet_env env \<Longrightarrow> lm_os m = Some os \<Longrightarrow>
    foldl (log_put env) (m, cerr) ps =
      (m\<lparr>lm_os := Some (os\<lparr>os_buf := os_buf os @ concat ps\<rparr>)\<rparr>, cerr)"
proof (induction ps arbitrary: m os)
  case (Cons p ps)
  then show ?case by (simp add: log_put_quiet)
qed simp

lemma log_put_none: "lm_os m = None \<Longrightarrow> log_put env (m, cerr) v = (m, cerr)"
  by (simp add: log_put_def)

lemma foldl_log_put_none: "lm_os m = None \<Longrightarrow> foldl (log_put env) (m, cerr) ps = (m, cerr)"
  by (induction ps) (auto simp: log_put_none)

text \<open>Insertions and the destructor only ever append to standard error.\<close>

lemma log_put_appends: "\<exists>s. snd (log_put env mc v) = snd mc @ s"
  by (auto simp: log_put_def kill_def os_emit_def split: option.split)

lemma foldl_log_put_appends: "\<exists>s. snd (foldl (log_put env) mc ps) = snd mc @ s"
proof (induction ps arbitrary: mc)
  case (Cons p ps)
  obtain s where "snd (log_put env mc p) = snd mc @ s" using log_put_appends by blast
  with Cons [of "log_put env mc p"] show ?case by auto
qed simp

lemma log_msg_dtor_appends: "\<exists>s. log_msg_dtor env mc = snd mc @ s"
  by (auto simp: log_msg_dtor_def os_emit_def split: option.split)

lemma log_statement_enabled:
  "ll_off < level \<Longrightarrow> level \<le> lg_level lg \<Longrightarrow> time_stamp env = Some ts \<Longrightarrow>
    log_statement env lg level session ps cerr =
      Some (log_msg_dtor env (foldl (log_put env)
        (\<lparr>lm_level = level, lm_os = Some \<lparr>os_buf = [], os_wrapped = True\<rparr>, lm_session = session\<rparr>, cerr)
        (prefix_parts env level session ts @ ps)))"
  by (simp add: log_statement_def log_msg_ctor_def)

lemma log_statement_disabled:
  "\<not> (ll_off < level \<and> level \<le> lg_level lg) \<Longrightarrow>
    log_statement env lg level session ps cerr = Some cerr"
  unfolding log_statement_def log_msg_ctor_def
  by (simp only: if_False option.map) (simp add: foldl_log_put_none log_msg_dtor_def)

lemma zeros_six: "k \<le> 6 \<Longrightarrow> take k ''000000'' = replicate k (CHR ''0'')"
  by (auto simp: le_Suc_eq numeral_eq_Suc)

lemma dec_int_nonneg: "0 \<le> i \<Longrightarrow> dec_int i = dec (nat i)"
  by (simp add: dec_int_def)

lemma smod_usec_range:
  assumes "0 \<le> (n :: int)"
  shows "0 \<le> n smod 1000000 \<and> n smod 1000000 < 1000000"
  using assms by (simp add: signed_modulo_int_def signed_divide_int_def sgn_if minus_div_mult_eq_mod)

lemma overwrite_tail:
  "length u \<le> length a \<Longrightarrow>
    overwrite (length p + length a - length u) u (p @ a @ z) = p @ take (length a - length u) a @ u @ z"
  by (simp add: overwrite_def)

section \<open>Properties\<close>

text \<open>
  The one-letter names are faithful. Printing a level and reading it back gives the
  same level exactly for the nine levels of the enumeration, and the levels that some
  spelling denotes are exactly those nine.
\<close>

lemma level_names_roundtrip:
  "(from_string (to_string l) = Some l \<longleftrightarrow> valid l) \<and>
   ((\<exists>s. from_string s = Some l) \<longleftrightarrow> valid l)"
  using level_names.pr_faithful level_names.rd_range by blast

text \<open>
  The time stamp. When local time formats to 19 characters, \<^verbatim>\<open>.000000\<close> and a zone, the
  printed stamp is the same text with the six zeros replaced by the microseconds of the
  clock, padded with zeros to exactly six digits.
\<close>

lemma time_stamp_microseconds:
  assumes now: "0 \<le> le_now env"
    and fmt: "le_strftime env (le_now env sdiv 1000000) = p @ ''.000000'' @ z"
    and len: "length p = 19" "length z < 38" "nul \<notin> set p" "nul \<notin> set z"
  shows "time_stamp env =
    Some (p @ ''.'' @ pad_left 6 (CHR ''0'') (dec (nat (le_now env smod 1000000))) @ z)"
proof -
  let ?u = "dec (nat (le_now env smod 1000000))"
  let ?w = "z @ replicate (64 - length (p @ ''.000000'' @ z)) nul"
  have lu: "length ?u \<le> 6"
    using smod_usec_range [OF now] by (intro length_dec_le) auto
  have eq: "overwrite (26 - length ?u) ?u ((p @ ''.'') @ ''000000'' @ ?w) =
      (p @ ''.'') @ take (6 - length ?u) ''000000'' @ ?u @ ?w"
    using overwrite_tail [of ?u "''000000''" "p @ ''.''" ?w] lu len by (simp add: eval_nat_numeral)
  have nz: "nul \<notin> set (p @ ''.'' @ pad_left 6 (CHR ''0'') ?u @ z)"
    using len list_all_digit_no_nul [OF dec_digits] by (auto simp: pad_left_def)
  obtain k where k: "64 - length (p @ ''.000000'' @ z) = Suc k"
    using len by (cases "64 - length (p @ ''.000000'' @ z)") auto
  have "c_str ((p @ ''.'') @ take (6 - length ?u) ''000000'' @ ?u @ ?w) =
      p @ ''.'' @ pad_left 6 (CHR ''0'') ?u @ z"
    using c_str_append [OF nz, of "replicate k nul"] k zeros_six [of "6 - length ?u"]
    by (simp add: pad_left_def)
  then show ?thesis
    using eq fmt len smod_usec_range [OF now]
    by (simp add: time_stamp_def time_end_def dec_int_nonneg Let_def)
qed

theorem time_stamp_microseconds_witness:
  "time_stamp \<lparr>le_now = 1700000000000042,
     le_strftime = (\<lambda>_. ''2023-11-14 22:13:20.000000+0000''), le_pid = 7, le_tid = ''1'',
     le_put = (\<lambda>b v. Some (b @ v))\<rparr> = Some ''2023-11-14 22:13:20.000042+0000''"
proof -
  have "pad_left 6 (CHR ''0'') (dec (nat (1700000000000042 smod 1000000))) = ''000042''"
    by code_simp
  then show ?thesis
    by (subst time_stamp_microseconds [where p = "''2023-11-14 22:13:20''" and z = "''+0000''"]) simp_all
qed

text \<open>
  C34: filtering and completeness of a message. With a stream that accepts every insertion,
  a statement at a level above \<open>off\<close> and within the logger's level appends to standard
  error exactly one line: the prefix, the operands in order and a newline. Any other
  statement leaves standard error as it was.
\<close>

theorem log_statement_line:
  assumes "quiet_env env" and "time_stamp env = Some ts"
  shows "log_statement env lg level session ps cerr =
    Some (if ll_off < level \<and> level \<le> lg_level lg
          then cerr @ concat (prefix_parts env level session ts) @ concat ps @ [CHR 0x0A]
          else cerr)"
proof (cases "ll_off < level \<and> level \<le> lg_level lg")
  case True
  with assms show ?thesis
    by (simp add: log_statement_enabled foldl_log_put_quiet log_msg_dtor_def os_emit_def
        del: foldl_append) (simp add: quiet_env_def os_emit_def)
next
  case False
  then show ?thesis using log_statement_disabled by presburger
qed

theorem log_statement_line_witness:
  "log_statement \<lparr>le_now = 0, le_strftime = (\<lambda>_. ''T''), le_pid = 7, le_tid = ''1'',
       le_put = (\<lambda>b v. Some (b @ v))\<rparr> gl_logger ll_err (Some 3, None) [''a'', ''b''] ''x'' =
     Some (''xT'' @ '' [7.1.3] E ab'' @ [CHR 0x0A])"
proof -
  let ?env = "\<lparr>le_now = 0, le_strftime = (\<lambda>_. ''T''), le_pid = 7, le_tid = ''1'',
       le_put = (\<lambda>b v. Some (b @ v))\<rparr>"
  have "time_stamp ?env = Some (''T'')"
    by code_simp
  moreover have "quiet_env ?env" by (simp add: quiet_env_def)
  moreover have "concat (prefix_parts ?env ll_err (Some 3, None) ''T'') = ''T [7.1.3] E ''"
    by code_simp
  ultimately show ?thesis
    by (subst log_statement_line) (simp_all add: gl_logger_def ll_defs)
qed

text \<open>
  Exception safety. Whatever insertions fail and wherever they fail, a log statement
  ends normally, keeps everything written to standard error before it, and writes nothing
  at all when its level is filtered out.
\<close>

lemma log_statement_safe:
  assumes "time_stamp env \<noteq> None"
  shows "\<exists>s. log_statement env lg level session ps cerr = Some (cerr @ s) \<and>
    (level \<le> ll_off \<or> lg_level lg < level \<longrightarrow> s = [])"
proof (cases "ll_off < level \<and> level \<le> lg_level lg")
  case True
  from assms obtain ts where ts: "time_stamp env = Some ts" by blast
  let ?m = "\<lparr>lm_level = level, lm_os = Some \<lparr>os_buf = [], os_wrapped = True\<rparr>, lm_session = session\<rparr>"
  let ?ps = "prefix_parts env level session ts @ ps"
  obtain s where s: "snd (foldl (log_put env) (?m, cerr) ?ps) = cerr @ s"
    using foldl_log_put_appends [of env "(?m, cerr)" ?ps] by auto
  obtain s' where "log_msg_dtor env (foldl (log_put env) (?m, cerr) ?ps) = cerr @ s @ s'"
    using log_msg_dtor_appends [of env "foldl (log_put env) (?m, cerr) ?ps"] s by auto
  with True ts show ?thesis by (auto simp: log_statement_enabled simp del: foldl_append)
next
  case False
  then show ?thesis using log_statement_disabled by simp
qed

theorem log_statement_safe_witness:
  "\<exists>s. log_statement \<lparr>le_now = 0, le_strftime = (\<lambda>_. ''T''), le_pid = 7, le_tid = ''1'',
       le_put = (\<lambda>b v. None)\<rparr> gl_logger ll_debug (None, None) [''a''] ''x'' = Some (''x'' @ s) \<and>
     s = []"
proof -
  let ?env = "\<lparr>le_now = 0, le_strftime = (\<lambda>_. ''T''), le_pid = 7, le_tid = ''1'',
       le_put = (\<lambda>b v. None)\<rparr>"
  have "time_stamp ?env \<noteq> None" by (simp add: time_stamp_def Let_def)
  from log_statement_safe [OF this, of gl_logger ll_debug "(None, None)" "[''a'']" "''x''"]
  show ?thesis by (simp add: gl_logger_def ll_defs)
qed

text \<open>
  A message that is moved is still emitted exactly once. Destroying the moved-from
  object adds nothing, destroying the new one adds what the original would have added.
\<close>

lemma log_msg_move_once:
  "log_msg_dtor env (snd (log_msg_move m), log_msg_dtor env (fst (log_msg_move m), cerr)) =
   log_msg_dtor env (m, cerr)"
  by (simp add: log_msg_move_def log_msg_dtor_def split: option.split)

end
