(* ===== verification/Configuration.thy ===== *)
theory Configuration
  imports Float32 Logging
begin

text \<open>
  \<^verbatim>\<open>src/configuration.hpp\<close>, \<^verbatim>\<open>src/configuration.cpp\<close> and the message types of
  \<^verbatim>\<open>src/configuration.proto\<close>: reading, validating and querying the configuration. A
  protobuf message is a record, a message-typed field an option (\<open>has_x()\<close>), a protobuf
  map an association list with distinct keys. The JSON parser of protobuf is a parameter: it
  gives the message it leaves behind and, on failure, the status text.
\<close>

section \<open>The configuration message\<close>

definition LogLevel_table :: "(string \<times> int) list" where
  "LogLevel_table =
    [(''unspec'', 0), (''off'', 1),
     (''X'', 2), (''emerg'', 2), (''emergency'', 2),
     (''A'', 3), (''alert'', 3),
     (''C'', 4), (''crit'', 4), (''critical'', 4),
     (''E'', 5), (''err'', 5), (''error'', 5),
     (''W'', 6), (''warning'', 6), (''warn'', 6),
     (''N'', 7), (''notice'', 7),
     (''I'', 8), (''info'', 8),
     (''D'', 9), (''debug'', 9)]"

record LogCfg =
  log_level_field :: int

record ThreadPoolCfg =
  threads_field :: int

record ThreadPoolsCfg =
  tps_main :: "ThreadPoolCfg option"
  tps_control :: "ThreadPoolCfg option"
  tps_database :: "ThreadPoolCfg option"
  tps_main_pools :: int
  tps_accept_pool :: bool

record HttpServerCfg =
  hs_port :: u32
  hs_listen_queue :: u32
  hs_max_connections :: u32
  hs_idle_timeout :: f32
  hs_keepalive_timeout :: f32
  hs_keepalive_requests :: u32
  hs_max_request_headers :: u64
  hs_max_request_body :: u64

record SQLite3Db =
  sd_file :: string
  sd_queries :: "(string \<times> string) list"
  sd_retries :: u32
  sd_retry_wait :: f32

type_synonym SQLite3 = "(string \<times> SQLite3Db) list"

record ConfigurationMsg =
  cm_log :: "LogCfg option"
  cm_thread_pools :: "ThreadPoolsCfg option"
  cm_http_server :: "HttpServerCfg option"
  cm_databases :: "SQLite3 option"

definition empty_msg :: ConfigurationMsg where
  "empty_msg = \<lparr>cm_log = None, cm_thread_pools = None, cm_http_server = None, cm_databases = None\<rparr>"

section \<open>Operations\<close>

record configuration =
  cfg_valid :: bool
  cfg_data :: ConfigurationMsg
  cfg_log_level :: "log_level option"

definition http_port_default :: u16 where "http_port_default = 80"

text \<open>
  Seconds as a float to nanoseconds; \<open>Inl\<close> would be the undefined conversion of a float
  that does not fit into the integer type.
\<close>

datatype ub = Bad_conversion

definition get_time :: "f32 \<Rightarrow> ub + int option" where
  "get_time t =
     (let t = fmul t f32_1e9
      in if fless f32_zero t then
           (if fless t (f32_of_int64 int64_max) then
              (case f32_to_int64 t of None \<Rightarrow> Inl Bad_conversion | Some n \<Rightarrow> Inr (Some n))
            else Inr (Some int64_max))
         else Inr None)"

definition http_port :: "configuration \<Rightarrow> u16" where
  "http_port cfg =
     (case cm_http_server (cfg_data cfg) of
        None \<Rightarrow> http_port_default
      | Some h \<Rightarrow> if 1 \<le> hs_port h \<and> hs_port h \<le> 65535 then ucast (hs_port h) else http_port_default)"

definition main_pools :: "configuration \<Rightarrow> int" where
  "main_pools cfg =
     (case cm_thread_pools (cfg_data cfg) of None \<Rightarrow> 1 | Some tp \<Rightarrow> max 1 (tps_main_pools tp))"

text \<open>\<open>hw\<close> is \<open>std::thread::hardware_concurrency()\<close>.\<close>

definition num_threads :: "u32 \<Rightarrow> ThreadPoolCfg option \<Rightarrow> int" where
  "num_threads hw cfg =
     (let n = (case cfg of None \<Rightarrow> 0 | Some c \<Rightarrow> threads_field c);
          n = (if n = 0 then to_int32 (uint hw) else n)
      in max n 1)"

definition log_err :: "string \<Rightarrow> string \<Rightarrow> string" where
  "log_err cfg_file msg = ''Error in configuration file '' @ quoted cfg_file @ '': '' @ msg"

text \<open>The check of one thread pool (the lambda of \<open>validate\<close>).\<close>

definition test_pool :: "string \<Rightarrow> ThreadPoolCfg \<Rightarrow> string \<Rightarrow> bool \<times> string list" where
  "test_pool cfg_file p name =
     (if threads_field p < 0
      then (False, [log_err cfg_file (''Negative number of threads in pool '' @ name)])
      else (True, []))"

definition validate_log ::
    "string \<Rightarrow> ConfigurationMsg \<Rightarrow> bool \<times> log_level option \<times> string list" where
  "validate_log cfg_file d =
     (case cm_log d of
        None \<Rightarrow> (True, None, [])
      | Some lc \<Rightarrow>
          let l = log_level_field lc
          in if l = 0 then (True, None, [])
             else if valid (l - 2) then (True, Some (l - 2), [])
             else (False, None, [log_err cfg_file (''Invalid log level '' @ dec_int l)]))"

text \<open>The disjunction stops at the first pool that fails.\<close>

definition validate_pools :: "string \<Rightarrow> ConfigurationMsg \<Rightarrow> bool \<times> string list" where
  "validate_pools cfg_file d =
     (case cm_thread_pools d of
        None \<Rightarrow> (True, [])
      | Some tp \<Rightarrow>
         (case (case tps_main tp of None \<Rightarrow> (True, []) | Some p \<Rightarrow> test_pool cfg_file p ''main'') of
            (False, ms) \<Rightarrow> (False, ms)
          | (True, ms) \<Rightarrow>
             (case tps_control tp of None \<Rightarrow> (True, ms)
              | Some p \<Rightarrow> (let (ok, ms') = test_pool cfg_file p ''control'' in (ok, ms @ ms')))))"

definition validate_http :: "string \<Rightarrow> ConfigurationMsg \<Rightarrow> bool \<times> string list" where
  "validate_http cfg_file d =
     (case cm_http_server d of
        None \<Rightarrow> (True, [])
      | Some h \<Rightarrow>
          let r1 = (if hs_port h > 65535
                    then (False, [log_err cfg_file (''Invalid HTTP server port number '' @ dec (unat (hs_port h)))])
                    else (True, []));
              r2 = (if fless (hs_idle_timeout h) f32_zero
                    then (False, [log_err cfg_file ''Negative HTTP server idle timeout'']) else (True, []));
              r3 = (if fless (hs_keepalive_timeout h) f32_zero
                    then (False, [log_err cfg_file ''Negative HTTP server idle timeout'']) else (True, []))
          in (fst r1 \<and> fst r2 \<and> fst r3, snd r1 @ snd r2 @ snd r3))"

definition validate ::
    "string \<Rightarrow> ConfigurationMsg \<Rightarrow> bool \<times> log_level option \<times> string list" where
  "validate cfg_file d =
     (let (r1, ll, m1) = validate_log cfg_file d;
          (r2, m2) = validate_pools cfg_file d;
          (r3, m3) = validate_http cfg_file d
      in (r1 \<and> r2 \<and> r3, ll, m1 @ m2 @ m3))"

text \<open>What opening and reading the file can give.\<close>

datatype file_read = Cannot_read | Not_to_end | Contents string

definition configuration_ctor ::
    "(string \<Rightarrow> ConfigurationMsg \<times> string option) \<Rightarrow> string \<Rightarrow> file_read \<Rightarrow>
      configuration \<times> string list" where
  "configuration_ctor json_parse cfg_file f =
     (case f of
        Cannot_read \<Rightarrow>
          (\<lparr>cfg_valid = False, cfg_data = empty_msg, cfg_log_level = None\<rparr>,
           [''Cannot read configuration file '' @ quoted cfg_file])
      | Not_to_end \<Rightarrow>
          (\<lparr>cfg_valid = False, cfg_data = empty_msg, cfg_log_level = None\<rparr>,
           [''Configuration file '' @ quoted cfg_file @ '' not read to the end''])
      | Contents s \<Rightarrow>
         (case json_parse s of
            (d, Some status) \<Rightarrow>
              (\<lparr>cfg_valid = False, cfg_data = d, cfg_log_level = None\<rparr>, [log_err cfg_file status])
          | (d, None) \<Rightarrow>
              (let (ok, ll, ms) = validate cfg_file d
               in (\<lparr>cfg_valid = ok, cfg_data = d, cfg_log_level = ll\<rparr>, ms))))"

section \<open>Lemmas\<close>

text \<open>What the documentation of the messages promises of a good configuration.\<close>

definition log_ok :: "ConfigurationMsg \<Rightarrow> bool" where
  "log_ok d \<longleftrightarrow> (case cm_log d of None \<Rightarrow> True
     | Some lc \<Rightarrow> 0 \<le> log_level_field lc \<and> log_level_field lc \<le> 9)"

definition pool_ok :: "ThreadPoolCfg option \<Rightarrow> bool" where
  "pool_ok p \<longleftrightarrow> (case p of None \<Rightarrow> True | Some c \<Rightarrow> 0 \<le> threads_field c)"

definition pools_ok :: "ConfigurationMsg \<Rightarrow> bool" where
  "pools_ok d \<longleftrightarrow> (case cm_thread_pools d of None \<Rightarrow> True
     | Some tp \<Rightarrow> pool_ok (tps_main tp) \<and> pool_ok (tps_control tp))"

definition http_ok :: "ConfigurationMsg \<Rightarrow> bool" where
  "http_ok d \<longleftrightarrow> (case cm_http_server d of None \<Rightarrow> True
     | Some h \<Rightarrow> hs_port h \<le> 65535 \<and> \<not> fless (hs_idle_timeout h) f32_zero \<and>
        \<not> fless (hs_keepalive_timeout h) f32_zero)"

lemma valid_shift: "valid (l - 2) \<longleftrightarrow> 1 \<le> l \<and> l \<le> 9"
  by (auto simp: valid_def ll_defs)

lemma validate_log_ok: "fst (validate_log f d) \<longleftrightarrow> log_ok d"
  by (auto simp: validate_log_def log_ok_def Let_def valid_shift split: option.split)

lemma validate_pools_ok: "fst (validate_pools f d) \<longleftrightarrow> pools_ok d"
  by (auto simp: validate_pools_def pools_ok_def pool_ok_def test_pool_def split: option.split)

lemma validate_http_ok: "fst (validate_http f d) \<longleftrightarrow> http_ok d"
  by (auto simp: validate_http_def http_ok_def Let_def split: option.split)

lemma validate_msgs:
  "snd (snd (validate_log f d)) = [] \<longleftrightarrow> fst (validate_log f d)"
  "snd (validate_pools f d) = [] \<longleftrightarrow> fst (validate_pools f d)"
  "snd (validate_http f d) = [] \<longleftrightarrow> fst (validate_http f d)"
  by (auto simp: validate_log_def validate_pools_def validate_http_def test_pool_def Let_def
      split: option.split)

lemma f32_max_value: "f32_of_int64 int64_max = F_fin 16777216 39"
  by code_simp

lemma fval_max: "fval 16777216 39 = 9223372036854775808"
  by (simp add: fval_def powi_nat)

text \<open>Well-formed floats: 24 significant bits, exponent within the range of the format.\<close>

definition f32_wf :: "f32 \<Rightarrow> bool" where
  "f32_wf t \<longleftrightarrow> (case t of F_fin m e \<Rightarrow> \<bar>m\<bar> \<le> 2 ^ 24 \<and> - 149 \<le> e \<and> e \<le> 104 | _ \<Rightarrow> True)"

lemma fval_1e9: "fval (m * 1953125) (e + 9) = fval m e * 1000000000"
  by (simp add: fval_def power_int_add)

lemma to_int64_in_range:
  assumes "fless f32_zero t" and "fless t (f32_of_int64 int64_max)"
  shows "\<exists>m e. t = F_fin m e \<and> 0 < m \<and> f32_to_int64 t = Some (ftrunc m e) \<and>
    0 \<le> ftrunc m e \<and> ftrunc m e \<le> int64_max"
proof -
  from assms obtain m e where t: "t = F_fin m e"
    unfolding f32_max_value f32_zero_def by (cases t) (auto split: if_splits)
  have m: "0 < m" using assms(1) by (simp only: t fless_zero_fin)
  have "fval m e < 9223372036854775808"
    using assms(2) unfolding f32_max_value t fless_fin fval_max .
  with ftrunc_bounds [of m e] m have hi: "ftrunc m e \<le> int64_max" by linarith
  have "- 1 < real_of_int (ftrunc m e)"
    using ftrunc_bounds [of m e] m fval_pos_iff [of m e] by linarith
  then have lo: "0 \<le> ftrunc m e" by linarith
  show ?thesis using t m lo hi by (auto simp: f32_to_int64_def Let_def)
qed

lemma get_time_no_ub: "\<exists>r. get_time t = Inr r"
  using to_int64_in_range [of "fmul t f32_1e9"] by (auto simp: get_time_def Let_def)

text \<open>The value of \<open>get_time\<close>, which its clients use.\<close>

definition time_value :: "f32 \<Rightarrow> int option" where
  "time_value t = projr (get_time t)"

lemma get_time_value: "get_time t = Inr (time_value t)"
  using get_time_no_ub [of t] by (auto simp: time_value_def)

lemma get_time_bounds: "get_time t = Inr (Some n) \<Longrightarrow> 0 \<le> n \<and> n \<le> int64_max"
  using to_int64_in_range [of "fmul t f32_1e9"]
  by (auto simp: get_time_def Let_def split: if_splits option.splits)

lemma time_value_bounds: "time_value t = Some n \<Longrightarrow> 0 \<le> n \<and> n \<le> int64_max"
  using get_time_bounds [of t n] by (simp add: get_time_value)

lemma fmul_1e9_pos:
  assumes "f32_wf t"
  shows "fless f32_zero (fmul t f32_1e9) \<longleftrightarrow> fless f32_zero t"
proof (cases t)
  case (F_fin m e)
  have "- 149 \<le> e + 9" using assms F_fin by (simp add: f32_wf_def)
  then show ?thesis
    using round32_pos [of "m * 1953125" "e + 9"] round32_nonpos [of "m * 1953125" "e + 9"]
    by (cases "0 < m") (auto simp: F_fin f32_1e9_def fless_zero_fin)
qed (auto simp: f32_1e9_def f32_zero_def)

section \<open>Properties\<close>

text \<open>
  C30: \<open>configuration::get_time\<close> never performs the undefined float-to-integer conversion its
  comment warns of, whatever the float; every time it returns fits into 64-bit
  nanoseconds and is not negative; and it returns no time exactly for values that are not
  positive (the documented \<^verbatim>\<open>0 = unlimited\<close>), NaN included.
\<close>

theorem get_time_total:
  assumes "f32_wf t"
  shows "(\<exists>r. get_time t = Inr r) \<and> (get_time t = Inr None \<longleftrightarrow> \<not> fless f32_zero t) \<and>
    (\<forall>n. get_time t = Inr (Some n) \<longrightarrow> 0 \<le> n \<and> n \<le> int64_max)"
proof -
  have "get_time t = Inr None \<longleftrightarrow> \<not> fless f32_zero (fmul t f32_1e9)"
    by (auto simp: get_time_def Let_def split: option.split)
  with fmul_1e9_pos [OF assms] get_time_no_ub [of t] get_time_bounds [of t] show ?thesis by blast
qed

theorem get_time_total_witness:
  "f32_wf F_nan \<and> get_time F_nan = Inr None \<and> f32_wf (F_inf False) \<and>
   get_time (F_inf False) = Inr (Some int64_max)"
proof -
  have "f32_wf F_nan" "f32_wf (F_inf False)" by (simp_all add: f32_wf_def)
  with get_time_total [of F_nan] show ?thesis
    by (simp add: f32_zero_def get_time_def f32_1e9_def f32_max_value)
qed

text \<open>
  Accuracy. A positive finite time whose product does not exceed the range is
  converted to nanoseconds with at most the relative error of one rounding (one part in
  \<open>2 ^ 24\<close>) before the fraction is cut off.
\<close>

lemma get_time_accurate:
  assumes "f32_wf (F_fin m e)" and "0 < m" and "get_time (F_fin m e) = Inr (Some n)" and "n < int64_max"
  shows "\<exists>x. \<bar>x - fval m e * 1000000000\<bar> \<le> fval m e * 1000000000 / 2 ^ 24 \<and> n = \<lfloor>x\<rfloor>"
proof -
  let ?t = "fmul (F_fin m e) f32_1e9"
  have t: "?t = round32 (m * 1953125) (e + 9)" by (simp add: f32_1e9_def)
  from assms(3,4) have "fless f32_zero ?t \<and> fless ?t (f32_of_int64 int64_max) \<and> f32_to_int64 ?t = Some n"
    by (simp add: get_time_def Let_def split: if_splits option.splits)
  then obtain m' e' where r: "?t = F_fin m' e'" "0 < m'" "n = ftrunc m' e'"
    using to_int64_in_range [of ?t] by auto
  have "\<bar>fval m' e' - fval (m * 1953125) (e + 9)\<bar> \<le> fval (m * 1953125) (e + 9) / 2 ^ 24"
    using round32_fin [of "m * 1953125" "e + 9" m' e'] assms(1,2) r(1) t by (simp add: f32_wf_def)
  moreover have "\<lfloor>fval m' e'\<rfloor> = n"
    using ftrunc_bounds [of m' e'] r(2,3) by (simp add: floor_eq_iff)
  ultimately show ?thesis unfolding fval_1e9 by blast
qed

theorem get_time_accurate_witness:
  "get_time (F_fin 13421773 (- 27)) = Inr (Some 100000000) \<and>
   (\<exists>x. \<bar>x - fval 13421773 (- 27) * 1000000000\<bar> \<le> fval 13421773 (- 27) * 1000000000 / 2 ^ 24 \<and>
     100000000 = \<lfloor>x\<rfloor>)"
proof -
  have "get_time (F_fin 13421773 (- 27)) = Inr (Some 100000000)" by code_simp
  moreover have "f32_wf (F_fin 13421773 (- 27))" by (simp add: f32_wf_def)
  ultimately show ?thesis
    using get_time_accurate [of 13421773 "- 27" 100000000] by simp
qed

text \<open>
  C29: \<open>configuration::validate\<close> accepts a configuration exactly when its log level is
  unspecified or one of the nine levels, the thread counts of the main and control pools are
  not negative, the port fits into 16 bits and neither timeout is negative. Otherwise, and
  only then, it logs at least one error. The log level it extracts is the one of the
  enumeration in \<^verbatim>\<open>log.hpp\<close>, two below the protobuf number.
\<close>

theorem validate_spec:
  "(fst (validate f d) \<longleftrightarrow> log_ok d \<and> pools_ok d \<and> http_ok d) \<and>
   (fst (validate f d) \<longleftrightarrow> snd (snd (validate f d)) = []) \<and>
   fst (snd (validate f d)) =
     (case cm_log d of None \<Rightarrow> None
      | Some lc \<Rightarrow> if 1 \<le> log_level_field lc \<and> log_level_field lc \<le> 9
                  then Some (log_level_field lc - 2) else None)"
proof -
  have ll: "fst (snd (validate f d)) = fst (snd (validate_log f d))"
    by (simp add: validate_def split: prod.split)
  have "fst (validate f d) \<longleftrightarrow>
      fst (validate_log f d) \<and> fst (validate_pools f d) \<and> fst (validate_http f d)"
    and "snd (snd (validate f d)) =
      snd (snd (validate_log f d)) @ snd (validate_pools f d) @ snd (validate_http f d)"
    by (simp_all add: validate_def split: prod.split)
  then have "fst (validate f d) \<longleftrightarrow> log_ok d \<and> pools_ok d \<and> http_ok d"
    and "fst (validate f d) \<longleftrightarrow> snd (snd (validate f d)) = []"
    by (simp_all add: validate_msgs validate_log_ok validate_pools_ok validate_http_ok)
  then show ?thesis
    unfolding ll by (simp add: validate_log_def valid_shift Let_def split: option.split)
qed

text \<open>
  The protobuf names of log levels agree with the names \<open>from_string\<close> knows. Every name of
  the protobuf enumeration other than \<open>unspec\<close> denotes, after the shift by two, the level
  that \<open>from_string\<close> gives it, and every name \<open>from_string\<close> knows is in the protobuf
  enumeration, except the dash.
\<close>

lemma log_level_names_agree:
  "(\<forall>n s. map_of LogLevel_table s = Some n \<longrightarrow> s \<noteq> ''unspec'' \<longrightarrow> from_string s = Some (n - 2)) \<and>
   (\<forall>s l. from_string s = Some l \<longrightarrow> s \<noteq> ''-'' \<longrightarrow> map_of LogLevel_table s = Some (l + 2))"
  by (auto simp: LogLevel_table_def from_string_def levels_def ll_defs split: if_splits)

theorem log_level_names_agree_witness:
  "map_of LogLevel_table ''warn'' = Some 6 \<and> from_string ''warn'' = Some 4"
proof -
  have "map_of LogLevel_table ''warn'' = Some 6" by (simp add: LogLevel_table_def)
  with log_level_names_agree show ?thesis by force
qed

text \<open>
  The numbers derived from any configuration are usable. The HTTP port is never 0, it is
  the configured port whenever that is a valid port number and the default otherwise; there
  is at least one main pool, and every pool has at least one thread, even for a negative
  thread count or an unknown number of processors.
\<close>

lemma derived_numbers:
  "(case cm_http_server (cfg_data cfg) of
      None \<Rightarrow> unat (http_port cfg) = 80
    | Some h \<Rightarrow> unat (http_port cfg) =
        (if 1 \<le> unat (hs_port h) \<and> unat (hs_port h) \<le> 65535 then unat (hs_port h) else 80)) \<and>
   0 < unat (http_port cfg) \<and> 1 \<le> main_pools cfg \<and> 1 \<le> num_threads hw tp"
proof -
  have u: "unat (ucast w :: u16) = unat w" if "w \<le> 65535" for w :: u32
    using that by (simp add: unsigned_ucast_eq take_bit_eq_mod word_le_nat_alt)
  have le: "1 \<le> w \<longleftrightarrow> 1 \<le> unat w" "w \<le> 65535 \<longleftrightarrow> unat w \<le> 65535" for w :: u32
    by (simp_all add: word_le_nat_alt)
  show ?thesis
    by (auto simp: http_port_def http_port_default_def main_pools_def num_threads_def Let_def u le
        split: option.split)
qed

end
