(* ===== verification/Db_Server.thy ===== *)
theory Db_Server
  imports Sqlite Configuration
begin

text \<open>
  \<^verbatim>\<open>src/db_server.hpp\<close>, \<^verbatim>\<open>src/db_server.cpp\<close> and the messages of \<^verbatim>\<open>src/http_hnd_db.proto\<close>:
  opening the configured databases for every database thread, and running one named query
  with bound arguments, retrying while the database is locked. The state is the library
  state of SQLite, the \<open>finished\<close> flag of each shared synchronisation object and the
  durations waited so far. The row loop takes fuel: a query may produce any number of rows,
  and running out of fuel is \<open>None\<close>.
\<close>

section \<open>Messages\<close>

datatype Value = V_not_set | V_null | V_int64 int | V_double f64 | V_text string | V_blob string

type_synonym Row = "Value list"

record DbRequest =
  rq_db :: string
  rq_query :: string
  rq_args :: "Value list"
  rq_retry_if_locked :: bool

record DbResponse =
  rp_ok :: bool
  rp_msg :: string
  rp_rows :: "Row list"

section \<open>State\<close>

record db_def =
  dd_db :: connection
  dd_queries :: "(string \<times> query) list"
  dd_retries :: u32
  dd_retry_wait :: int
  dd_sync :: nat

type_synonym databases = "(string \<times> db_def) list list"

record 's db_world =
  w_sq :: 's
  w_finished :: "nat \<Rightarrow> bool"
  w_waits :: "int list"

text \<open>One minute, in nanoseconds.\<close>

definition max_retry_wait :: int where "max_retry_wait = 60000000000"

section \<open>Running a query\<close>

definition db_bind :: "'s sqlite_api \<Rightarrow> query \<Rightarrow> int \<Rightarrow> Value \<Rightarrow> 's \<Rightarrow> unit outcome \<times> 's" where
  "db_bind api q i v s =
     (case v of
        V_not_set \<Rightarrow> bind_null api q i s
      | V_null \<Rightarrow> bind_null api q i s
      | V_int64 n \<Rightarrow> bind_int64 api q i n s
      | V_double d \<Rightarrow> bind_double api q i d s
      | V_text t \<Rightarrow> bind_text api q i t s
      | V_blob b \<Rightarrow> bind_blob api q i b s)"

fun bind_args :: "'s sqlite_api \<Rightarrow> query \<Rightarrow> int \<Rightarrow> Value list \<Rightarrow> 's \<Rightarrow> unit outcome \<times> 's" where
  "bind_args api q i [] s = (Ok (), s)"
| "bind_args api q i (v # vs) s =
     (case db_bind api q i v s of
        (Ok _, s) \<Rightarrow> bind_args api q (i + 1) vs s
      | (Throw e, s) \<Rightarrow> (Throw e, s)
      | (Abort, s) \<Rightarrow> (Abort, s))"

fun column_to_value :: "column_value \<Rightarrow> Value" where
  "column_to_value Cv_null = V_null"
| "column_to_value (Cv_int64 n) = V_int64 n"
| "column_to_value (Cv_double d) = V_double d"
| "column_to_value (Cv_string t) = V_text t"
| "column_to_value (Cv_blob b) = V_blob b"

definition fetch_row :: "'s sqlite_api \<Rightarrow> query \<Rightarrow> int \<Rightarrow> 's \<Rightarrow> Row" where
  "fetch_row api q columns s = map (\<lambda>c. column_to_value (get_column api q c s)) [0..columns - 1]"

definition retry_pause :: "db_def \<Rightarrow> 's db_world \<Rightarrow> 's db_world" where
  "retry_pause db w =
     (if 0 < dd_retry_wait db
      then w\<lparr>w_finished := (w_finished w)(dd_sync db := False), w_waits := w_waits w @ [dd_retry_wait db]\<rparr>
      else w)"

definition signal_finished :: "db_def \<Rightarrow> 's db_world \<Rightarrow> 's db_world" where
  "signal_finished db w = w\<lparr>w_finished := (w_finished w)(dd_sync db := True)\<rparr>"

fun execute_loop ::
    "'s sqlite_api \<Rightarrow> db_def \<Rightarrow> query \<Rightarrow> int \<Rightarrow> nat \<Rightarrow> u32 \<Rightarrow> Row list \<Rightarrow> 's db_world \<Rightarrow>
      ((unit outcome \<times> Row list) \<times> 's db_world) option" where
  "execute_loop api db q columns 0 retries rows w = None"
| "execute_loop api db q columns (Suc fuel) retries rows w =
     (case next_row api q retries (w_sq w) of
        (Ok St_done, s) \<Rightarrow> Some ((Ok (), rows), w\<lparr>w_sq := s\<rparr>)
      | (Ok St_locked, s) \<Rightarrow>
          (if 0 < retries then
            (let w = retry_pause db (w\<lparr>w_sq := s\<rparr>)
             in case query_start api q True (w_sq w) of
                  (Ok _, s) \<Rightarrow> execute_loop api db q columns fuel (retries - 1) rows (w\<lparr>w_sq := s\<rparr>)
                | (Throw e, s) \<Rightarrow> Some ((Throw e, rows), w\<lparr>w_sq := s\<rparr>)
                | (Abort, s) \<Rightarrow> Some ((Abort, rows), w\<lparr>w_sq := s\<rparr>))
           else Some ((Abort, rows), w\<lparr>w_sq := s\<rparr>))
      | (Ok St_row, s) \<Rightarrow>
          execute_loop api db q columns fuel retries (rows @ [fetch_row api q columns s]) (w\<lparr>w_sq := s\<rparr>)
      | (Throw e, s) \<Rightarrow> Some ((Throw e, rows), w\<lparr>w_sq := s\<rparr>)
      | (Abort, s) \<Rightarrow> Some ((Abort, rows), w\<lparr>w_sq := s\<rparr>))"

text \<open>The scope guard signals on a normal end and on an exception, not when the process dies.\<close>

definition execute_query ::
    "'s sqlite_api \<Rightarrow> db_def \<Rightarrow> query \<Rightarrow> nat \<Rightarrow> u32 \<Rightarrow> 's db_world \<Rightarrow>
      ((unit outcome \<times> Row list) \<times> 's db_world) option" where
  "execute_query api db q fuel retries w =
     map_option (\<lambda>(r, w). (r, if fst r = Abort then w else signal_finished db w))
       (execute_loop api db q (column_count api q (w_sq w)) fuel retries [] w)"

definition response_error :: "string \<Rightarrow> DbResponse" where
  "response_error m = \<lparr>rp_ok = False, rp_msg = m, rp_rows = []\<rparr>"

text \<open>The tail of the \<open>try\<close> block and its handler for SQLite errors.\<close>

definition finish_query :: "(unit outcome \<times> Row list) \<times> 's db_world \<Rightarrow> DbResponse outcome \<times> 's db_world" where
  "finish_query r =
     (case r of ((res, rows), w) \<Rightarrow>
       ((case res of
           Ok _ \<Rightarrow> Ok \<lparr>rp_ok = True, rp_msg = ''ok'', rp_rows = rows\<rparr>
         | Throw (Sqlite_error m) \<Rightarrow> Ok (response_error m)
         | Throw e \<Rightarrow> Throw e
         | Abort \<Rightarrow> Abort), w))"

definition bind_and_execute ::
    "'s sqlite_api \<Rightarrow> db_def \<Rightarrow> query \<Rightarrow> nat \<Rightarrow> DbRequest \<Rightarrow> 's db_world \<Rightarrow>
      ((unit outcome \<times> Row list) \<times> 's db_world) option" where
  "bind_and_execute api db q fuel request w =
     (case query_start api q False (w_sq w) of
        (Ok _, s) \<Rightarrow>
         (case bind_args api q 0 (rq_args request) s of
            (Ok _, s) \<Rightarrow>
              execute_query api db q fuel
                (if rq_retry_if_locked request then dd_retries db else 0) (w\<lparr>w_sq := s\<rparr>)
          | (Throw e, s) \<Rightarrow> Some ((Throw e, []), w\<lparr>w_sq := s\<rparr>)
          | (Abort, s) \<Rightarrow> Some ((Abort, []), w\<lparr>w_sq := s\<rparr>))
      | (Throw e, s) \<Rightarrow> Some ((Throw e, []), w\<lparr>w_sq := s\<rparr>)
      | (Abort, s) \<Rightarrow> Some ((Abort, []), w\<lparr>w_sq := s\<rparr>))"

definition run_query ::
    "'s sqlite_api \<Rightarrow> databases \<Rightarrow> nat \<Rightarrow> nat \<Rightarrow> DbRequest \<Rightarrow> 's db_world \<Rightarrow>
      (DbResponse outcome \<times> 's db_world) option" where
  "run_query api databases fuel tid request w =
     (if length databases \<le> tid then Some (Throw Out_of_range, w)
      else
        case map_of (databases ! tid) (rq_db request) of
          None \<Rightarrow> Some (Ok (response_error (''Unknown database \"'' @ rq_db request @ ''\"'')), w)
        | Some db \<Rightarrow>
           (case map_of (dd_queries db) (rq_query request) of
              None \<Rightarrow> Some (Ok (response_error (''Unknown query \"'' @ rq_query request @
                        ''\" for database \"'' @ rq_db request @ ''\"'')), w)
            | Some q \<Rightarrow> map_option finish_query (bind_and_execute api db q fuel request w)))"

section \<open>Opening the databases\<close>

fun open_queries ::
    "'s sqlite_api \<Rightarrow> connection \<Rightarrow> (string \<times> string) list \<Rightarrow> 's \<Rightarrow> (string \<times> query) list outcome \<times> 's" where
  "open_queries api conn [] s = (Ok [], s)"
| "open_queries api conn ((q_name, q_def) # qs) s =
     (case query_ctor api conn q_def q_name s of
        (Ok q, s) \<Rightarrow>
         (case open_queries api conn qs s of
            (Ok rest, s) \<Rightarrow> (Ok ((q_name, q) # rest), s)
          | (Throw e, s) \<Rightarrow> (Throw e, s)
          | (Abort, s) \<Rightarrow> (Abort, s))
      | (Throw e, s) \<Rightarrow> (Throw e, s)
      | (Abort, s) \<Rightarrow> (Abort, s))"

definition retry_wait_of :: "SQLite3Db \<Rightarrow> int" where
  "retry_wait_of d_def =
     (case time_value (sd_retry_wait d_def) of
        None \<Rightarrow> 0
      | Some t \<Rightarrow> if t < max_retry_wait then t else max_retry_wait)"

text \<open>
  One database of one thread. \<open>zero\<close> holds the databases of thread 0 for the other threads,
  which share its synchronisation objects; thread 0 makes new ones, numbered by \<open>ns\<close>.
\<close>

definition open_database ::
    "'s sqlite_api \<Rightarrow> (string \<times> db_def) list option \<Rightarrow> string \<Rightarrow> SQLite3Db \<Rightarrow> 's \<Rightarrow> nat \<Rightarrow>
      db_def outcome \<times> 's \<times> nat" where
  "open_database api zero d_name d_def s ns =
     (case connection_ctor api (sd_file d_def) False s of
        (Ok conn, s) \<Rightarrow>
         (case open_queries api conn (sd_queries d_def) s of
            (Ok qs, s) \<Rightarrow>
             (case (case zero of None \<Rightarrow> Some ns | Some z \<Rightarrow> map_option dd_sync (map_of z d_name)) of
                None \<Rightarrow> (Throw Out_of_range, s, ns)
              | Some sync \<Rightarrow>
                  (Ok \<lparr>dd_db = conn, dd_queries = qs, dd_retries = sd_retries d_def,
                       dd_retry_wait = retry_wait_of d_def, dd_sync = sync\<rparr>, s,
                   if zero = None then Suc ns else ns))
          | (Throw e, s) \<Rightarrow> (Throw e, s, ns)
          | (Abort, s) \<Rightarrow> (Abort, s, ns))
      | (Throw e, s) \<Rightarrow> (Throw e, s, ns)
      | (Abort, s) \<Rightarrow> (Abort, s, ns))"

fun open_databases ::
    "'s sqlite_api \<Rightarrow> (string \<times> db_def) list option \<Rightarrow> SQLite3 \<Rightarrow> 's \<Rightarrow> nat \<Rightarrow>
      (string \<times> db_def) list outcome \<times> 's \<times> nat" where
  "open_databases api zero [] s ns = (Ok [], s, ns)"
| "open_databases api zero ((d_name, d_def) # ds) s ns =
     (case open_database api zero d_name d_def s ns of
        (Ok d, s, ns) \<Rightarrow>
         (case open_databases api zero ds s ns of
            (Ok rest, s, ns) \<Rightarrow> (Ok ((d_name, d) # rest), s, ns)
          | (Throw e, s, ns) \<Rightarrow> (Throw e, s, ns)
          | (Abort, s, ns) \<Rightarrow> (Abort, s, ns))
      | (Throw e, s, ns) \<Rightarrow> (Throw e, s, ns)
      | (Abort, s, ns) \<Rightarrow> (Abort, s, ns))"

text \<open>The loop over the threads; the index of the next thread is the number already done.\<close>

fun open_threads ::
    "'s sqlite_api \<Rightarrow> SQLite3 \<Rightarrow> nat \<Rightarrow> databases \<Rightarrow> 's \<Rightarrow> nat \<Rightarrow> databases outcome \<times> 's" where
  "open_threads api cfg 0 dbs s ns = (Ok dbs, s)"
| "open_threads api cfg (Suc n) dbs s ns =
     (case open_databases api (case dbs of [] \<Rightarrow> None | z # _ \<Rightarrow> Some z) cfg s ns of
        (Ok d, s, ns) \<Rightarrow> open_threads api cfg n (dbs @ [d]) s ns
      | (Throw e, s, ns) \<Rightarrow> (Throw e, s)
      | (Abort, s, ns) \<Rightarrow> (Abort, s))"

definition db_server_run ::
    "'s sqlite_api \<Rightarrow> SQLite3 option \<Rightarrow> nat \<Rightarrow> 's \<Rightarrow> (bool \<times> databases) outcome \<times> 's" where
  "db_server_run api cfg workers s =
     (case open_threads api (case cfg of None \<Rightarrow> [] | Some c \<Rightarrow> c) workers [] s 0 of
        (Ok dbs, s) \<Rightarrow> (Ok (True, dbs), s)
      | (Throw (Sqlite_error m), s) \<Rightarrow> (Ok (False, []), s)
      | (Throw e, s) \<Rightarrow> (Throw e, s)
      | (Abort, s) \<Rightarrow> (Abort, s))"

definition db_server_interrupt :: "'s sqlite_api \<Rightarrow> databases \<Rightarrow> 's \<Rightarrow> 's" where
  "db_server_interrupt api databases s =
     foldl (\<lambda>s db_map. foldl (\<lambda>s db. connection_interrupt api (dd_db (snd db)) s) s db_map) s databases"

section \<open>What SQLite does with a statement\<close>

text \<open>
  One attempt at a statement: it \<open>yields\<close> rows and is done, or it is \<open>blocked\<close> by a lock
  after some rows. A \<open>session\<close> is a number of blocked attempts, each followed by a reset,
  and a last one that is done; \<open>stuck\<close> counts attempts that are all blocked.
\<close>

inductive yields :: "'s sqlite_api \<Rightarrow> query \<Rightarrow> int \<Rightarrow> 's \<Rightarrow> Row list \<Rightarrow> 's \<Rightarrow> bool" for api q cols where
  yields_done: "sq_step api (qy_stmt q) s = (c, s') \<Longrightarrow> c smod 256 = SQLITE_DONE \<Longrightarrow> yields api q cols s [] s'"
| yields_row: "sq_step api (qy_stmt q) s = (c, s1) \<Longrightarrow> c smod 256 = SQLITE_ROW \<Longrightarrow>
    yields api q cols s1 rows s' \<Longrightarrow> yields api q cols s (fetch_row api q cols s1 # rows) s'"

inductive blocked :: "'s sqlite_api \<Rightarrow> query \<Rightarrow> int \<Rightarrow> 's \<Rightarrow> Row list \<Rightarrow> 's \<Rightarrow> bool" for api q cols where
  blocked_now: "sq_step api (qy_stmt q) s = (c, s') \<Longrightarrow> c smod 256 = SQLITE_BUSY \<or> c smod 256 = SQLITE_LOCKED \<Longrightarrow>
    blocked api q cols s [] s'"
| blocked_row: "sq_step api (qy_stmt q) s = (c, s1) \<Longrightarrow> c smod 256 = SQLITE_ROW \<Longrightarrow>
    blocked api q cols s1 rows s' \<Longrightarrow> blocked api q cols s (fetch_row api q cols s1 # rows) s'"

inductive session :: "'s sqlite_api \<Rightarrow> query \<Rightarrow> int \<Rightarrow> nat \<Rightarrow> 's \<Rightarrow> Row list \<Rightarrow> 's \<Rightarrow> bool" for api q cols where
  session_last: "yields api q cols s rows s' \<Longrightarrow> session api q cols 0 s rows s'"
| session_retry: "blocked api q cols s ps s1 \<Longrightarrow>
    session api q cols n (sq_reset api (qy_stmt q) s1) rows s' \<Longrightarrow>
    session api q cols (Suc n) s (ps @ rows) s'"

inductive stuck :: "'s sqlite_api \<Rightarrow> query \<Rightarrow> int \<Rightarrow> nat \<Rightarrow> nat \<Rightarrow> 's \<Rightarrow> 's \<Rightarrow> bool" for api q cols where
  stuck_last: "blocked api q cols s ps s' \<Longrightarrow> stuck api q cols 0 (length ps) s s'"
| stuck_retry: "blocked api q cols s ps s1 \<Longrightarrow>
    stuck api q cols n k (sq_reset api (qy_stmt q) s1) s' \<Longrightarrow>
    stuck api q cols (Suc n) (length ps + k) s s'"

section \<open>Lemmas\<close>

lemma retry_pause_sq [simp]: "w_sq (retry_pause db w) = w_sq w"
  by (simp add: retry_pause_def)

lemma retry_pause_update [simp]:
  "(retry_pause db w)\<lparr>w_sq := s\<rparr> = retry_pause db (w\<lparr>w_sq := s\<rparr>)"
  by (simp add: retry_pause_def)

lemma restart_eq: "query_start api q True s = (Ok (), sq_reset api (qy_stmt q) s)"
  by (simp add: query_start_def Let_def)

lemma next_row_done:
  "sq_step api (qy_stmt q) s = (c, s') \<Longrightarrow> c smod 256 = SQLITE_DONE \<Longrightarrow>
    next_row api q r s = (Ok St_done, s')"
  by (simp add: next_row_def)

lemma next_row_row:
  "sq_step api (qy_stmt q) s = (c, s') \<Longrightarrow> c smod 256 = SQLITE_ROW \<Longrightarrow>
    next_row api q r s = (Ok St_row, s')"
  by (simp add: next_row_def)

lemma next_row_locked:
  "sq_step api (qy_stmt q) s = (c, s') \<Longrightarrow> c smod 256 = SQLITE_BUSY \<or> c smod 256 = SQLITE_LOCKED \<Longrightarrow>
    next_row api q r s = (if 0 < r then Ok St_locked else Throw (query_error api q s'), s')"
  by (auto simp: next_row_def)

lemmas next_row_simps = next_row_done next_row_row next_row_locked

lemma loop_yields:
  "yields api q cols s rows s' \<Longrightarrow> length rows < fuel \<Longrightarrow>
    execute_loop api db q cols fuel r acc (w\<lparr>w_sq := s\<rparr>) = Some ((Ok (), acc @ rows), w\<lparr>w_sq := s'\<rparr>)"
proof (induction arbitrary: fuel acc rule: yields.induct)
  case (yields_done s c s')
  then show ?case by (cases fuel) (simp_all add: next_row_simps)
next
  case (yields_row s c s1 rows s')
  then show ?case by (cases fuel) (simp_all add: next_row_simps)
qed

lemma loop_blocked:
  "blocked api q cols s ps s1 \<Longrightarrow> 0 < r \<Longrightarrow>
    execute_loop api db q cols (Suc (length ps) + fuel) r acc (w\<lparr>w_sq := s\<rparr>) =
    execute_loop api db q cols fuel (r - 1) (acc @ ps)
      (retry_pause db (w\<lparr>w_sq := sq_reset api (qy_stmt q) s1\<rparr>))"
proof (induction arbitrary: acc rule: blocked.induct)
  case (blocked_now s c s')
  then show ?case by (simp add: next_row_simps restart_eq Let_def)
next
  case (blocked_row s c s1 rows s')
  then show ?case by (simp add: next_row_simps)
qed

lemma loop_blocked_last:
  "blocked api q cols s ps s' \<Longrightarrow> length ps < fuel \<Longrightarrow>
    execute_loop api db q cols fuel 0 acc (w\<lparr>w_sq := s\<rparr>) =
      Some ((Throw (query_error api q s'), acc @ ps), w\<lparr>w_sq := s'\<rparr>)"
proof (induction arbitrary: fuel acc rule: blocked.induct)
  case (blocked_now s c s')
  then show ?case by (cases fuel) (simp_all add: next_row_simps)
next
  case (blocked_row s c s1 rows s')
  then show ?case by (cases fuel) (simp_all add: next_row_simps)
qed

lemma retry_pause_funpow [simp]:
  "((retry_pause db ^^ n) w)\<lparr>w_sq := s\<rparr> = (retry_pause db ^^ n) (w\<lparr>w_sq := s\<rparr>)"
  by (induction n) auto

lemma unat_pred: "0 < (r :: u32) \<Longrightarrow> unat (r - 1) = unat r - 1"
  by (simp add: unat_minus_one word_neq_0_conv)

lemma unat_pos: "0 < (r :: u32) \<Longrightarrow> 0 < unat r"
  by (simp add: word_gt_0 unat_gt_0)

lemma loop_session:
  "session api q cols n s rows s' \<Longrightarrow> n \<le> unat r \<Longrightarrow> length rows + n < fuel \<Longrightarrow>
    execute_loop api db q cols fuel r acc (w\<lparr>w_sq := s\<rparr>) =
      Some ((Ok (), acc @ rows), (retry_pause db ^^ n) (w\<lparr>w_sq := s'\<rparr>))"
proof (induction arbitrary: fuel r acc w rule: session.induct)
  case (session_last s rows s')
  then show ?case by (simp add: loop_yields)
next
  case (session_retry s ps s1 n rows s')
  from session_retry.prems have r: "0 < r" by (auto simp: word_gt_0 unat_gt_0)
  obtain fuel' where f: "fuel = Suc (length ps) + fuel'"
    using session_retry.prems by (metis add_leD1 le_iff_add length_append less_eq_Suc_le add.assoc add_Suc_right add_Suc)
  have "execute_loop api db q cols fuel r acc (w\<lparr>w_sq := s\<rparr>) =
      execute_loop api db q cols fuel' (r - 1) (acc @ ps)
        ((retry_pause db w)\<lparr>w_sq := sq_reset api (qy_stmt q) s1\<rparr>)"
    unfolding f using loop_blocked [OF session_retry.hyps(1) r] by simp
  also have "\<dots> = Some ((Ok (), (acc @ ps) @ rows), (retry_pause db ^^ n) ((retry_pause db w)\<lparr>w_sq := s'\<rparr>))"
    using session_retry.prems f r unat_pred [OF r] by (intro session_retry.IH) simp_all
  also have "(retry_pause db ^^ n) ((retry_pause db w)\<lparr>w_sq := s'\<rparr>) =
      (retry_pause db ^^ Suc n) (w\<lparr>w_sq := s'\<rparr>)"
    by (simp add: funpow_swap1)
  finally show ?case by simp
qed

lemma loop_stuck:
  "stuck api q cols n k s s' \<Longrightarrow> unat r = n \<Longrightarrow> k + n < fuel \<Longrightarrow>
    \<exists>rows. execute_loop api db q cols fuel r acc (w\<lparr>w_sq := s\<rparr>) =
      Some ((Throw (query_error api q s'), rows), (retry_pause db ^^ n) (w\<lparr>w_sq := s'\<rparr>))"
proof (induction arbitrary: fuel r acc w rule: stuck.induct)
  case (stuck_last s ps s')
  then have "r = 0" by (simp add: unat_eq_zero)
  with stuck_last show ?case by (simp add: loop_blocked_last)
next
  case (stuck_retry s ps s1 n k s')
  from stuck_retry.prems have r: "0 < r" by (auto simp: word_gt_0 unat_gt_0)
  obtain fuel' where f: "fuel = Suc (length ps) + fuel'"
    using stuck_retry.prems by (metis add_leD1 le_iff_add less_eq_Suc_le add.assoc add_Suc_right add_Suc)
  have "execute_loop api db q cols fuel r acc (w\<lparr>w_sq := s\<rparr>) =
      execute_loop api db q cols fuel' (r - 1) (acc @ ps)
        ((retry_pause db w)\<lparr>w_sq := sq_reset api (qy_stmt q) s1\<rparr>)"
    unfolding f using loop_blocked [OF stuck_retry.hyps(1) r] by simp
  moreover have "\<exists>rows. execute_loop api db q cols fuel' (r - 1) (acc @ ps)
        ((retry_pause db w)\<lparr>w_sq := sq_reset api (qy_stmt q) s1\<rparr>) =
      Some ((Throw (query_error api q s'), rows), (retry_pause db ^^ n) ((retry_pause db w)\<lparr>w_sq := s'\<rparr>))"
    using stuck_retry.prems f unat_pred [OF r] by (intro stuck_retry.IH) simp_all
  moreover have "(retry_pause db ^^ n) ((retry_pause db w)\<lparr>w_sq := s'\<rparr>) =
      (retry_pause db ^^ Suc n) (w\<lparr>w_sq := s'\<rparr>)"
    by (simp add: funpow_swap1)
  ultimately show ?case by simp
qed

text \<open>
  Whatever SQLite does: the loop never fails its assertion, what it throws is a SQLite
  error, and it pauses at most as often as there are retries.
\<close>

definition paused :: "db_def \<Rightarrow> nat \<Rightarrow> int list" where
  "paused db k = replicate k (dd_retry_wait db)"

lemma loop_outcome:
  "execute_loop api db q cols fuel r acc w = Some ((res, rows), w') \<Longrightarrow>
    (res = Ok () \<or> (\<exists>m. res = Throw (Sqlite_error m))) \<and>
    (\<exists>k \<le> unat r. w_waits w' = w_waits w @ paused db k)"
proof (induction fuel arbitrary: r acc w)
  case (Suc fuel)
  obtain st s where nx: "next_row api q r (w_sq w) = (st, s)" by fastforce
  from query_rows.nxt_cases [of api q r "w_sq w"] show ?case
  proof cases
    case row
    with nx Suc.prems
    have "execute_loop api db q cols fuel r (acc @ [fetch_row api q cols s]) (w\<lparr>w_sq := s\<rparr>) = Some ((res, rows), w')"
      by simp
    from Suc.IH [OF this] show ?thesis by simp
  next
    case fin
    with nx Suc.prems show ?thesis by (auto simp: paused_def intro: exI [of _ 0])
  next
    case locked
    let ?w = "retry_pause db (w\<lparr>w_sq := sq_reset api (qy_stmt q) s\<rparr>)"
    from locked nx Suc.prems
    have "execute_loop api db q cols fuel (r - 1) acc ?w = Some ((res, rows), w')"
      by (simp add: restart_eq Let_def)
    from Suc.IH [OF this] obtain k where k: "k \<le> unat (r - 1)" "w_waits w' = w_waits ?w @ paused db k"
      and res: "res = Ok () \<or> (\<exists>m. res = Throw (Sqlite_error m))" by blast
    have "\<exists>k \<le> unat r. w_waits w' = w_waits w @ paused db k"
    proof (cases "0 < dd_retry_wait db")
      case True
      with k have "w_waits w' = w_waits w @ paused db (Suc k)"
        by (simp add: retry_pause_def paused_def replicate_append_same [symmetric])
      moreover have "Suc k \<le> unat r"
        using k(1) unat_pred [OF locked(2)] unat_pos [OF locked(2)] by linarith
      ultimately show ?thesis by blast
    next
      case False
      with k have "w_waits w' = w_waits w @ paused db k" by (simp add: retry_pause_def)
      moreover have "k \<le> unat r" using k(1) unat_pred [OF locked(2)] by linarith
      ultimately show ?thesis by blast
    qed
    with res show ?thesis by blast
  next
    case (throws m)
    with nx Suc.prems show ?thesis by (auto simp: paused_def intro: exI [of _ 0])
  qed
qed simp

lemma execute_query_outcome:
  assumes "execute_query api db q fuel r w = Some ((res, rows), w')"
  shows "(res = Ok () \<or> (\<exists>m. res = Throw (Sqlite_error m))) \<and>
    (\<exists>k \<le> unat r. w_waits w' = w_waits w @ paused db k)"
proof -
  from assms obtain w1
    where "execute_loop api db q (column_count api q (w_sq w)) fuel r [] w = Some ((res, rows), w1)"
      and "w_waits w' = w_waits w1"
    by (auto simp: execute_query_def signal_finished_def split: if_splits)
  with loop_outcome [OF this(1)] show ?thesis by simp
qed

lemma db_bind_throws: "fst (db_bind api q i v s) = Throw e \<Longrightarrow> \<exists>m. e = Sqlite_error m"
  by (cases v) (auto simp: db_bind_def bind_null_def bind_int64_def bind_double_def bind_text_def
      bind_blob_def dest: bind_arg_at_throws)

lemma db_bind_no_abort: "fst (db_bind api q i v s) \<noteq> Abort"
  by (cases v) (auto simp: db_bind_def bind_null_def bind_int64_def bind_double_def bind_text_def
      bind_blob_def bind_arg_at_no_abort)

lemma bind_args_outcome:
  "fst (bind_args api q i vs s) = Ok () \<or> (\<exists>m. fst (bind_args api q i vs s) = Throw (Sqlite_error m))"
proof (induction vs arbitrary: i s)
  case (Cons v vs)
  show ?case
    using db_bind_throws [of api q i v s] db_bind_no_abort [of api q i v s] Cons [of "i + 1"]
    by (auto split: prod.split outcome.split)
qed simp

lemma bind_and_execute_outcome:
  assumes "bind_and_execute api db q fuel request w = Some ((res, rows), w')"
  shows "(res = Ok () \<or> (\<exists>m. res = Throw (Sqlite_error m))) \<and>
    (\<exists>k \<le> unat (dd_retries db). w_waits w' = w_waits w @ paused db k)"
proof -
  obtain r1 s1 where qs: "query_start api q False (w_sq w) = (r1, s1)" by fastforce
  obtain r2 s2 where ba: "bind_args api q 0 (rq_args request) s1 = (r2, s2)" by fastforce
  have z: "\<exists>k \<le> unat (dd_retries db). w_waits w = w_waits w @ paused db k"
    by (auto simp: paused_def intro: exI [of _ 0])
  show ?thesis
  proof (cases r1)
    case r1: (Ok _)
    from bind_args_outcome [of api q 0 "rq_args request" s1] ba
    consider "r2 = Ok ()" | m where "r2 = Throw (Sqlite_error m)" by auto
    then show ?thesis
    proof cases
      case 1
      let ?r = "if rq_retry_if_locked request then dd_retries db else 0"
      from 1 r1 qs ba assms
      have "execute_query api db q fuel ?r (w\<lparr>w_sq := s2\<rparr>) = Some ((res, rows), w')"
        by (simp add: bind_and_execute_def)
      from execute_query_outcome [OF this] show ?thesis by (auto split: if_splits)
    next
      case 2
      with r1 qs ba assms z show ?thesis by (auto simp: bind_and_execute_def)
    qed
  next
    case (Throw e)
    with qs query_start_throws [of api q False "w_sq w" e] assms z show ?thesis
      by (auto simp: bind_and_execute_def)
  next
    case Abort
    with qs query_start_no_abort [of api q False "w_sq w"] show ?thesis by simp
  qed
qed

text \<open>The response contract of \<open>run_query\<close>.\<close>

definition response_ok :: "DbResponse \<Rightarrow> bool" where
  "response_ok r \<longleftrightarrow> (if rp_ok r then rp_msg r = ''ok'' else rp_rows r = [])"

lemma finish_query_ok:
  "res = Ok () \<or> (\<exists>m. res = Throw (Sqlite_error m)) \<Longrightarrow>
    \<exists>r. finish_query ((res, rows), w) = (Ok r, w) \<and> response_ok r"
  by (auto simp: finish_query_def response_ok_def response_error_def)

lemma run_query_outcome:
  assumes "tid < length databases" and "run_query api databases fuel tid request w = Some (res, w')"
  shows "(\<exists>r. res = Ok r \<and> response_ok r) \<and>
    (\<exists>k. w_waits w' = w_waits w @ k \<and>
      (case map_of (databases ! tid) (rq_db request) of None \<Rightarrow> k = []
       | Some db \<Rightarrow> \<exists>j \<le> unat (dd_retries db). k = paused db j))"
proof (cases "map_of (databases ! tid) (rq_db request)")
  case None
  with assms show ?thesis by (auto simp: run_query_def response_ok_def response_error_def)
next
  case (Some db)
  show ?thesis
  proof (cases "map_of (dd_queries db) (rq_query request)")
    case None
    with Some assms show ?thesis
      by (auto simp: run_query_def response_ok_def response_error_def paused_def intro: exI [of _ 0])
  next
    case q: (Some q)
    from assms Some q obtain r rows where
      be: "bind_and_execute api db q fuel request w = Some ((r, rows), w')"
      and fq: "finish_query ((r, rows), w') = (res, w')"
      by (auto simp: run_query_def finish_query_def)
    from bind_and_execute_outcome [OF be] finish_query_ok [of r rows w'] fq Some show ?thesis
      by fastforce
  qed
qed

text \<open>
  An opened database matches its configuration entry: same names, retries and capped wait,
  its queries prepared on its own connection, and synchronisation object number \<open>i\<close>.
\<close>

definition entry_ok :: "string \<times> SQLite3Db \<Rightarrow> nat \<Rightarrow> string \<times> db_def \<Rightarrow> bool" where
  "entry_ok c i e \<longleftrightarrow> fst e = fst c \<and>
     map fst (dd_queries (snd e)) = map fst (sd_queries (snd c)) \<and>
     (\<forall>q \<in> set (dd_queries (snd e)). qy_db (snd q) = dd_db (snd e)) \<and>
     dd_retries (snd e) = sd_retries (snd c) \<and> dd_retry_wait (snd e) = retry_wait_of (snd c) \<and>
     dd_sync (snd e) = i"

fun entries_ok :: "nat \<Rightarrow> SQLite3 \<Rightarrow> (string \<times> db_def) list \<Rightarrow> bool" where
  "entries_ok k [] ds = (ds = [])"
| "entries_ok k (c # cs) ds = (case ds of [] \<Rightarrow> False | d # ds \<Rightarrow> entry_ok c k d \<and> entries_ok (Suc k) cs ds)"

lemma entries_ok_nth:
  "entries_ok k cfg ds \<Longrightarrow> length ds = length cfg \<and> (\<forall>i < length cfg. entry_ok (cfg ! i) (k + i) (ds ! i))"
proof (induction cfg arbitrary: k ds)
  case (Cons c cs)
  then obtain d ds' where ds: "ds = d # ds'" "entry_ok c k d" "entries_ok (Suc k) cs ds'"
    by (auto split: list.splits)
  with Cons.IH [OF ds(3)] show ?case by (auto simp: less_Suc_eq_0_disj)
qed simp

lemma entries_ok_names: "entries_ok k cfg ds \<Longrightarrow> map fst ds = map fst cfg"
  by (induction cfg arbitrary: k ds) (auto simp: entry_ok_def split: list.splits)

lemma open_queries_ok:
  "open_queries api conn qs s = (Ok rs, s') \<Longrightarrow>
    map fst rs = map fst qs \<and> (\<forall>q \<in> set rs. qy_db (snd q) = conn)"
proof (induction qs arbitrary: s rs)
  case (Cons c qs)
  obtain n d where c: "c = (n, d)" by fastforce
  from Cons.prems obtain q s1 rest where
    q: "query_ctor api conn d n s = (Ok q, s1)" and
    rest: "open_queries api conn qs s1 = (Ok rest, s')" and rs: "rs = (n, q) # rest"
    by (auto simp: c split: prod.splits outcome.splits)
  from Cons.IH [OF rest] query_ctor_ok [OF q] show ?case by (simp add: rs c)
qed simp

lemma open_queries_throws:
  "fst (open_queries api conn qs s) = Throw e \<Longrightarrow> \<exists>m. e = Sqlite_error m"
proof (induction api conn qs s rule: open_queries.induct)
  case (2 api conn q_name q_def qs s)
  show ?case
    using "2.prems" "2.IH" query_ctor_throws [of api conn q_def q_name s e]
    by (auto split: prod.splits outcome.splits)
qed simp

text \<open>The synchronisation object an entry gets, given the databases of thread 0.\<close>

abbreviation sync_for :: "(string \<times> db_def) list option \<Rightarrow> string \<Rightarrow> nat \<Rightarrow> nat option" where
  "sync_for zero name ns \<equiv> (case zero of None \<Rightarrow> Some ns | Some z \<Rightarrow> map_option dd_sync (map_of z name))"

lemma open_database_ok:
  assumes "open_database api zero n d s ns = (Ok db, s', ns')"
  shows "(\<exists>i. sync_for zero n ns = Some i \<and> entry_ok (n, d) i (n, db)) \<and>
    ns' = (if zero = None then Suc ns else ns)"
proof -
  from assms obtain conn s1 qs i where
    oq: "open_queries api conn (sd_queries d) s1 = (Ok qs, s')" and i: "sync_for zero n ns = Some i" and
    db: "db = \<lparr>dd_db = conn, dd_queries = qs, dd_retries = sd_retries d,
           dd_retry_wait = retry_wait_of d, dd_sync = i\<rparr>" and
    ns': "ns' = (if zero = None then Suc ns else ns)"
    unfolding open_database_def by (force split: prod.splits outcome.splits option.splits)
  from open_queries_ok [OF oq] i ns' show ?thesis by (simp add: db entry_ok_def)
qed

lemma open_database_throws:
  assumes "fst (open_database api zero n d s ns) = Throw e" and "sync_for zero n ns = Some i"
  shows "\<exists>m. e = Sqlite_error m"
proof (cases "connection_ctor api (sd_file d) False s")
  case (Pair r s1)
  show ?thesis
  proof (cases r)
    case (Ok conn)
    obtain r2 s2 where oq: "open_queries api conn (sd_queries d) s1 = (r2, s2)" by fastforce
    from assms Pair Ok oq have "r2 = Throw e"
      by (cases r2) (auto simp: open_database_def)
    with oq open_queries_throws [of api conn "sd_queries d" s1 e] show ?thesis by simp
  qed (use assms Pair connection_ctor_throws [of api "sd_file d" False s e] in
      \<open>auto simp: open_database_def\<close>)
qed

text \<open>Entries from position \<open>k\<close> on find their synchronisation objects \<open>k\<close>, \<open>k + 1\<close>, \<dots>\<close>

definition syncs_from :: "(string \<times> db_def) list option \<Rightarrow> SQLite3 \<Rightarrow> nat \<Rightarrow> bool" where
  "syncs_from zero cfg k \<longleftrightarrow>
     (case zero of None \<Rightarrow> True
      | Some z \<Rightarrow> \<forall>i < length cfg. map_option dd_sync (map_of z (fst (cfg ! i))) = Some (k + i))"

lemma syncs_from_hd:
  assumes "syncs_from zero ((n, d) # cs) k" and "zero = None \<Longrightarrow> ns = k"
  shows "sync_for zero n ns = Some k"
  using assms by (cases zero) (auto simp: syncs_from_def)

lemma syncs_from_tl: "syncs_from zero (c # cs) k \<Longrightarrow> syncs_from zero cs (Suc k)"
  by (fastforce simp: syncs_from_def split: option.splits)

lemma open_databases_ok:
  "syncs_from zero cfg k \<Longrightarrow> (zero = None \<Longrightarrow> ns = k) \<Longrightarrow>
    open_databases api zero cfg s ns = (Ok ds, s', ns') \<Longrightarrow> entries_ok k cfg ds"
proof (induction api zero cfg s ns arbitrary: k ds s' ns' rule: open_databases.induct)
  case (2 api zero n d cs s ns)
  have sy: "sync_for zero n ns = Some k"
    by (rule syncs_from_hd [OF "2.prems"(1,2)])
  from "2.prems"(3) obtain db s1 ns1 rest where
    od: "open_database api zero n d s ns = (Ok db, s1, ns1)"
    and rest: "open_databases api zero cs s1 ns1 = (Ok rest, s', ns')" and ds: "ds = (n, db) # rest"
    by (auto split: prod.splits outcome.splits)
  from open_database_ok [OF od] sy have "entry_ok (n, d) k (n, db)"
    and ns1: "zero = None \<Longrightarrow> ns1 = Suc k" using "2.prems"(2) by auto
  moreover from "2.IH" [OF od [symmetric] _ _ syncs_from_tl [OF "2.prems"(1)] ns1 rest] od
  have "entries_ok (Suc k) cs rest" by simp
  ultimately show ?case by (simp add: ds)
qed simp

lemma open_databases_throws:
  "syncs_from zero cfg k \<Longrightarrow> (zero = None \<Longrightarrow> ns = k) \<Longrightarrow>
    fst (open_databases api zero cfg s ns) = Throw e \<Longrightarrow> \<exists>m. e = Sqlite_error m"
proof (induction api zero cfg s ns arbitrary: k rule: open_databases.induct)
  case (2 api zero n d cs s ns)
  have sy: "sync_for zero n ns = Some k"
    by (rule syncs_from_hd [OF "2.prems"(1,2)])
  obtain r s1 ns1 where od: "open_database api zero n d s ns = (r, s1, ns1)" by (metis prod_cases3)
  show ?case
  proof (cases r)
    case (Ok db)
    have ns1: "zero = None \<Longrightarrow> ns1 = Suc k"
      using open_database_ok [of api zero n d s ns db s1 ns1] od Ok "2.prems"(2) by simp
    have "fst (open_databases api zero cs s1 ns1) = Throw e"
      using "2.prems"(3) od Ok by (auto split: prod.splits outcome.splits)
    with "2.IH" [of r "(s1, ns1)" db s1 ns1, OF od [symmetric] Ok refl syncs_from_tl [OF "2.prems"(1)] ns1]
    show ?thesis by blast
  qed (use "2.prems"(3) od sy open_database_throws [of api zero n d s ns e] in \<open>auto\<close>)
qed simp

lemma syncs_from_zero:
  assumes "distinct (map fst cfg)" and "entries_ok 0 cfg z"
  shows "syncs_from (Some z) cfg 0"
proof -
  have "map_option dd_sync (map_of z (fst (cfg ! i))) = Some i" if i: "i < length cfg" for i
  proof -
    have z: "i < length z" "entry_ok (cfg ! i) i (z ! i)"
      using entries_ok_nth [OF assms(2)] i by auto
    then have "(fst (cfg ! i), snd (z ! i)) \<in> set z"
      by (metis entry_ok_def nth_mem prod.collapse)
    then have "map_of z (fst (cfg ! i)) = Some (snd (z ! i))"
      using assms entries_ok_names [OF assms(2)] by simp
    with z(2) show ?thesis by (simp add: entry_ok_def)
  qed
  then show ?thesis by (simp add: syncs_from_def)
qed

definition first_of :: "databases \<Rightarrow> (string \<times> db_def) list option" where
  "first_of dbs = (case dbs of [] \<Rightarrow> None | z # _ \<Rightarrow> Some z)"

lemma first_of_syncs:
  "distinct (map fst cfg) \<Longrightarrow> list_all (entries_ok 0 cfg) dbs \<Longrightarrow> syncs_from (first_of dbs) cfg 0"
  by (cases dbs) (auto simp: first_of_def syncs_from_zero, simp add: syncs_from_def)

lemma first_of_None: "first_of dbs = None \<longleftrightarrow> dbs = []"
  by (simp add: first_of_def split: list.split)

lemma open_threads_ok:
  "distinct (map fst cfg) \<Longrightarrow> list_all (entries_ok 0 cfg) dbs \<Longrightarrow> (dbs = [] \<Longrightarrow> ns = 0) \<Longrightarrow>
    open_threads api cfg n dbs s ns = (Ok dbs', s') \<Longrightarrow>
    length dbs' = length dbs + n \<and> list_all (entries_ok 0 cfg) dbs'"
proof (induction n arbitrary: dbs s ns)
  case (Suc n)
  from Suc.prems(4) obtain d s1 ns1 where
    od: "open_databases api (first_of dbs) cfg s ns = (Ok d, s1, ns1)" and
    rest: "open_threads api cfg n (dbs @ [d]) s1 ns1 = (Ok dbs', s')"
    by (auto simp: first_of_def split: prod.splits outcome.splits)
  have "entries_ok 0 cfg d"
    using open_databases_ok [OF first_of_syncs [OF Suc.prems(1,2)] _ od] Suc.prems(3)
    by (simp add: first_of_None)
  with Suc.IH [OF Suc.prems(1) _ _ rest] Suc.prems(2) show ?case by simp
qed simp

lemma open_threads_throws:
  "distinct (map fst cfg) \<Longrightarrow> list_all (entries_ok 0 cfg) dbs \<Longrightarrow> (dbs = [] \<Longrightarrow> ns = 0) \<Longrightarrow>
    fst (open_threads api cfg n dbs s ns) = Throw e \<Longrightarrow> \<exists>m. e = Sqlite_error m"
proof (induction n arbitrary: dbs s ns)
  case (Suc n)
  obtain r s1 ns1 where od: "open_databases api (first_of dbs) cfg s ns = (r, s1, ns1)"
    by (metis prod_cases3)
  note sy = first_of_syncs [OF Suc.prems(1,2)]
  have ns: "first_of dbs = None \<Longrightarrow> ns = 0" using Suc.prems(3) by (simp add: first_of_None)
  show ?case
  proof (cases r)
    case (Ok d)
    with open_databases_ok [OF sy ns, of api s d s1 ns1] od have "entries_ok 0 cfg d" by simp
    with Suc.IH [of "dbs @ [d]" ns1 s1] Suc.prems od Ok show ?thesis
      by (simp add: first_of_def [symmetric])
  next
    case (Throw e')
    with Suc.prems(4) od have "e' = e" by (simp add: first_of_def [symmetric])
    with open_databases_throws [OF sy ns, of api s e'] od Throw show ?thesis by simp
  next
    case Abort
    with Suc.prems(4) od show ?thesis by (simp add: first_of_def [symmetric])
  qed
qed simp

lemma db_server_run_ok:
  assumes "distinct (map fst cfg)" and "db_server_run api (Some cfg) workers s = (Ok (True, dbs), s')"
  shows "length dbs = workers \<and> list_all (entries_ok 0 cfg) dbs"
proof -
  from assms(2) have "open_threads api cfg workers [] s 0 = (Ok dbs, s')"
    by (auto simp: db_server_run_def split: prod.splits outcome.splits exn.splits)
  from open_threads_ok [OF assms(1) _ _ this] show ?thesis by simp
qed

lemma retry_wait_of_bounds: "0 \<le> retry_wait_of d \<and> retry_wait_of d \<le> max_retry_wait"
  using time_value_bounds [of "sd_retry_wait d"]
  by (auto simp: retry_wait_of_def max_retry_wait_def split: option.split)

lemma sum_list_paused: "sum_list (paused db j) = int j * dd_retry_wait db"
  by (simp add: paused_def sum_list_replicate)

lemma execute_query_session:
  assumes "session api q (column_count api q (w_sq w)) n (w_sq w) rows s'"
    and "n \<le> unat r" and "length rows + n < fuel"
  shows "execute_query api db q fuel r w =
    Some ((Ok (), rows), signal_finished db ((retry_pause db ^^ n) (w\<lparr>w_sq := s'\<rparr>)))"
  using loop_session [OF assms(1,2,3), of db "[]" w] by (simp add: execute_query_def)

lemma execute_query_stuck:
  assumes "stuck api q (column_count api q (w_sq w)) (unat r) k (w_sq w) s'" and "k + unat r < fuel"
  shows "\<exists>rows. execute_query api db q fuel r w =
    Some ((Throw (query_error api q s'), rows), signal_finished db ((retry_pause db ^^ unat r) (w\<lparr>w_sq := s'\<rparr>)))"
  using loop_stuck [OF assms(1) refl assms(2), of db "[]" w] by (auto simp: execute_query_def)

text \<open>The SQLite argument that an argument of a request becomes.\<close>

fun arg_of :: "Value \<Rightarrow> bind_arg" where
  "arg_of V_not_set = B_null"
| "arg_of V_null = B_null"
| "arg_of (V_int64 n) = B_int64 n"
| "arg_of (V_double d) = B_double d"
| "arg_of (V_text t) = B_text t (to_int32 (int (length t)))"
| "arg_of (V_blob b) = B_blob b (to_int32 (int (length b)))"

lemma db_bind_eq: "db_bind api q i v s = bind_arg_at api q i (arg_of v) s"
  by (cases v) (simp_all add: db_bind_def bind_null_def bind_int64_def bind_double_def bind_text_def bind_blob_def)

text \<open>A sequence of calls of SQLite's bind functions, up to the first that fails.\<close>

fun binds :: "'s sqlite_api \<Rightarrow> nat \<Rightarrow> (int \<times> bind_arg) list \<Rightarrow> 's \<Rightarrow> bool \<times> 's" where
  "binds api h [] s = (True, s)"
| "binds api h ((i, a) # as) s =
     (case sq_bind api h i a s of (c, s') \<Rightarrow> if c = SQLITE_OK then binds api h as s' else (False, s'))"

lemma bind_args_binds:
  "(case bind_args api q i vs s of (r, s') \<Rightarrow> (r = Ok (), s')) =
    binds api (qy_stmt q) (zip (map (\<lambda>k. i + int k + 1) [0..<length vs]) (map arg_of vs)) s"
proof (induction vs arbitrary: i s)
  case (Cons v vs)
  have sh: "map (\<lambda>k. i + int k + 1) [0..<Suc (length vs)] =
      (i + 1) # map (\<lambda>k. (i + 1) + int k + 1) [0..<length vs]"
    by (simp add: upt_conv_Cons map_Suc_upt [symmetric] del: upt_Suc)
  show ?case
    using Cons [of "i + 1"] unfolding length_Cons sh
    by (simp add: db_bind_eq bind_arg_at_def split: prod.split)
qed simp

text \<open>A scripted SQLite for the witnesses: its state is the list of step results to come.\<close>

definition scripted :: "int list sqlite_api" where
  "scripted = \<lparr>sq_open_v2 = (\<lambda>f fl s. ((0, Some 1), s)), sq_exec = (\<lambda>h q s. (0, s)),
     sq_close_v2 = (\<lambda>h s. (0, s)), sq_errmsg = (\<lambda>h s. ''database is locked''), sq_interrupt = (\<lambda>h s. s),
     sq_prepare_v3 = (\<lambda>h q n s. ((0, Some 7), s)), sq_finalize = (\<lambda>h s. s),
     sq_bind = (\<lambda>h i a s. (0, s)), sq_column_count = (\<lambda>h s. 1), sq_column_type = (\<lambda>h i s. 1),
     sq_column_int64 = (\<lambda>h i s. int (length s)), sq_column_double = (\<lambda>h i s. 0),
     sq_column_text = (\<lambda>h i s. []), sq_column_blob = (\<lambda>h i s. []), sq_column_bytes = (\<lambda>h i s. 0),
     sq_step = (\<lambda>h s. case s of [] \<Rightarrow> (101, []) | c # cs \<Rightarrow> (c, cs)), sq_reset = (\<lambda>h s. s),
     sq_clear_bindings = (\<lambda>h s. (0, s))\<rparr>"

definition demo_conn :: connection where
  "demo_conn = \<lparr>cn_file = ''f'', cn_db = 1\<rparr>"

definition demo_query :: query where
  "demo_query = \<lparr>qy_db = demo_conn, qy_sql = ''select 1'', qy_sql_id = ''q'', qy_stmt = 7\<rparr>"

definition demo_db :: db_def where
  "demo_db = \<lparr>dd_db = demo_conn, dd_queries = [(''q'', demo_query)], dd_retries = 1,
     dd_retry_wait = 5, dd_sync = 0\<rparr>"

definition demo_world :: "int list \<Rightarrow> int list db_world" where
  "demo_world script = \<lparr>w_sq = script, w_finished = (\<lambda>_. False), w_waits = []\<rparr>"

definition demo_request :: DbRequest where
  "demo_request = \<lparr>rq_db = ''d'', rq_query = ''q'', rq_args = [V_int64 3], rq_retry_if_locked = True\<rparr>"

definition demo_cfg :: SQLite3 where
  "demo_cfg = [(''d'', \<lparr>sd_file = ''f'', sd_queries = [(''q'', ''select 1'')], sd_retries = 1,
     sd_retry_wait = F_fin 1 10\<rparr>)]"

lemmas demo_defs = scripted_def demo_conn_def demo_query_def demo_db_def demo_world_def demo_request_def

lemma demo_run:
  "\<exists>dbs s' res w'. db_server_run scripted (Some demo_cfg) 2 [] = (Ok (True, dbs), s') \<and>
      run_query scripted dbs 1 1 demo_request (demo_world [1]) = Some (res, w')"
  by (simp add: db_server_run_def demo_cfg_def numeral_2_eq_2 open_database_def connection_ctor_def
      query_ctor_def scripted_def run_query_def demo_defs bind_and_execute_def query_start_def db_bind_eq
      bind_arg_at_def execute_query_def column_count_def next_row_def signed_modulo_int_def
      signed_divide_int_def finish_query_def)

section \<open>Properties\<close>

text \<open>
  C2: a query that SQLite completes is answered completely. If the request names a known
  database and query, the arguments bind, and SQLite finishes the statement after \<open>n\<close> locked
  attempts with at most the configured number of retries, then \<open>run_query\<close> returns (some
  bounded number of loop rounds suffices) with \<open>ok\<close>, all rows in order, one pause per
  retry, and the other threads are signalled.
\<close>

theorem run_query_complete:
  assumes "tid < length dbs" and "map_of (dbs ! tid) (rq_db rq) = Some db"
    and "map_of (dd_queries db) (rq_query rq) = Some q"
    and "query_start api q False (w_sq w) = (Ok (), s1)"
    and "bind_args api q 0 (rq_args rq) s1 = (Ok (), s2)"
    and "session api q (column_count api q s2) n s2 rows s'"
    and "n \<le> unat (if rq_retry_if_locked rq then dd_retries db else 0)"
    and "length rows + n < fuel"
  shows "run_query api dbs fuel tid rq w =
    Some (Ok \<lparr>rp_ok = True, rp_msg = ''ok'', rp_rows = rows\<rparr>,
      signal_finished db ((retry_pause db ^^ n) (w\<lparr>w_sq := s'\<rparr>)))"
  using assms execute_query_session
    [of api q "w\<lparr>w_sq := s2\<rparr>" n rows s' "if rq_retry_if_locked rq then dd_retries db else 0" fuel db]
  by (simp add: run_query_def bind_and_execute_def finish_query_def)

theorem run_query_complete_witness:
  "run_query scripted [[(''d'', demo_db)]] 4 0 demo_request (demo_world [5, 100, 101]) =
    Some (Ok \<lparr>rp_ok = True, rp_msg = ''ok'', rp_rows = [[V_int64 1]]\<rparr>,
      signal_finished demo_db (retry_pause demo_db (demo_world [])))"
proof -
  have y: "yields scripted demo_query 1 [100, 101] [[V_int64 1]] []"
    using yields_row [of scripted demo_query "[100, 101]" 100 "[101]" 1 "[]" "[]"]
      yields_done [of scripted demo_query "[101]" 101 "[]" 1]
    by (simp add: scripted_def fetch_row_def get_column_def signed_modulo_int_def signed_divide_int_def)
  have "blocked scripted demo_query 1 [5, 100, 101] [] [100, 101]"
    by (rule blocked_now [of _ _ _ 5]) (simp_all add: scripted_def signed_modulo_int_def signed_divide_int_def)
  from session_retry [OF this, of 0 "[[V_int64 1]]" "[]"] session_last [OF y]
  have "session scripted demo_query 1 1 [5, 100, 101] [[V_int64 1]] []" by (simp add: scripted_def)
  then show ?thesis
    using run_query_complete [of 0 "[[(''d'', demo_db)]]" demo_request demo_db demo_query scripted
        "demo_world [5, 100, 101]" "[5, 100, 101]" "[5, 100, 101]" 1 "[[V_int64 1]]" "[]" 4]
    by (simp add: demo_defs query_start_def db_bind_eq bind_arg_at_def column_count_def)
qed

text \<open>
  C10: a database that stays locked. If every attempt is blocked, \<open>run_query\<close> gives up after
  exactly the allowed number of retries and answers with SQLite's error and no rows; it does
  not loop for ever.
\<close>

theorem run_query_stuck:
  assumes "tid < length dbs" and "map_of (dbs ! tid) (rq_db rq) = Some db"
    and "map_of (dd_queries db) (rq_query rq) = Some q"
    and "query_start api q False (w_sq w) = (Ok (), s1)"
    and "bind_args api q 0 (rq_args rq) s1 = (Ok (), s2)"
    and "r = (if rq_retry_if_locked rq then dd_retries db else 0)"
    and "stuck api q (column_count api q s2) (unat r) k s2 s'"
    and "k + unat r < fuel"
  shows "\<exists>m. query_error api q s' = Sqlite_error m \<and>
    run_query api dbs fuel tid rq w =
      Some (Ok (response_error m), signal_finished db ((retry_pause db ^^ unat r) (w\<lparr>w_sq := s'\<rparr>)))"
proof -
  obtain m where m: "query_error api q s' = Sqlite_error m"
    by (simp add: query_error_def error_query_def)
  from execute_query_stuck [of api q "w\<lparr>w_sq := s2\<rparr>" r k s' fuel db] assms(7,8)
  obtain rows where "execute_query api db q fuel r (w\<lparr>w_sq := s2\<rparr>) =
      Some ((Throw (Sqlite_error m), rows), signal_finished db ((retry_pause db ^^ unat r) (w\<lparr>w_sq := s'\<rparr>)))"
    by (auto simp: m)
  with assms(1-6) m show ?thesis
    by (simp add: run_query_def bind_and_execute_def finish_query_def)
qed

theorem run_query_stuck_witness:
  "\<exists>m. query_error scripted demo_query [] = Sqlite_error m \<and>
    run_query scripted [[(''d'', demo_db)]] 4 0 demo_request (demo_world [5, 517]) =
      Some (Ok (response_error m), signal_finished demo_db (retry_pause demo_db (demo_world [])))"
proof -
  have b: "blocked scripted demo_query 1 [517] [] []"
    by (rule blocked_now [of _ _ _ 517]) (simp_all add: scripted_def signed_modulo_int_def signed_divide_int_def)
  have "blocked scripted demo_query 1 [5, 517] [] [517]"
    by (rule blocked_now [of _ _ _ 5]) (simp_all add: scripted_def signed_modulo_int_def signed_divide_int_def)
  from stuck_retry [OF this, of 0 0 "[]"] stuck_last [OF b]
  have "stuck scripted demo_query 1 (Suc 0) 0 [5, 517] []" by (simp add: scripted_def)
  then show ?thesis
    using run_query_stuck [of 0 "[[(''d'', demo_db)]]" demo_request demo_db demo_query scripted
        "demo_world [5, 517]" "[5, 517]" "[5, 517]" 1 0 "[]" 4]
    by (simp add: demo_defs query_start_def db_bind_eq bind_arg_at_def column_count_def)
qed





text \<open>
  Arguments are bound in order. Binding succeeds exactly when SQLite accepts every
  argument, the argument at position \<open>i\<close> (from 0) bound to parameter \<open>i + 1\<close> with the type
  of its value, an unset value as null; nothing is bound after the first refusal.
\<close>

lemma bind_args_in_order:
  "(case bind_args api q 0 vs s of (r, s') \<Rightarrow> (r = Ok (), s')) =
    binds api (qy_stmt q) (zip (map (\<lambda>k. int k + 1) [0..<length vs]) (map arg_of vs)) s"
  using bind_args_binds [of api q 0 vs s] by simp

text \<open>
  C24: the time a request can spend waiting for locks is bounded. On a server whose databases
  were opened by \<open>db_server::run\<close>, one request pauses for at most one minute per
  configured retry in total, and not at all for an unknown database.
\<close>

theorem query_wait_bounded:
  assumes "distinct (map fst cfg)"
    and "db_server_run api (Some cfg) workers s = (Ok (True, dbs), s')"
    and "tid < workers" and "run_query api dbs fuel tid rq w = Some (res, w')"
  shows "\<exists>ws. w_waits w' = w_waits w @ ws \<and>
    sum_list ws \<le> (case map_of cfg (rq_db rq) of None \<Rightarrow> 0 | Some d \<Rightarrow> uint (sd_retries d) * max_retry_wait)"
proof -
  from db_server_run_ok [OF assms(1,2)] assms(3)
  have t: "tid < length dbs" and e: "entries_ok 0 cfg (dbs ! tid)" by (auto simp: list_all_length)
  from run_query_outcome [OF t assms(4)] obtain ws where ws: "w_waits w' = w_waits w @ ws"
    and c: "case map_of (dbs ! tid) (rq_db rq) of None \<Rightarrow> ws = []
       | Some db \<Rightarrow> \<exists>j \<le> unat (dd_retries db). ws = paused db j" by blast
  show ?thesis
  proof (cases "map_of (dbs ! tid) (rq_db rq)")
    case None
    then have "map_of cfg (rq_db rq) = None"
      using entries_ok_names [OF e] by (metis map_of_eq_None_iff set_map)
    with None c ws show ?thesis by simp
  next
    case (Some db)
    from Some c obtain j where j: "j \<le> unat (dd_retries db)" "ws = paused db j" by auto
    from map_of_SomeD [OF Some] obtain i where i: "i < length (dbs ! tid)" "dbs ! tid ! i = (rq_db rq, db)"
      by (auto simp: in_set_conv_nth)
    from entries_ok_nth [OF e] i have ok: "entry_ok (cfg ! i) i (rq_db rq, db)" "i < length cfg" by auto
    then have "map_of cfg (rq_db rq) = Some (snd (cfg ! i))"
      using assms(1) by (auto simp: entry_ok_def intro!: map_of_is_SomeI)
    moreover have "sum_list ws \<le> uint (dd_retries db) * max_retry_wait"
    proof -
      have "dd_retry_wait db = retry_wait_of (snd (cfg ! i))" using ok(1) by (simp add: entry_ok_def)
      then have "0 \<le> dd_retry_wait db" "dd_retry_wait db \<le> max_retry_wait"
        using retry_wait_of_bounds [of "snd (cfg ! i)"] by simp_all
      then have "int j * dd_retry_wait db \<le> int (unat (dd_retries db)) * max_retry_wait"
        using j(1) by (intro mult_mono) (simp_all only: of_nat_le_iff of_nat_0_le_iff)
      then show ?thesis unfolding j(2) sum_list_paused uint_nat .
    qed
    ultimately show ?thesis using ws ok(1) by (auto simp: entry_ok_def)
  qed
qed

theorem query_wait_bounded_witness:
  "\<exists>dbs s' res w' ws. db_server_run scripted (Some demo_cfg) 2 [] = (Ok (True, dbs), s') \<and>
     run_query scripted dbs 1 1 demo_request (demo_world [1]) = Some (res, w') \<and>
     w_waits w' = ws \<and> sum_list ws \<le> max_retry_wait"
proof -
  obtain dbs s' res w' where r: "db_server_run scripted (Some demo_cfg) 2 [] = (Ok (True, dbs), s')"
      "run_query scripted dbs 1 1 demo_request (demo_world [1]) = Some (res, w')"
    using demo_run by blast
  have "distinct (map fst demo_cfg)" by (simp add: demo_cfg_def)
  from query_wait_bounded [OF this r(1) _ r(2)] r show ?thesis
    by (auto simp: demo_cfg_def demo_request_def demo_world_def)
qed

text \<open>
  Rows of an interrupted attempt are kept. When a lock interrupts a statement that has
  already delivered rows, the restarted statement delivers its result from the beginning,
  but the response still holds the rows of the first attempt in front of it.
\<close>

lemma retry_keeps_partial_rows:
  assumes "blocked api q (column_count api q (w_sq w)) (w_sq w) ps s1"
    and "yields api q (column_count api q (w_sq w)) (sq_reset api (qy_stmt q) s1) rows s'"
    and "0 < r" and "length ps + length rows + 1 < fuel"
  shows "map_option fst (execute_query api db q fuel r w) = Some (Ok (), ps @ rows)"
proof -
  have "session api q (column_count api q (w_sq w)) (Suc 0) (w_sq w) (ps @ rows) s'"
    by (rule session_retry [OF assms(1) session_last [OF assms(2)]])
  from execute_query_session [OF this, of r fuel db] unat_pos [OF assms(3)] assms(4) show ?thesis by simp
qed

theorem retry_keeps_partial_rows_witness:
  "map_option fst (execute_query scripted demo_db demo_query 5 1 (demo_world [100, 5, 100, 101])) =
    Some (Ok (), [[V_int64 3], [V_int64 1]])"
proof -
  have y: "yields scripted demo_query 1 [100, 101] [[V_int64 1]] []"
    using yields_row [of scripted demo_query "[100, 101]" 100 "[101]" 1 "[]" "[]"]
      yields_done [of scripted demo_query "[101]" 101 "[]" 1]
    by (simp add: scripted_def fetch_row_def get_column_def signed_modulo_int_def signed_divide_int_def)
  have "blocked scripted demo_query 1 [5, 100, 101] [] [100, 101]"
    by (rule blocked_now [of _ _ _ 5]) (simp_all add: scripted_def signed_modulo_int_def signed_divide_int_def)
  then have "blocked scripted demo_query 1 [100, 5, 100, 101] [[V_int64 3]] [100, 101]"
    using blocked_row [of scripted demo_query "[100, 5, 100, 101]" 100 "[5, 100, 101]" 1 "[]" "[100, 101]"]
    by (simp add: scripted_def fetch_row_def get_column_def signed_modulo_int_def signed_divide_int_def)
  with y show ?thesis
    using retry_keeps_partial_rows [of scripted demo_query "demo_world [100, 5, 100, 101]"
        "[[V_int64 3]]" "[100, 101]" "[[V_int64 1]]" "[]" 1 5 demo_db]
    by (simp add: column_count_def scripted_def demo_world_def)
qed

end
