(* ===== verification/Http_Handler.thy ===== *)
theory Http_Handler
  imports Db_Server
begin

text \<open>
  The request handlers: \<open>http_handler\<close> of \<^verbatim>\<open>src/http_server.cpp\<close> with its templates in
  \<^verbatim>\<open>src/http_server_impl.hpp\<close>, and the three handlers \<^verbatim>\<open>src/http_hnd_echo.cpp\<close>,
  \<^verbatim>\<open>src/http_hnd_stat.cpp\<close> and \<^verbatim>\<open>src/http_hnd_db.cpp\<close>. A Beast message is a record of what its
  accessors give. Boost.Beast and protobuf are parameters: case-insensitive comparison and
  payload preparation (\<open>beast\<close>), parsing and printing of a message type (\<open>decoder\<close>,
  \<open>encoder\<close>).
\<close>

section \<open>Messages\<close>

datatype field = Fd_expect | Fd_accept | Fd_content_type | Fd_server

datatype verb = V_head | V_other string

record http_request =
  req_method :: verb
  req_target :: string
  req_fields :: "field \<Rightarrow> string option"
  req_body :: string
  req_keep_alive :: bool

record http_response =
  res_status :: nat
  res_version :: nat
  res_fields :: "field \<Rightarrow> string option"
  res_body :: string
  res_keep_alive :: bool
  res_content_length :: "nat option"

text \<open>\<open>request[f]\<close> is empty for a missing field.\<close>

definition req_field :: "http_request \<Rightarrow> field \<Rightarrow> string" where
  "req_field r f = (case req_fields r f of None \<Rightarrow> [] | Some v \<Rightarrow> v)"

definition mk_response :: "nat \<Rightarrow> nat \<Rightarrow> http_response" where
  "mk_response status version =
     \<lparr>res_status = status, res_version = version, res_fields = (\<lambda>_. None), res_body = [],
      res_keep_alive = True, res_content_length = None\<rparr>"

definition set_field :: "field \<Rightarrow> string \<Rightarrow> http_response \<Rightarrow> http_response" where
  "set_field f v r = r\<lparr>res_fields := (res_fields r)(f := Some v)\<rparr>"

abbreviation (input) status_continue :: nat where "status_continue \<equiv> 100"
abbreviation (input) status_ok :: nat where "status_ok \<equiv> 200"
abbreviation (input) status_bad_request :: nat where "status_bad_request \<equiv> 400"
abbreviation (input) status_not_acceptable :: nat where "status_not_acceptable \<equiv> 406"
abbreviation (input) status_payload_too_large :: nat where "status_payload_too_large \<equiv> 413"
abbreviation (input) status_unsupported_media_type :: nat where "status_unsupported_media_type \<equiv> 415"

record beast =
  bt_iequals :: "string \<Rightarrow> string \<Rightarrow> bool"
  bt_prepare_payload :: "http_response \<Rightarrow> http_response"

text \<open>
  \<open>de_json\<close> gives a status code and text on failure. The printers get the present body and
  give the body they leave behind, with a status for JSON and success for protobuf.
\<close>

record 'm decoder =
  de_json :: "string \<Rightarrow> (int \<times> string) + 'm"
  de_proto :: "string \<Rightarrow> 'm option"

record 'm encoder =
  en_json :: "'m \<Rightarrow> string \<Rightarrow> string \<times> (int \<times> string) option"
  en_proto :: "'m \<Rightarrow> string \<Rightarrow> string \<times> bool"

section \<open>The common base of handlers\<close>

definition content_type_json :: "string list" where
  "content_type_json = [''application/json'']"

definition content_type_protobuf :: "string list" where
  "content_type_protobuf =
     [''application/protobuf'', ''application/x-protobuf'', ''application/vnd.google.protobuf'']"

definition error_response :: "nat \<Rightarrow> string \<Rightarrow> http_response" where
  "error_response status msg =
     (set_field Fd_content_type ''text/plain'' (mk_response status 11))\<lparr>res_body := msg @ [CHR 0x0A]\<rparr>"

definition base_handle_sync :: http_response where
  "base_handle_sync = mk_response status_ok 11"

definition json_body :: "beast \<Rightarrow> http_request \<Rightarrow> bool \<Rightarrow> bool \<times> string" where
  "json_body bt request is_req =
     (let ct = (if is_req then [] else
                  let a = req_field request Fd_accept in if a = ''*'' \<or> a = ''*/*'' then [] else a);
          ct = (if ct = [] then req_field request Fd_content_type else ct)
      in (list_ex (\<lambda>v. bt_iequals bt ct v) content_type_json, ct))"

definition protobuf_body :: "beast \<Rightarrow> http_request \<Rightarrow> bool \<Rightarrow> bool \<times> string" where
  "protobuf_body bt request is_req =
     (let ct = (if is_req then [] else req_field request Fd_accept);
          ct = (if ct = [] then req_field request Fd_content_type else ct)
      in (list_ex (\<lambda>v. bt_iequals bt ct v) content_type_protobuf, ct))"

definition parse :: "beast \<Rightarrow> 'm decoder \<Rightarrow> http_request \<Rightarrow> 'm option \<times> http_response" where
  "parse bt de request =
     (if fst (json_body bt request True) then
        (case de_json de (req_body request) of
           Inl (code, text) \<Rightarrow>
             (None, error_response status_bad_request
                (''Cannot parse JSON request: ('' @ dec_int code @ '') '' @ text))
         | Inr parsed \<Rightarrow> (Some parsed, base_handle_sync))
      else if fst (protobuf_body bt request True) then
        (case de_proto de (req_body request) of
           None \<Rightarrow> (None, error_response status_bad_request ''Cannot parse protobuf request'')
         | Some parsed \<Rightarrow> (Some parsed, base_handle_sync))
      else (None, error_response status_unsupported_media_type ''Unsupported Content-Type''))"

text \<open>
  On a failing printer the code builds an error response and drops it, so the caller's
  response keeps its status and whatever body the printer left.
\<close>

definition serialize ::
    "beast \<Rightarrow> 'm encoder \<Rightarrow> http_request \<Rightarrow> 'm \<Rightarrow> http_response \<Rightarrow> bool \<times> http_response" where
  "serialize bt en request data response =
     (if fst (json_body bt request False) then
        (case en_json en data (res_body response) of
           (body, Some st) \<Rightarrow> (False, response\<lparr>res_body := body\<rparr>)
         | (body, None) \<Rightarrow> (True, response\<lparr>res_body := body\<rparr>))
      else if fst (protobuf_body bt request False) then
        (case en_proto en data (res_body response) of
           (body, False) \<Rightarrow> (False, response\<lparr>res_body := body\<rparr>)
         | (body, True) \<Rightarrow> (True, response\<lparr>res_body := body\<rparr>))
      else (False, error_response status_not_acceptable
              ''Unsupported Content-Type requested by client for response''))"

section \<open>The echo handler\<close>

definition echo_handle_sync :: "http_request \<Rightarrow> http_response" where
  "echo_handle_sync request =
     (case req_fields request Fd_content_type of
        Some ct \<Rightarrow> set_field Fd_content_type ct base_handle_sync
      | None \<Rightarrow> set_field Fd_content_type ''application/octet-stream'' base_handle_sync)
     \<lparr>res_body := req_body request\<rparr>"

section \<open>The statistics handler\<close>

record stat_data =
  st_connections :: u64
  st_requests :: u64
  st_data_req :: u64
  st_data_resp :: u64

definition stat_init :: stat_data where
  "stat_init = \<lparr>st_connections = 0, st_requests = 0, st_data_req = 0, st_data_resp = 0\<rparr>"

text \<open>The request holds the flag \<open>reset\<close>; the response message is the record of counters.\<close>

definition stat_handle_sync ::
    "beast \<Rightarrow> bool decoder \<Rightarrow> stat_data encoder \<Rightarrow> http_request \<Rightarrow> stat_data \<Rightarrow> http_response \<times> stat_data" where
  "stat_handle_sync bt de en request data =
     (case parse bt de request of
        (None, response) \<Rightarrow> (response, data)
      | (Some reset, response) \<Rightarrow>
          let out = data;
              data = (if reset then stat_init else data)
          in (snd (serialize bt en request out response), data))"

section \<open>The database handler\<close>

text \<open>
  The coroutine up to the suspension at the database query: either it answers at once, or it
  posts a request and keeps the prepared response; and what it does when resumed.
\<close>

definition db_handle_begin ::
    "beast \<Rightarrow> DbRequest decoder \<Rightarrow> http_request \<Rightarrow> http_response + (DbRequest \<times> http_response)" where
  "db_handle_begin bt de request =
     (case parse bt de request of
        (None, response) \<Rightarrow> Inl response
      | (Some rq, response) \<Rightarrow> Inr (rq, response))"

definition db_handle_end ::
    "beast \<Rightarrow> DbResponse encoder \<Rightarrow> http_request \<Rightarrow> http_response \<Rightarrow> DbResponse \<Rightarrow> http_response" where
  "db_handle_end bt en request response out = snd (serialize bt en request out response)"

section \<open>Counters under interleaving\<close>

text \<open>
  Every access to a counter is one atomic operation. A reset of the statistics is four
  exchanges, a plain query four loads, and the connections add in between.
\<close>

datatype counter = Ct_connections | Ct_requests | Ct_data_req | Ct_data_resp

datatype stat_event = Ev_add counter u64 | Ev_exchange counter | Ev_load counter

fun ct_get :: "counter \<Rightarrow> stat_data \<Rightarrow> u64" where
  "ct_get Ct_connections d = st_connections d"
| "ct_get Ct_requests d = st_requests d"
| "ct_get Ct_data_req d = st_data_req d"
| "ct_get Ct_data_resp d = st_data_resp d"

fun ct_put :: "counter \<Rightarrow> u64 \<Rightarrow> stat_data \<Rightarrow> stat_data" where
  "ct_put Ct_connections v d = d\<lparr>st_connections := v\<rparr>"
| "ct_put Ct_requests v d = d\<lparr>st_requests := v\<rparr>"
| "ct_put Ct_data_req v d = d\<lparr>st_data_req := v\<rparr>"
| "ct_put Ct_data_resp v d = d\<lparr>st_data_resp := v\<rparr>"

fun stat_step :: "stat_event \<Rightarrow> stat_data \<Rightarrow> stat_data" where
  "stat_step (Ev_add c n) d = ct_put c (ct_get c d + n) d"
| "stat_step (Ev_exchange c) d = ct_put c 0 d"
| "stat_step (Ev_load c) d = d"

fun stat_added :: "counter \<Rightarrow> stat_event \<Rightarrow> u64" where
  "stat_added c (Ev_add c' n) = (if c = c' then n else 0)"
| "stat_added c _ = 0"

fun stat_taken :: "counter \<Rightarrow> stat_event \<Rightarrow> stat_data \<Rightarrow> u64" where
  "stat_taken c (Ev_exchange c') d = (if c = c' then ct_get c d else 0)"
| "stat_taken c _ d = 0"

lemma ct_get_put: "ct_get c (ct_put c' v d) = (if c = c' then v else ct_get c d)"
  by (cases c; cases c') simp_all

interpretation stat_counter: atomic_counter "ct_get c" stat_step "stat_added c" "stat_taken c" for c
proof
  fix e d
  show "ct_get c (stat_step e d) + stat_taken c e d = ct_get c d + stat_added c e"
    by (cases e) (simp_all add: ct_get_put)
qed

section \<open>The contract of a handler\<close>

text \<open>
  What the connection loop relies on: a handler answers with version 1.1 and one of the four
  statuses the handlers use, and leaves the server field and the keep-alive semantics to the
  connection loop.
\<close>

locale response_handler =
  fixes handle :: "http_request \<Rightarrow> 'st \<Rightarrow> http_response"
  assumes handle_version: "res_version (handle r st) = 11"
    and handle_status: "res_status (handle r st) \<in> {200, 400, 406, 415}"
    and handle_server: "res_fields (handle r st) Fd_server = None"
    and handle_keep: "res_keep_alive (handle r st)"
begin

lemma handle_not_continue: "res_status (handle r st) \<noteq> 100"
  using handle_status [of r st] by auto

end

definition plain_response :: "http_response \<Rightarrow> bool" where
  "plain_response r \<longleftrightarrow> res_version r = 11 \<and> res_status r \<in> {200, 400, 406, 415} \<and>
     res_fields r Fd_server = None \<and> res_keep_alive r"

lemma plain_error: "s \<in> {400, 406, 415} \<Longrightarrow> plain_response (error_response s m)"
  by (auto simp: plain_response_def error_response_def mk_response_def set_field_def)

lemma plain_base: "plain_response base_handle_sync"
  by (simp add: plain_response_def base_handle_sync_def mk_response_def)

lemma plain_body: "plain_response (r\<lparr>res_body := b\<rparr>) = plain_response r"
  by (simp add: plain_response_def)

lemma plain_parse: "plain_response (snd (parse bt de r))"
  by (auto simp: parse_def plain_error plain_base split: sum.split option.split)

lemma plain_serialize: "plain_response r \<Longrightarrow> plain_response (snd (serialize bt en rq d r))"
  by (auto simp: serialize_def plain_error plain_body split: prod.split bool.split option.split)

lemma plain_echo: "plain_response (echo_handle_sync r)"
  by (auto simp: echo_handle_sync_def plain_response_def base_handle_sync_def mk_response_def
      set_field_def split: option.split)

lemma plain_stat: "plain_response (fst (stat_handle_sync bt de en r d))"
  using plain_parse [of bt de r] plain_serialize
  by (auto simp: stat_handle_sync_def Let_def split: prod.split option.split)

lemma plain_db_begin:
  "(case db_handle_begin bt de r of Inl resp \<Rightarrow> plain_response resp | Inr (rq, resp) \<Rightarrow> plain_response resp)"
  using plain_parse [of bt de r] by (auto simp: db_handle_begin_def split: prod.split option.split)

lemma plain_db_end: "plain_response resp \<Longrightarrow> plain_response (db_handle_end bt en r resp out)"
  by (simp add: db_handle_end_def plain_serialize)

interpretation echo_handler: response_handler "\<lambda>r _. echo_handle_sync r"
  using plain_echo by unfold_locales (auto simp: plain_response_def)

interpretation stat_handler: response_handler "\<lambda>r d. fst (stat_handle_sync bt de en r d)" for bt de en
  using plain_stat by unfold_locales (fastforce simp: plain_response_def)+

text \<open>The whole database handler, with the answer of the database server as its state.\<close>

definition db_handle :: "beast \<Rightarrow> DbRequest decoder \<Rightarrow> DbResponse encoder \<Rightarrow> http_request \<Rightarrow>
    (DbRequest \<Rightarrow> DbResponse) \<Rightarrow> http_response" where
  "db_handle bt de en r answer =
     (case db_handle_begin bt de r of
        Inl response \<Rightarrow> response
      | Inr (rq, response) \<Rightarrow> db_handle_end bt en r response (answer rq))"

lemma plain_db: "plain_response (db_handle bt de en r answer)"
  using plain_db_begin [of bt de r] plain_db_end
  by (auto simp: db_handle_def split: sum.splits)

interpretation db_handler: response_handler "db_handle bt de en" for bt de en
  using plain_db by unfold_locales (fastforce simp: plain_response_def)+

definition iequals_ok :: "beast \<Rightarrow> bool" where
  "iequals_ok bt \<longleftrightarrow> (\<forall>a b. bt_iequals bt a b \<longleftrightarrow> same_nocase a b)"

lemma same_nocase_json_protobuf:
  "same_nocase ct ''application/json'' \<Longrightarrow> \<not> list_ex (same_nocase ct) content_type_protobuf"
proof -
  assume "same_nocase ct ''application/json''"
  then have "same_nocase ct = same_nocase ''application/json''"
    unfolding same_nocase_def fun_eq_iff by presburger
  then have "list_ex (same_nocase ct) content_type_protobuf =
      list_ex (same_nocase ''application/json'') content_type_protobuf"
    by (rule arg_cong)
  also have "\<dots> = False" by code_simp
  finally show ?thesis by simp
qed

text \<open>Concrete parameters for the witnesses.\<close>

definition demo_beast :: beast where
  "demo_beast = \<lparr>bt_iequals = same_nocase,
     bt_prepare_payload = (\<lambda>r. r\<lparr>res_content_length := Some (length (res_body r))\<rparr>)\<rparr>"

definition bool_decoder :: "bool decoder" where
  "bool_decoder = \<lparr>de_json = (\<lambda>s. if s = ''{}'' then Inr False else if s = ''r'' then Inr True else Inl (3, ''bad'')),
     de_proto = (\<lambda>s. if s = [] then Some False else None)\<rparr>"

definition stat_encoder :: "stat_data encoder" where
  "stat_encoder = \<lparr>en_json = (\<lambda>d b. (dec (unat (st_requests d)), None)), en_proto = (\<lambda>d b. (''p'', True))\<rparr>"

definition failing_encoder :: "stat_data encoder" where
  "failing_encoder = \<lparr>en_json = (\<lambda>d b. (''{'', Some (13, ''internal''))), en_proto = (\<lambda>d b. ([], False))\<rparr>"

definition demo_http :: "(field \<Rightarrow> string option) \<Rightarrow> string \<Rightarrow> http_request" where
  "demo_http fs body = \<lparr>req_method = V_other ''POST'', req_target = ''/stat'', req_fields = fs,
     req_body = body, req_keep_alive = True\<rparr>"

lemma demo_beast_ok: "iequals_ok demo_beast"
  by (simp add: iequals_ok_def demo_beast_def)

section \<open>Properties\<close>

text \<open>
  Parsing a request body. A message results exactly when the content type names JSON or
  one of the three protobuf types, in any letter case, and the body parses in that format;
  the prepared response then has status 200. A body that does not parse gives status 400, any
  other content type 415, and an error is a line of plain text.
\<close>

lemma parse_outcome:
  assumes "iequals_ok bt"
  shows "(fst (parse bt de r) = Some m \<longleftrightarrow>
      (same_nocase (req_field r Fd_content_type) ''application/json'' \<and> de_json de (req_body r) = Inr m) \<or>
      (list_ex (same_nocase (req_field r Fd_content_type)) content_type_protobuf \<and>
        de_proto de (req_body r) = Some m)) \<and>
    res_status (snd (parse bt de r)) =
      (if fst (parse bt de r) \<noteq> None then 200
       else if list_ex (same_nocase (req_field r Fd_content_type)) (''application/json'' # content_type_protobuf)
       then 400 else 415) \<and>
    (fst (parse bt de r) = None \<longrightarrow>
      res_fields (snd (parse bt de r)) Fd_content_type = Some ''text/plain'' \<and>
      last (res_body (snd (parse bt de r))) = CHR 0x0A)"
proof -
  let ?ct = "req_field r Fd_content_type"
  have disj: "\<not> list_ex (same_nocase ?ct) content_type_protobuf" if "same_nocase ?ct ''application/json''"
    using that same_nocase_json_protobuf by blast
  have j: "fst (json_body bt r True) \<longleftrightarrow> same_nocase ?ct ''application/json''"
    and p: "fst (protobuf_body bt r True) \<longleftrightarrow> list_ex (same_nocase ?ct) content_type_protobuf"
    using assms by (simp_all add: json_body_def protobuf_body_def content_type_json_def iequals_ok_def Let_def)
  show ?thesis
    using disj by (cases "de_json de (req_body r)"; cases "de_proto de (req_body r)")
      (auto simp: parse_def j p error_response_def set_field_def mk_response_def base_handle_sync_def)
qed

theorem parse_outcome_witness:
  "fst (parse demo_beast bool_decoder (demo_http [Fd_content_type \<mapsto> ''application/json''] ''r'')) = Some True"
proof -
  let ?r = "demo_http [Fd_content_type \<mapsto> ''application/json''] ''r''"
  have "same_nocase (req_field ?r Fd_content_type) ''application/json''" by code_simp
  moreover have "de_json bool_decoder (req_body ?r) = Inr True" by (simp add: bool_decoder_def demo_http_def)
  ultimately show ?thesis using parse_outcome [OF demo_beast_ok, of bool_decoder ?r True] by blast
qed

text \<open>
  Content negotiation for JSON clients. A request with a JSON content type whose \<open>Accept\<close>
  field is missing, empty, a wildcard or JSON is answered in JSON with the body the printer
  gives, in any letter case of the type names.
\<close>

lemma json_negotiation:
  assumes "iequals_ok bt" and "same_nocase (req_field r Fd_content_type) ''application/json''"
    and "req_field r Fd_accept \<in> {[], ''*'', ''*/*''} \<or> same_nocase (req_field r Fd_accept) ''application/json''"
    and "en_json en data (res_body response) = (body, None)"
  shows "serialize bt en r data response = (True, response\<lparr>res_body := body\<rparr>)"
proof -
  have "fst (json_body bt r False)"
    using assms(1-3) by (auto simp: json_body_def content_type_json_def iequals_ok_def Let_def)
  with assms(4) show ?thesis by (simp add: serialize_def)
qed

theorem json_negotiation_witness:
  "serialize demo_beast stat_encoder
     (demo_http [Fd_content_type \<mapsto> ''Application/JSON'', Fd_accept \<mapsto> ''*/*''] ''{}'') stat_init base_handle_sync =
   (True, base_handle_sync\<lparr>res_body := ''0''\<rparr>)"
proof -
  have "same_nocase ''Application/JSON'' ''application/json''" by code_simp
  moreover have "dec 0 = ''0''" by code_simp
  ultimately show ?thesis
    using json_negotiation [OF demo_beast_ok, of "demo_http [Fd_content_type \<mapsto> ''Application/JSON'', Fd_accept \<mapsto> ''*/*''] ''{}''"
        stat_encoder stat_init base_handle_sync "''0''"]
    by (simp add: demo_http_def req_field_def stat_encoder_def stat_init_def)
qed

text \<open>
  A protobuf client that accepts anything is refused. With a protobuf content type and
  the wildcard \<open>*/*\<close> in \<open>Accept\<close>, the request is not answered in protobuf but with status
  406, although the same wildcard is honoured for JSON.
\<close>

lemma protobuf_wildcard_refused:
  assumes "iequals_ok bt" and "req_field r Fd_content_type = ''application/protobuf''"
    and "req_field r Fd_accept = ''*/*''"
  shows "fst (serialize bt en r data response) = False \<and>
    res_status (snd (serialize bt en r data response)) = 406"
proof -
  have "\<not> same_nocase ''application/protobuf'' ''application/json''"
    "\<not> same_nocase ''*/*'' ''application/protobuf''" "\<not> same_nocase ''*/*'' ''application/x-protobuf''"
    "\<not> same_nocase ''*/*'' ''application/vnd.google.protobuf''"
    by (code_simp, code_simp, code_simp, code_simp)
  with assms have "\<not> fst (json_body bt r False)" "\<not> fst (protobuf_body bt r False)"
    by (simp_all add: json_body_def protobuf_body_def content_type_json_def content_type_protobuf_def
        iequals_ok_def)
  then show ?thesis
    by (simp add: serialize_def error_response_def set_field_def mk_response_def)
qed

theorem protobuf_wildcard_refused_witness:
  "res_status (snd (serialize demo_beast stat_encoder
     (demo_http [Fd_content_type \<mapsto> ''application/protobuf'', Fd_accept \<mapsto> ''*/*''] []) stat_init base_handle_sync)) = 406"
  using protobuf_wildcard_refused [OF demo_beast_ok,
      of "demo_http [Fd_content_type \<mapsto> ''application/protobuf'', Fd_accept \<mapsto> ''*/*''] []"
      stat_encoder stat_init base_handle_sync]
  by (simp add: demo_http_def req_field_def)

text \<open>
  A failure of the response printer is not reported to the client. The error response
  that the code builds is dropped, so the client gets status 200 with whatever the printer
  left in the body.
\<close>

lemma serialize_failure_status:
  assumes "fst (json_body bt r False)" and "en_json en data [] = (body, Some st)"
  shows "serialize bt en r data base_handle_sync = (False, base_handle_sync\<lparr>res_body := body\<rparr>) \<and>
    res_status (snd (serialize bt en r data base_handle_sync)) = 200"
  using assms by (simp add: serialize_def base_handle_sync_def mk_response_def)

theorem serialize_failure_status_witness:
  "res_status (snd (serialize demo_beast failing_encoder
     (demo_http [Fd_content_type \<mapsto> ''application/json''] ''{}'') stat_init base_handle_sync)) = 200"
proof -
  have "fst (json_body demo_beast (demo_http [Fd_content_type \<mapsto> ''application/json''] ''{}'') False)"
    by code_simp
  moreover have "en_json failing_encoder stat_init [] = (''{'', Some (13, ''internal''))"
    by (simp add: failing_encoder_def)
  ultimately show ?thesis by (rule serialize_failure_status [THEN conjunct2])
qed

text \<open>
  The echo handler returns the body it was sent, unchanged, with the content type it was
  sent or \<open>application/octet-stream\<close> if there was none, and status 200.
\<close>

lemma echo_returns_body:
  "res_body (echo_handle_sync r) = req_body r \<and> res_status (echo_handle_sync r) = 200 \<and>
   res_fields (echo_handle_sync r) Fd_content_type =
     Some (case req_fields r Fd_content_type of None \<Rightarrow> ''application/octet-stream'' | Some ct \<Rightarrow> ct)"
  by (simp add: echo_handle_sync_def base_handle_sync_def mk_response_def set_field_def split: option.split)

text \<open>
  The statistics handler. A request that does not parse changes no counter; a plain
  query reports the counters and keeps them; a reset reports the counters and leaves them
  all zero, which is what the four atomic exchanges do one after the other.
\<close>

lemma stat_handler_effect:
  "stat_handle_sync bt de en r d =
     (case parse bt de r of
        (None, resp) \<Rightarrow> (resp, d)
      | (Some reset, resp) \<Rightarrow>
         (snd (serialize bt en r d resp),
          fold stat_step (map (if reset then Ev_exchange else Ev_load)
            [Ct_connections, Ct_requests, Ct_data_req, Ct_data_resp]) d))"
  by (auto simp: stat_handle_sync_def stat_init_def Let_def split: prod.split option.split)


end
