(* ===== verification/Http_Connection.thy ===== *)
theory Http_Connection
  imports Http_Handler
begin

text \<open>
  The configuration of \<open>http_server\<close> and the coroutine \<open>http_server::handle_connection\<close> of
  \<^verbatim>\<open>src/http_server.cpp\<close>. The coroutine is a state machine: a program counter names the
  operation it is suspended at, an event is the completion of that operation, and a step
  runs the code up to the next suspension. What the code does to the stream on the way
  (deadlines, reads, writes) and the final call of \<open>active_connection_end\<close> are the effects
  of the step, in order. Completions carry what the peer and the libraries decide: error
  codes, the parsed request, whether the parser is done, the answer of the database server,
  or an exception.
\<close>

section \<open>Server configuration\<close>

record server_cfg =
  sv_header_server :: string
  sv_port :: u16
  sv_listen_queue :: "u32 option"
  sv_max_connections :: "u32 option"
  sv_idle_timeout :: "int option"
  sv_keepalive_timeout :: "int option"
  sv_keepalive_requests :: "u32 option"
  sv_max_request_headers :: "u32 option"
  sv_max_request_body :: "u32 option"
  sv_use_workers :: nat

definition nonzero :: "u32 \<Rightarrow> u32 option" where
  "nonzero v = (if v = 0 then None else Some v)"

text \<open>Assigning a 64-bit value to an \<open>optional<uint32_t>\<close> keeps its low 32 bits.\<close>

definition nonzero64 :: "u64 \<Rightarrow> u32 option" where
  "nonzero64 v = (if v = 0 then None else Some (ucast v))"

definition http_server_ctor :: "configuration \<Rightarrow> nat \<Rightarrow> string \<Rightarrow> string \<Rightarrow> server_cfg" where
  "http_server_ctor cfg workers app_name app_version =
     (let d = cfg_data cfg;
          base = \<lparr>sv_header_server = app_name @ ''/'' @ app_version, sv_port = http_port cfg,
                  sv_listen_queue = None, sv_max_connections = None, sv_idle_timeout = None,
                  sv_keepalive_timeout = None, sv_keepalive_requests = None,
                  sv_max_request_headers = None, sv_max_request_body = None,
                  sv_use_workers =
                    (if 1 < workers \<and> (case cm_thread_pools d of None \<Rightarrow> False | Some tp \<Rightarrow> tps_accept_pool tp)
                     then workers - 1 else workers)\<rparr>
      in case cm_http_server d of
           None \<Rightarrow> base
         | Some http \<Rightarrow>
             base\<lparr>sv_listen_queue :=
                    (let v = hs_listen_queue http
                     in if v = 0 then None else Some (if v > 2147483647 then 2147483647 else v)),
                  sv_max_connections := nonzero (hs_max_connections http),
                  sv_idle_timeout := time_value (hs_idle_timeout http),
                  sv_keepalive_timeout := time_value (hs_keepalive_timeout http),
                  sv_keepalive_requests := nonzero (hs_keepalive_requests http),
                  sv_max_request_headers := nonzero64 (hs_max_request_headers http),
                  sv_max_request_body := nonzero64 (hs_max_request_body http)\<rparr>)"

section \<open>State of a connection\<close>

datatype error_code = Ec_none | Ec_body_limit | Ec_other string

datatype effect =
    Eff_expires "int option"
  | Eff_read_header "u32 option" "u32 option"
  | Eff_read_some
  | Eff_write_continue http_response
  | Eff_write http_response
  | Eff_write_error http_response
  | Eff_post_db DbRequest
  | Eff_end u64 error_code string
  | Eff_rethrow

datatype pc =
    Pc_header
  | Pc_continue
  | Pc_body
  | Pc_db http_response
  | Pc_write bool
  | Pc_error
  | Pc_done

record conn =
  co_pc :: pc
  co_req_n :: u64
  co_ec :: error_code
  co_stage :: string
  co_request :: http_request
  co_body_done :: bool

datatype completion =
    Io_header error_code http_request bool
  | Io_continue error_code
  | Io_body error_code http_request bool
  | Io_db DbResponse
  | Io_write error_code
  | Io_error_write error_code
  | Io_throw

text \<open>The library functions the handlers use.\<close>

record http_env =
  he_beast :: beast
  he_stat_de :: "bool decoder"
  he_stat_en :: "stat_data encoder"
  he_db_de :: "DbRequest decoder"
  he_db_en :: "DbResponse encoder"

datatype handler_kind = H_db | H_echo | H_stat

definition handlers :: "string \<Rightarrow> handler_kind option" where
  "handlers = [''/db'' \<mapsto> H_db, ''/echo'' \<mapsto> H_echo, ''/stat'' \<mapsto> H_stat]"

text \<open>The overrides of \<open>async\<close>: only the database handler is a coroutine.\<close>

fun handler_async :: "handler_kind \<Rightarrow> bool" where
  "handler_async H_db = True"
| "handler_async H_echo = False"
| "handler_async H_stat = False"

text \<open>A point of the run: connection, shared statistics, effects of this step so far.\<close>

type_synonym point = "conn \<times> stat_data \<times> effect list"

definition emit :: "effect list \<Rightarrow> point \<Rightarrow> point" where
  "emit es p = (case p of (c, d, xs) \<Rightarrow> (c, d, xs @ es))"

definition before_request_timeout :: "server_cfg \<Rightarrow> bool \<Rightarrow> effect" where
  "before_request_timeout cfg first =
     Eff_expires (if first then sv_idle_timeout cfg else sv_keepalive_timeout cfg)"

definition in_request_timeout :: "server_cfg \<Rightarrow> effect" where
  "in_request_timeout cfg = Eff_expires (sv_idle_timeout cfg)"

section \<open>The coroutine\<close>

text \<open>The head of the request loop: a new parser with its limits, the deadline, the read.\<close>

definition loop_head :: "server_cfg \<Rightarrow> point \<Rightarrow> point" where
  "loop_head cfg p =
     (case p of (c, d, xs) \<Rightarrow>
       (c\<lparr>co_pc := Pc_header, co_stage := []\<rparr>, d,
        xs @ [before_request_timeout cfg (co_req_n c = 0),
              Eff_read_header (sv_max_request_headers cfg) (sv_max_request_body cfg)]))"

text \<open>The end of the coroutine: the scope guard calls \<open>active_connection_end\<close>.\<close>

definition conn_end :: "point \<Rightarrow> point" where
  "conn_end p =
     (case p of (c, d, xs) \<Rightarrow>
       (c\<lparr>co_pc := Pc_done\<rparr>, d, xs @ [Eff_end (co_req_n c) (co_ec c) (co_stage c)]))"

definition payload_too_large :: http_response where
  "payload_too_large = mk_response status_payload_too_large 11"

definition abort_connection :: "server_cfg \<Rightarrow> point \<Rightarrow> point" where
  "abort_connection cfg p =
     (case p of (c, d, xs) \<Rightarrow>
       if co_ec c = Ec_body_limit then
         (c\<lparr>co_pc := Pc_error\<rparr>, d, xs @ [in_request_timeout cfg, Eff_write_error payload_too_large])
       else conn_end (c, d, xs))"

definition send_response :: "http_env \<Rightarrow> server_cfg \<Rightarrow> http_response \<Rightarrow> point \<Rightarrow> point" where
  "send_response env cfg response p =
     (case p of (c, d, xs) \<Rightarrow>
       let request = co_request c;
           response = bt_prepare_payload (he_beast env) response;
           response = (if req_method request = V_head then response\<lparr>res_body := []\<rparr> else response);
           d = d\<lparr>st_data_resp := st_data_resp d + of_nat (length (res_body response))\<rparr>;
           response = set_field Fd_server (sv_header_server cfg) response;
           keepalive = (req_keep_alive request \<and>
             (case sv_keepalive_requests cfg of None \<Rightarrow> True | Some n \<Rightarrow> co_req_n c < ucast n));
           response = response\<lparr>res_keep_alive := keepalive\<rparr>
       in (c\<lparr>co_pc := Pc_write keepalive\<rparr>, d, xs @ [Eff_expires None, Eff_write response]))"

definition make_response :: "http_env \<Rightarrow> server_cfg \<Rightarrow> point \<Rightarrow> point" where
  "make_response env cfg p =
     (case p of (c, d, xs) \<Rightarrow>
       let request = co_request c;
           d = d\<lparr>st_data_req := st_data_req d + of_nat (length (req_body request))\<rparr>
       in case handlers (req_target request) of
            None \<Rightarrow> send_response env cfg (error_response status_bad_request ''Unknown URI path'') (c, d, xs)
          | Some H_echo \<Rightarrow> send_response env cfg (echo_handle_sync request) (c, d, xs)
          | Some H_stat \<Rightarrow>
              (let (response, d) = stat_handle_sync (he_beast env) (he_stat_de env) (he_stat_en env) request d
               in send_response env cfg response (c, d, xs))
          | Some H_db \<Rightarrow>
             (case db_handle_begin (he_beast env) (he_db_de env) request of
                Inl response \<Rightarrow> send_response env cfg response (c, d, xs)
              | Inr (rq, response) \<Rightarrow> (c\<lparr>co_pc := Pc_db response\<rparr>, d, xs @ [Eff_post_db rq])))"

text \<open>The loop that reads the body until the parser is done.\<close>

definition body_loop :: "http_env \<Rightarrow> server_cfg \<Rightarrow> point \<Rightarrow> point" where
  "body_loop env cfg p =
     (case p of (c, d, xs) \<Rightarrow>
       if co_body_done c then make_response env cfg (c, d, xs)
       else (c\<lparr>co_pc := Pc_body\<rparr>, d, xs @ [in_request_timeout cfg, Eff_read_some]))"

definition continue_response :: "server_cfg \<Rightarrow> http_response" where
  "continue_response cfg = set_field Fd_server (sv_header_server cfg) (mk_response status_continue 11)"

definition after_header :: "http_env \<Rightarrow> server_cfg \<Rightarrow> point \<Rightarrow> point" where
  "after_header env cfg p =
     (case p of (c, d, xs) \<Rightarrow>
       let c = c\<lparr>co_req_n := co_req_n c + 1\<rparr>;
           d = d\<lparr>st_requests := st_requests d + 1\<rparr>
       in if bt_iequals (he_beast env) (req_field (co_request c) Fd_expect) ''100-continue'' then
            (c\<lparr>co_pc := Pc_continue\<rparr>, d, xs @ [in_request_timeout cfg, Eff_write_continue (continue_response cfg)])
          else body_loop env cfg (c, d, xs))"

text \<open>The start of the coroutine, up to the first read.\<close>

definition conn_start :: "server_cfg \<Rightarrow> stat_data \<Rightarrow> point" where
  "conn_start cfg d =
     loop_head cfg
       (\<lparr>co_pc = Pc_header, co_req_n = 0, co_ec = Ec_none, co_stage = [],
         co_request = \<lparr>req_method = V_other [], req_target = [], req_fields = (\<lambda>_. None),
           req_body = [], req_keep_alive = True\<rparr>, co_body_done = False\<rparr>,
        d\<lparr>st_connections := st_connections d + 1\<rparr>, [])"

text \<open>
  One step: resume at the suspended operation with its completion. \<open>None\<close> for a completion
  that does not belong to the operation; an exception can arrive at any suspension.
\<close>

definition conn_step ::
    "http_env \<Rightarrow> server_cfg \<Rightarrow> conn \<Rightarrow> stat_data \<Rightarrow> completion \<Rightarrow> point option" where
  "conn_step env cfg c d io =
     (case (co_pc c, io) of
        (Pc_done, _) \<Rightarrow> None
      | (_, Io_throw) \<Rightarrow> Some (emit [Eff_rethrow] (conn_end (c, d, [])))
      | (Pc_header, Io_header ec request body_done) \<Rightarrow>
          (let c = c\<lparr>co_ec := ec, co_stage := ''read_request_headers''\<rparr>
           in Some (if ec \<noteq> Ec_none then abort_connection cfg (c, d, [])
                    else after_header env cfg (c\<lparr>co_request := request, co_body_done := body_done\<rparr>, d, [])))
      | (Pc_continue, Io_continue ec) \<Rightarrow>
          (let c = c\<lparr>co_ec := ec, co_stage := ''write_100_continue''\<rparr>
           in Some (if ec \<noteq> Ec_none then abort_connection cfg (c, d, []) else body_loop env cfg (c, d, [])))
      | (Pc_body, Io_body ec request body_done) \<Rightarrow>
          (let c = c\<lparr>co_ec := ec, co_stage := ''read_request_body''\<rparr>
           in Some (if ec \<noteq> Ec_none then abort_connection cfg (c, d, [])
                    else body_loop env cfg (c\<lparr>co_request := request, co_body_done := body_done\<rparr>, d, [])))
      | (Pc_db response, Io_db out) \<Rightarrow>
          Some (send_response env cfg
            (db_handle_end (he_beast env) (he_db_en env) (co_request c) response out) (c, d, []))
      | (Pc_write keepalive, Io_write ec) \<Rightarrow>
          (let c = c\<lparr>co_ec := ec, co_stage := ''write_response''\<rparr>
           in Some (if ec \<noteq> Ec_none then abort_connection cfg (c, d, [])
                    else if keepalive then loop_head cfg (c, d, [])
                    else abort_connection cfg (c\<lparr>co_ec := Ec_none, co_stage := []\<rparr>, d, [])))
      | (Pc_error, Io_error_write ece) \<Rightarrow> Some (conn_end (c, d, []))
      | _ \<Rightarrow> None)"

text \<open>A whole run, with all its effects; \<open>None\<close> when a completion does not fit.\<close>

fun conn_run :: "http_env \<Rightarrow> server_cfg \<Rightarrow> point \<Rightarrow> completion list \<Rightarrow> point option" where
  "conn_run env cfg p [] = Some p"
| "conn_run env cfg (c, d, xs) (io # ios) =
     (case conn_step env cfg c d io of
        None \<Rightarrow> None
      | Some (c', d', ys) \<Rightarrow> conn_run env cfg (c', d', xs @ ys) ios)"

section \<open>The protocol a connection promises\<close>

text \<open>
  The abstract specification: what may happen on the stream of one connection, without the
  data. A request is read under the right deadline, its body follows after an optional
  interim response, exactly one final response is written without a deadline, the next
  request is read only after a response that keeps the connection, and the connection ends
  once. The number counts the requests whose headers have been accepted.
\<close>

datatype phase = Ph_header | Ph_continue | Ph_body | Ph_db | Ph_sent bool | Ph_failed | Ph_closed

definition receiving :: "phase \<Rightarrow> u64 \<Rightarrow> u64 \<Rightarrow> bool" where
  "receiving ph n n' \<longleftrightarrow> (ph = Ph_header \<and> n' = n + 1) \<or> (ph \<in> {Ph_continue, Ph_body} \<and> n' = n)"

definition may_keep :: "server_cfg \<Rightarrow> u64 \<Rightarrow> bool" where
  "may_keep cfg n \<longleftrightarrow> (case sv_keepalive_requests cfg of None \<Rightarrow> True | Some m \<Rightarrow> n < ucast m)"

inductive protocol :: "server_cfg \<Rightarrow> phase \<times> u64 \<Rightarrow> effect list \<Rightarrow> phase \<times> u64 \<Rightarrow> bool" for cfg where
  p_continue: "protocol cfg (Ph_header, n)
    [Eff_expires (sv_idle_timeout cfg), Eff_write_continue (continue_response cfg)] (Ph_continue, n + 1)"
| p_more: "receiving ph n n' \<Longrightarrow>
    protocol cfg (ph, n) [Eff_expires (sv_idle_timeout cfg), Eff_read_some] (Ph_body, n')"
| p_db: "receiving ph n n' \<Longrightarrow> protocol cfg (ph, n) [Eff_post_db rq] (Ph_db, n')"
| p_respond: "receiving ph n n' \<or> (ph = Ph_db \<and> n' = n) \<Longrightarrow>
    res_fields r Fd_server = Some (sv_header_server cfg) \<Longrightarrow>
    (res_keep_alive r \<Longrightarrow> may_keep cfg n') \<Longrightarrow>
    protocol cfg (ph, n) [Eff_expires None, Eff_write r] (Ph_sent (res_keep_alive r), n')"
| p_next: "protocol cfg (Ph_sent True, n)
    [Eff_expires (if n = 0 then sv_idle_timeout cfg else sv_keepalive_timeout cfg),
     Eff_read_header (sv_max_request_headers cfg) (sv_max_request_body cfg)] (Ph_header, n)"
| p_too_large: "ph \<notin> {Ph_db, Ph_failed, Ph_closed} \<Longrightarrow>
    protocol cfg (ph, n) [Eff_expires (sv_idle_timeout cfg), Eff_write_error payload_too_large] (Ph_failed, n)"
| p_close: "ph \<noteq> Ph_closed \<Longrightarrow> protocol cfg (ph, n) [Eff_end n ec stage] (Ph_closed, n)"
| p_throw: "ph \<noteq> Ph_closed \<Longrightarrow> protocol cfg (ph, n) [Eff_end n ec stage, Eff_rethrow] (Ph_closed, n)"

fun phase_of :: "pc \<Rightarrow> phase" where
  "phase_of Pc_header = Ph_header"
| "phase_of Pc_continue = Ph_continue"
| "phase_of Pc_body = Ph_body"
| "phase_of (Pc_db r) = Ph_db"
| "phase_of (Pc_write k) = Ph_sent k"
| "phase_of Pc_error = Ph_failed"
| "phase_of Pc_done = Ph_closed"

definition abs_conn :: "conn \<Rightarrow> phase \<times> u64" where
  "abs_conn c = (phase_of (co_pc c), co_req_n c)"

section \<open>Lemmas\<close>

definition final_response :: "http_env \<Rightarrow> server_cfg \<Rightarrow> conn \<Rightarrow> http_response \<Rightarrow> http_response" where
  "final_response env cfg c r =
     (let r = bt_prepare_payload (he_beast env) r;
          body = (if req_method (co_request c) = V_head then [] else res_body r)
      in r\<lparr>res_body := body, res_fields := (res_fields r)(Fd_server \<mapsto> sv_header_server cfg),
           res_keep_alive := req_keep_alive (co_request c) \<and> may_keep cfg (co_req_n c)\<rparr>)"

lemma send_response_final:
  "send_response env cfg r (c, d, xs) =
     (c\<lparr>co_pc := Pc_write (res_keep_alive (final_response env cfg c r))\<rparr>,
      d\<lparr>st_data_resp := st_data_resp d + of_nat (length (res_body (final_response env cfg c r)))\<rparr>,
      xs @ [Eff_expires None, Eff_write (final_response env cfg c r)])"
  by (simp add: send_response_def final_response_def may_keep_def set_field_def Let_def)

lemma send_response_protocol:
  assumes "receiving ph n (co_req_n c) \<or> (ph = Ph_db \<and> co_req_n c = n)"
    and "send_response env cfg r (c, d, []) = (c', d', ys)"
  shows "protocol cfg (ph, n) ys (abs_conn c')"
proof -
  let ?r = "final_response env cfg c r"
  from assms(2) have ys: "ys = [Eff_expires None, Eff_write ?r]"
    and c': "abs_conn c' = (Ph_sent (res_keep_alive ?r), co_req_n c)"
    by (auto simp: send_response_final abs_conn_def)
  show ?thesis unfolding ys c'
    by (rule p_respond [OF assms(1)]) (auto simp: final_response_def Let_def)
qed

lemma make_response_protocol:
  assumes "receiving ph n (co_req_n c)" and "make_response env cfg (c, d, []) = (c', d', ys)"
  shows "protocol cfg (ph, n) ys (abs_conn c')"
proof -
  consider (sent) r d1 where "send_response env cfg r (c, d1, []) = (c', d', ys)"
    | (db) rq resp where "c' = c\<lparr>co_pc := Pc_db resp\<rparr>" "ys = [Eff_post_db rq]"
    using assms(2) by (auto simp: make_response_def Let_def split: option.splits handler_kind.splits
        prod.splits sum.splits)
  then show ?thesis
  proof cases
    case sent
    then show ?thesis using assms(1) by (blast intro: send_response_protocol)
  next
    case db
    then show ?thesis using p_db [OF assms(1)] by (simp add: abs_conn_def)
  qed
qed

lemma body_loop_protocol:
  assumes "receiving ph n (co_req_n c)" and "body_loop env cfg (c, d, []) = (c', d', ys)"
  shows "protocol cfg (ph, n) ys (abs_conn c')"
proof (cases "co_body_done c")
  case True
  with assms show ?thesis by (intro make_response_protocol) (auto simp: body_loop_def)
next
  case False
  with assms(2) p_more [OF assms(1)] show ?thesis
    by (auto simp: body_loop_def abs_conn_def in_request_timeout_def)
qed

lemma abort_protocol:
  assumes "ph \<notin> {Ph_db, Ph_failed, Ph_closed}" and "abort_connection cfg (c, d, []) = (c', d', ys)"
  shows "protocol cfg (ph, co_req_n c) ys (abs_conn c')"
  using assms p_too_large [of ph cfg "co_req_n c"] p_close [of ph cfg "co_req_n c"]
  by (auto simp: abort_connection_def conn_end_def abs_conn_def in_request_timeout_def split: if_splits)

lemma loop_head_protocol:
  assumes "loop_head cfg (c, d, []) = (c', d', ys)"
  shows "protocol cfg (Ph_sent True, co_req_n c) ys (abs_conn c')"
  using assms p_next [of cfg "co_req_n c"]
  by (auto simp: loop_head_def before_request_timeout_def abs_conn_def)

lemma after_header_protocol:
  assumes "after_header env cfg (c, d, []) = (c', d', ys)"
  shows "protocol cfg (Ph_header, co_req_n c) ys (abs_conn c')"
proof (cases "bt_iequals (he_beast env) (req_field (co_request c) Fd_expect) ''100-continue''")
  case True
  with assms p_continue [of cfg "co_req_n c"] show ?thesis
    by (auto simp: after_header_def Let_def abs_conn_def in_request_timeout_def)
next
  case False
  with assms have "body_loop env cfg (c\<lparr>co_req_n := co_req_n c + 1\<rparr>,
      d\<lparr>st_requests := st_requests d + 1\<rparr>, []) = (c', d', ys)"
    by (simp add: after_header_def Let_def)
  from body_loop_protocol [OF _ this, of Ph_header "co_req_n c"] show ?thesis by (simp add: receiving_def)
qed

lemma throw_protocol:
  "co_pc c \<noteq> Pc_done \<Longrightarrow> emit [Eff_rethrow] (conn_end (c, d, [])) = (c', d', ys) \<Longrightarrow>
    protocol cfg (abs_conn c) ys (abs_conn c')"
  using p_throw [of "phase_of (co_pc c)" cfg "co_req_n c" "co_ec c" "co_stage c"]
  by (cases "co_pc c") (auto simp: emit_def conn_end_def abs_conn_def)

lemmas conn_protocols = abort_protocol loop_head_protocol after_header_protocol body_loop_protocol
  send_response_protocol

lemma conn_step_throw: "co_pc c \<noteq> Pc_done \<Longrightarrow> conn_step env cfg c d Io_throw =
    Some (emit [Eff_rethrow] (conn_end (c, d, [])))"
  by (simp add: conn_step_def split: pc.split)

lemma conn_step_done [simp]: "co_pc c = Pc_done \<Longrightarrow> conn_step env cfg c d io = None"
  by (simp add: conn_step_def)

lemma conn_step_protocol:
  assumes "conn_step env cfg c d io = Some (c', d', ys)"
  shows "protocol cfg (abs_conn c) ys (abs_conn c')"
proof (cases "io = Io_throw")
  case True
  from assms have "co_pc c \<noteq> Pc_done" by auto
  with True assms show ?thesis by (auto simp: conn_step_throw intro: throw_protocol)
next
  case False
  have ab: "protocol cfg (abs_conn c) ys (abs_conn c')"
    if "phase_of (co_pc c) \<notin> {Ph_db, Ph_failed, Ph_closed}"
      "abort_connection cfg (c\<lparr>co_ec := ec, co_stage := st\<rparr>, d, []) = (c', d', ys)" for ec st
    using abort_protocol [OF that] by (simp add: abs_conn_def)
  have bl: "protocol cfg (abs_conn c) ys (abs_conn c')"
    if "body_loop env cfg (c1, d, []) = (c', d', ys)" "co_pc c \<in> {Pc_continue, Pc_body}"
      "co_req_n c1 = co_req_n c" for c1
    using body_loop_protocol [OF _ that(1), of "phase_of (co_pc c)" "co_req_n c"] that(2,3)
    by (auto simp: abs_conn_def receiving_def)
  show ?thesis
  proof (cases "co_pc c")
    case Pc_header
    with assms False obtain ec rq bd where io: "io = Io_header ec rq bd"
      by (cases io) (auto simp: conn_step_def)
    show ?thesis
    proof (cases "ec = Ec_none")
      case True
      with assms Pc_header io show ?thesis
        by (auto simp: conn_step_def abs_conn_def dest!: after_header_protocol)
    next
      case False
      with assms Pc_header io show ?thesis by (auto simp: conn_step_def intro: ab)
    qed
  next
    case Pc_continue
    with assms False obtain ec where io: "io = Io_continue ec"
      by (cases io) (auto simp: conn_step_def)
    with assms Pc_continue show ?thesis
      by (cases "ec = Ec_none") (auto simp: conn_step_def intro: ab dest: bl)
  next
    case Pc_body
    with assms False obtain ec rq bd where io: "io = Io_body ec rq bd"
      by (cases io) (auto simp: conn_step_def)
    with assms Pc_body show ?thesis
      by (cases "ec = Ec_none") (auto simp: conn_step_def intro: ab dest: bl)
  next
    case (Pc_db r)
    with assms False show ?thesis
      by (auto simp: conn_step_def split: completion.splits
          dest!: send_response_protocol [where ph = Ph_db and n = "co_req_n c", rotated])
        (simp add: abs_conn_def)
  next
    case (Pc_write k)
    with assms False obtain ec where io: "io = Io_write ec"
      by (cases io) (auto simp: conn_step_def)
    show ?thesis
    proof (cases "ec = Ec_none \<and> k")
      case True
      with assms Pc_write io show ?thesis
        by (auto simp: conn_step_def abs_conn_def dest!: loop_head_protocol)
    next
      case False
      with assms Pc_write io show ?thesis
        by (auto simp: conn_step_def Let_def split: if_splits intro: ab)
    qed
  next
    case Pc_error
    with assms False p_close [of Ph_failed cfg "co_req_n c" "co_ec c" "co_stage c"] show ?thesis
      by (auto simp: conn_step_def conn_end_def abs_conn_def split: completion.splits)
  next
    case Pc_done
    with assms show ?thesis by simp
  qed
qed

section \<open>Whole connections\<close>

text \<open>
  The runs of the abstract protocol, with all effects so far. The start is the state before
  the first turn of the request loop, whose condition \<open>keepalive\<close> is initially true.
\<close>

definition proto_init :: "(phase \<times> u64) \<times> effect list \<Rightarrow> bool" where
  "proto_init s \<longleftrightarrow> s = ((Ph_sent True, 0), [])"

definition proto_step ::
    "server_cfg \<Rightarrow> (phase \<times> u64) \<times> effect list \<Rightarrow> (phase \<times> u64) \<times> effect list \<Rightarrow> bool" where
  "proto_step cfg s t \<longleftrightarrow> (\<exists>ys. protocol cfg (fst s) ys (fst t) \<and> snd t = snd s @ ys)"

lemma conn_start_reach:
  "conn_start cfg d = (c, d', xs) \<Longrightarrow> reach proto_init (proto_step cfg) (abs_conn c, xs)"
proof -
  assume "conn_start cfg d = (c, d', xs)"
  from loop_head_protocol [OF this [unfolded conn_start_def]]
  have "proto_step cfg ((Ph_sent True, 0), []) (abs_conn c, xs)" by (simp add: proto_step_def)
  then show ?thesis by (rule reach_step [rotated]) (simp add: proto_init_def reach_init)
qed

lemma conn_run_reach_from:
  "conn_run env cfg (c, d, xs) ios = Some (c', d', ys) \<Longrightarrow>
    reach proto_init (proto_step cfg) (abs_conn c, xs) \<Longrightarrow>
    reach proto_init (proto_step cfg) (abs_conn c', ys)"
proof (induction ios arbitrary: c d xs)
  case (Cons io ios)
  from Cons.prems(1) obtain c1 d1 zs where step: "conn_step env cfg c d io = Some (c1, d1, zs)"
    and rest: "conn_run env cfg (c1, d1, xs @ zs) ios = Some (c', d', ys)"
    by (auto split: option.splits)
  have "proto_step cfg (abs_conn c, xs) (abs_conn c1, xs @ zs)"
    using conn_step_protocol [OF step] by (auto simp: proto_step_def)
  with Cons.prems(2) have "reach proto_init (proto_step cfg) (abs_conn c1, xs @ zs)"
    by (rule reach_step)
  with Cons.IH [OF rest] show ?case by blast
qed simp

lemma conn_run_reach:
  "conn_run env cfg (conn_start cfg d0) ios = Some (c, d, xs) \<Longrightarrow>
    reach proto_init (proto_step cfg) (abs_conn c, xs)"
  by (cases "conn_start cfg d0") (auto intro: conn_run_reach_from conn_start_reach)

text \<open>What an observer of the stream counts.\<close>

fun responses :: "effect list \<Rightarrow> http_response list" where
  "responses [] = []"
| "responses (Eff_write r # xs) = r # responses xs"
| "responses (_ # xs) = responses xs"

fun header_reads :: "effect list \<Rightarrow> nat" where
  "header_reads [] = 0"
| "header_reads (Eff_read_header h b # xs) = Suc (header_reads xs)"
| "header_reads (_ # xs) = header_reads xs"

fun ends :: "effect list \<Rightarrow> nat" where
  "ends [] = 0"
| "ends (Eff_end n ec st # xs) = Suc (ends xs)"
| "ends (_ # xs) = ends xs"

lemma responses_append [simp]: "responses (xs @ ys) = responses xs @ responses ys"
  by (induction xs rule: responses.induct) simp_all

lemma header_reads_append [simp]: "header_reads (xs @ ys) = header_reads xs + header_reads ys"
  by (induction xs rule: header_reads.induct) simp_all

lemma ends_append [simp]: "ends (xs @ ys) = ends xs + ends ys"
  by (induction xs rule: ends.induct) simp_all

definition in_progress :: "phase \<Rightarrow> bool" where
  "in_progress ph \<longleftrightarrow> ph \<in> {Ph_continue, Ph_body, Ph_db}"

lemmas phase_simps = in_progress_def receiving_def

text \<open>Requests, responses and the end of the connection are counted consistently.\<close>

fun exchange_inv :: "(phase \<times> u64) \<times> effect list \<Rightarrow> bool" where
  "exchange_inv ((ph, n), xs) \<longleftrightarrow>
     (let rs = responses xs in
       (case ph of
          Ph_sent k \<Rightarrow> of_nat (length rs) = n \<and> header_reads xs = length rs \<and>
            (rs \<noteq> [] \<longrightarrow> res_keep_alive (last rs) = k) \<and> (rs = [] \<longrightarrow> k) \<and> list_all res_keep_alive (butlast rs)
        | Ph_header \<Rightarrow> of_nat (length rs) = n \<and> header_reads xs = Suc (length rs) \<and> list_all res_keep_alive rs
        | Ph_failed \<Rightarrow> of_nat (length rs) \<in> {n, n - 1} \<and> header_reads xs \<in> {length rs, Suc (length rs)} \<and>
            list_all res_keep_alive (butlast rs) \<and>
            (header_reads xs = Suc (length rs) \<longrightarrow> list_all res_keep_alive rs)
        | Ph_closed \<Rightarrow> of_nat (length rs) \<in> {n, n - 1} \<and> header_reads xs \<in> {length rs, Suc (length rs)} \<and>
            list_all res_keep_alive (butlast rs) \<and>
            (header_reads xs = Suc (length rs) \<longrightarrow> list_all res_keep_alive rs)
        | _ \<Rightarrow> of_nat (length rs) + 1 = n \<and> header_reads xs = Suc (length rs) \<and> list_all res_keep_alive rs) \<and>
       ends xs = (if ph = Ph_closed then 1 else 0))"

lemma list_all_butlast: "list_all P xs \<Longrightarrow> list_all P (butlast xs)"
  by (auto simp: list_all_iff dest: in_set_butlastD)

lemma list_all_snoc_split: "list_all P (butlast xs) \<Longrightarrow> (xs \<noteq> [] \<Longrightarrow> P (last xs)) \<Longrightarrow> list_all P xs"
  by (cases xs rule: rev_cases) simp_all

interpretation exchange: invariant_system proto_init "proto_step cfg" exchange_inv for cfg
proof
  fix s assume "proto_init s"
  then show "exchange_inv s" by (simp add: proto_init_def)
next
  fix s t :: "(phase \<times> u64) \<times> effect list"
  assume inv: "exchange_inv s" and "proto_step cfg s t"
  then obtain ys where "protocol cfg (fst s) ys (fst t)" and t: "snd t = snd s @ ys"
    by (auto simp: proto_step_def)
  from this(1) show "exchange_inv t"
  proof cases
    case (p_next n)
    with inv t show ?thesis
      by (cases s; cases t) (auto simp: Let_def intro!: list_all_snoc_split)
  qed (use inv t in \<open>cases s; cases t; auto simp: Let_def receiving_def list_all_butlast split: phase.splits\<close>)+
qed

text \<open>The bound on the requests of one connection, when it is configured.\<close>

fun limit_inv :: "nat \<Rightarrow> (phase \<times> u64) \<times> effect list \<Rightarrow> bool" where
  "limit_inv m ((ph, n), xs) \<longleftrightarrow>
     (case ph of
        Ph_sent k \<Rightarrow> length (responses xs) = unat n \<and> header_reads xs = unat n \<and> unat n \<le> m \<and> (k \<longrightarrow> unat n < m)
      | Ph_header \<Rightarrow> length (responses xs) = unat n \<and> header_reads xs = Suc (unat n) \<and> unat n < m
      | Ph_failed \<Rightarrow> length (responses xs) \<le> m \<and> header_reads xs \<le> m
      | Ph_closed \<Rightarrow> length (responses xs) \<le> m \<and> header_reads xs \<le> m
      | _ \<Rightarrow> Suc (length (responses xs)) = unat n \<and> header_reads xs = unat n \<and> unat n \<le> m)"

definition keepalive_inv :: "server_cfg \<Rightarrow> (phase \<times> u64) \<times> effect list \<Rightarrow> bool" where
  "keepalive_inv cfg s \<longleftrightarrow>
     (case sv_keepalive_requests cfg of None \<Rightarrow> True | Some m \<Rightarrow> m = 0 \<or> limit_inv (unat m) s)"

lemma unat_Suc_below: "unat (n :: u64) < unat (m :: u32) \<Longrightarrow> unat (n + 1) = Suc (unat n)"
proof -
  assume a: "unat n < unat m"
  have "unat m < 2 ^ 32" using unsigned_less [of m, where ?'a = nat] by simp
  with a have "unat n + 1 < 2 ^ 64" by simp
  then show ?thesis by (simp add: unat_word_ariths)
qed

lemma may_keep_limit: "sv_keepalive_requests cfg = Some m \<Longrightarrow> may_keep cfg n \<longleftrightarrow> unat n < unat m"
  by (simp add: may_keep_def word_less_nat_alt)

interpretation keepalive: invariant_system proto_init "proto_step cfg" "keepalive_inv cfg" for cfg
proof
  fix s assume "proto_init s"
  then show "keepalive_inv cfg s"
    by (auto simp: proto_init_def keepalive_inv_def unat_gt_0 split: option.splits)
next
  fix s t :: "(phase \<times> u64) \<times> effect list"
  assume inv: "keepalive_inv cfg s" and "proto_step cfg s t"
  then obtain ys where pr: "protocol cfg (fst s) ys (fst t)" and t: "snd t = snd s @ ys"
    by (auto simp: proto_step_def)
  show "keepalive_inv cfg t"
  proof (cases "sv_keepalive_requests cfg")
    case None
    then show ?thesis by (simp add: keepalive_inv_def)
  next
    case (Some m)
    show ?thesis
    proof (cases "m = 0")
      case True
      with Some show ?thesis by (simp add: keepalive_inv_def)
    next
      case False
      with inv Some have lim: "limit_inv (unat m) s" by (simp add: keepalive_inv_def)
      from pr have "limit_inv (unat m) t"
        by cases (use lim t in \<open>cases s; cases t; auto simp: receiving_def may_keep_limit [OF Some]
            unat_Suc_below split: phase.splits if_splits\<close>)+
      with Some show ?thesis by (simp add: keepalive_inv_def)
    qed
  qed
qed

text \<open>A server and a client for the witnesses.\<close>

definition demo_env :: http_env where
  "demo_env = \<lparr>he_beast = demo_beast, he_stat_de = bool_decoder, he_stat_en = stat_encoder,
     he_db_de = \<lparr>de_json = (\<lambda>s. Inl (3, s)), de_proto = (\<lambda>s. None)\<rparr>,
     he_db_en = \<lparr>en_json = (\<lambda>m b. (''db'', None)), en_proto = (\<lambda>m b. (''db'', True))\<rparr>\<rparr>"

definition demo_sv :: server_cfg where
  "demo_sv = \<lparr>sv_header_server = ''s/1'', sv_port = 80, sv_listen_queue = None,
     sv_max_connections = Some 2, sv_idle_timeout = Some 5, sv_keepalive_timeout = Some 9,
     sv_keepalive_requests = Some 2, sv_max_request_headers = None, sv_max_request_body = Some 4,
     sv_use_workers = 1\<rparr>"

definition demo_get :: "string \<Rightarrow> http_request" where
  "demo_get b = \<lparr>req_method = V_other ''POST'', req_target = ''/echo'',
     req_fields = [Fd_expect \<mapsto> ''100-Continue''], req_body = b, req_keep_alive = True\<rparr>"

definition demo_ios :: "completion list" where
  "demo_ios = [Io_header Ec_none (demo_get []) False, Io_continue Ec_none, Io_body Ec_none (demo_get ''ab'') True,
     Io_write Ec_none, Io_header Ec_none (demo_get ''cd'') True, Io_continue Ec_none, Io_write Ec_none]"

lemma demo_expect: "same_nocase ''100-Continue'' ''100-continue''"
  by code_simp

lemmas demo_conn_simps = demo_ios_def demo_env_def demo_sv_def demo_get_def demo_beast_def conn_start_def
  loop_head_def conn_step_def after_header_def body_loop_def make_response_def send_response_def
  abort_connection_def conn_end_def emit_def before_request_timeout_def in_request_timeout_def
  handlers_def req_field_def demo_expect

definition demo_sent :: "bool \<Rightarrow> string \<Rightarrow> http_response" where
  "demo_sent k b = \<lparr>res_status = 200, res_version = 11, res_fields = 
     [Fd_content_type \<mapsto> ''application/octet-stream'', Fd_server \<mapsto> ''s/1''], res_body = b,
     res_keep_alive = k, res_content_length = Some (length b)\<rparr>"

definition demo_effects :: "effect list" where
  "demo_effects =
     [Eff_expires (Some 5), Eff_read_header None (Some 4),
      Eff_expires (Some 5), Eff_write_continue (continue_response demo_sv),
      Eff_expires (Some 5), Eff_read_some, Eff_expires None, Eff_write (demo_sent True ''ab''),
      Eff_expires (Some 9), Eff_read_header None (Some 4),
      Eff_expires (Some 5), Eff_write_continue (continue_response demo_sv),
      Eff_expires None, Eff_write (demo_sent False ''cd''), Eff_end 2 Ec_none []]"

lemma demo_conn_run:
  "(case conn_run demo_env demo_sv (conn_start demo_sv stat_init) demo_ios of None \<Rightarrow> None
      | Some (c, d, xs) \<Rightarrow> Some (co_pc c, co_req_n c, xs)) =
   Some (Pc_done, 2,
     demo_effects)"
  by (simp add: demo_conn_simps echo_handle_sync_def base_handle_sync_def mk_response_def set_field_def
      demo_sent_def demo_effects_def Let_def)

lemma demo_runs:
  obtains c d where "conn_run demo_env demo_sv (conn_start demo_sv stat_init) demo_ios = Some (c, d, demo_effects)"
    and "co_pc c = Pc_done" and "co_req_n c = 2"
  using demo_conn_run that by (fastforce split: option.splits prod.splits)

section \<open>What the responses contain\<close>

text \<open>
  Documented behaviour of \<open>prepare_payload\<close> for the statuses in use: it announces the length
  of the body and changes nothing else.
\<close>

definition payload_ok :: "beast \<Rightarrow> bool" where
  "payload_ok bt \<longleftrightarrow> (\<forall>r. res_status r \<in> {200, 400, 406, 415} \<longrightarrow>
     bt_prepare_payload bt r = r\<lparr>res_content_length := Some (length (res_body r))\<rparr>)"

definition written_ok :: "server_cfg \<Rightarrow> http_response \<Rightarrow> bool" where
  "written_ok cfg r \<longleftrightarrow> res_version r = 11 \<and> res_status r \<in> {200, 400, 406, 415} \<and>
     res_fields r Fd_server = Some (sv_header_server cfg) \<and>
     (\<exists>n. res_content_length r = Some n \<and> (res_body r = [] \<or> length (res_body r) = n))"

definition pending_ok :: "conn \<Rightarrow> bool" where
  "pending_ok c \<longleftrightarrow> (case co_pc c of Pc_db r \<Rightarrow> plain_response r | _ \<Rightarrow> True)"

definition point_ok :: "server_cfg \<Rightarrow> point \<Rightarrow> bool" where
  "point_ok cfg p \<longleftrightarrow> pending_ok (fst p) \<and> list_all (written_ok cfg) (responses (snd (snd p)))"

lemma final_response_ok:
  "payload_ok (he_beast env) \<Longrightarrow> plain_response r \<Longrightarrow> written_ok cfg (final_response env cfg c r)"
proof -
  assume "payload_ok (he_beast env)" and r: "plain_response r"
  then have "bt_prepare_payload (he_beast env) r = r\<lparr>res_content_length := Some (length (res_body r))\<rparr>"
    unfolding payload_ok_def plain_response_def by blast
  with r show ?thesis by (auto simp: plain_response_def final_response_def written_ok_def Let_def)
qed

lemma send_response_ok:
  "payload_ok (he_beast env) \<Longrightarrow> plain_response r \<Longrightarrow> list_all (written_ok cfg) (responses xs) \<Longrightarrow>
    point_ok cfg (send_response env cfg r (c, d, xs))"
  by (simp add: send_response_final point_ok_def pending_ok_def final_response_ok)

lemma make_response_ok:
  assumes "payload_ok (he_beast env)" and "list_all (written_ok cfg) (responses xs)"
  shows "point_ok cfg (make_response env cfg (c, d, xs))"
proof -
  have send: "point_ok cfg (send_response env cfg r (c, d1, xs))" if "plain_response r" for r d1
    using assms that by (intro send_response_ok)
  have st: "plain_response r" if "stat_handle_sync bt de en (co_request c) d1 = (r, d2)" for bt de en r d1 d2
    using plain_stat [of bt de en "co_request c" d1] that by simp
  show ?thesis
    using plain_db_begin [of "he_beast env" "he_db_de env" "co_request c"] assms(2)
    by (auto simp: make_response_def Let_def send st plain_error plain_echo
        split: option.split handler_kind.split prod.split sum.splits) (simp add: point_ok_def pending_ok_def)
qed

lemma point_ok_pc [simp]:
  "point_ok cfg (c\<lparr>co_pc := Pc_header\<rparr>, d, xs) = list_all (written_ok cfg) (responses xs)"
  "point_ok cfg (c\<lparr>co_pc := Pc_body\<rparr>, d, xs) = list_all (written_ok cfg) (responses xs)"
  "point_ok cfg (c\<lparr>co_pc := Pc_continue\<rparr>, d, xs) = list_all (written_ok cfg) (responses xs)"
  "point_ok cfg (c\<lparr>co_pc := Pc_error\<rparr>, d, xs) = list_all (written_ok cfg) (responses xs)"
  "point_ok cfg (c\<lparr>co_pc := Pc_done\<rparr>, d, xs) = list_all (written_ok cfg) (responses xs)"
  by (simp_all add: point_ok_def pending_ok_def)

lemma body_loop_ok:
  "payload_ok (he_beast env) \<Longrightarrow> point_ok cfg (body_loop env cfg (c, d, []))"
  by (simp add: body_loop_def make_response_ok in_request_timeout_def)

lemma after_header_ok:
  "payload_ok (he_beast env) \<Longrightarrow> point_ok cfg (after_header env cfg (c, d, []))"
  by (simp add: after_header_def Let_def body_loop_ok in_request_timeout_def)

lemma abort_ok: "point_ok cfg (abort_connection cfg (c, d, []))"
  by (simp add: abort_connection_def conn_end_def in_request_timeout_def)

lemma loop_head_ok: "point_ok cfg (loop_head cfg (c, d, []))"
  by (simp add: loop_head_def point_ok_def pending_ok_def before_request_timeout_def)

lemma conn_step_ok:
  assumes "payload_ok (he_beast env)" and "pending_ok c" and "conn_step env cfg c d io = Some p"
  shows "point_ok cfg p"
  using assms
  by (auto simp: conn_step_def Let_def abort_ok loop_head_ok after_header_ok body_loop_ok
      emit_def conn_end_def pending_ok_def split: pc.splits completion.splits if_splits
      intro!: send_response_ok plain_db_end)

lemma conn_run_ok_from:
  "payload_ok (he_beast env) \<Longrightarrow> point_ok cfg (c, d, xs) \<Longrightarrow>
    conn_run env cfg (c, d, xs) ios = Some p \<Longrightarrow> point_ok cfg p"
proof (induction ios arbitrary: c d xs)
  case (Cons io ios)
  from Cons.prems(3) obtain c1 d1 zs where step: "conn_step env cfg c d io = Some (c1, d1, zs)"
    and rest: "conn_run env cfg (c1, d1, xs @ zs) ios = Some p"
    by (auto split: option.splits)
  from Cons.prems(2) have "pending_ok c" by (simp add: point_ok_def)
  from conn_step_ok [OF Cons.prems(1) this step] Cons.prems(2)
  have "point_ok cfg (c1, d1, xs @ zs)" by (simp add: point_ok_def)
  from Cons.IH [OF Cons.prems(1) this rest] show ?case .
qed simp

lemma conn_start_ok: "point_ok cfg (conn_start cfg d)"
  unfolding conn_start_def by (rule loop_head_ok)

section \<open>Properties\<close>

text \<open>
  C3: a connection refines the protocol: whatever the peer and the libraries answer, the
  effects of a run of the coroutine, from its start on, are effects of a run of the abstract
  protocol that ends in the phase and with the request count of the connection.
\<close>

theorem connection_follows_protocol:
  assumes "conn_run env cfg (conn_start cfg d0) ios = Some (c, d, xs)"
  shows "reach proto_init (proto_step cfg) (abs_conn c, xs)"
  using assms by (rule conn_run_reach)

theorem connection_follows_protocol_witness:
  "\<exists>c d xs. conn_run demo_env demo_sv (conn_start demo_sv stat_init) demo_ios = Some (c, d, xs) \<and>
     length xs = 15 \<and> reach proto_init (proto_step demo_sv) ((Ph_closed, 2), xs)"
proof (rule demo_runs)
  fix c d
  assume run: "conn_run demo_env demo_sv (conn_start demo_sv stat_init) demo_ios = Some (c, d, demo_effects)"
    and "co_pc c = Pc_done" "co_req_n c = 2"
  with connection_follows_protocol [OF run] show ?thesis by (auto simp: abs_conn_def demo_effects_def)
qed

text \<open>
  C6: the accounting of a connection. The number of accepted request headers is the number of
  final responses, plus one while a request is being received or answered. Every response but
  the last keeps the connection alive; when another header is being read, all of them did: a
  response that closes the connection is the last one. The end of the connection is recorded
  exactly once, when the coroutine is over, exceptions included.
\<close>

theorem connection_exchange:
  assumes "conn_run env cfg (conn_start cfg d0) ios = Some (c, d, xs)"
  shows "(co_pc c = Pc_header \<or> (\<exists>k. co_pc c = Pc_write k) \<longrightarrow> co_req_n c = of_nat (length (responses xs))) \<and>
    (co_pc c \<in> {Pc_continue, Pc_body} \<or> (\<exists>r. co_pc c = Pc_db r) \<longrightarrow>
       co_req_n c = of_nat (length (responses xs)) + 1) \<and>
    list_all res_keep_alive (butlast (responses xs)) \<and>
    (header_reads xs = length (responses xs) \<or>
     header_reads xs = Suc (length (responses xs)) \<and> list_all res_keep_alive (responses xs)) \<and>
    ends xs = (if co_pc c = Pc_done then 1 else 0)"
proof -
  have "exchange_inv (abs_conn c, xs)"
    using conn_run_reach [OF assms] by (rule exchange.reachable_inv)
  then show ?thesis
    by (cases "co_pc c") (auto simp: abs_conn_def Let_def list_all_butlast)
qed

theorem connection_exchange_witness:
  "\<exists>c d xs. conn_run demo_env demo_sv (conn_start demo_sv stat_init) demo_ios = Some (c, d, xs) \<and>
     length (responses xs) = 2 \<and> header_reads xs = 2 \<and> ends xs = 1"
proof (rule demo_runs)
  fix c d
  assume run: "conn_run demo_env demo_sv (conn_start demo_sv stat_init) demo_ios = Some (c, d, demo_effects)"
    and "co_pc c = Pc_done" "co_req_n c = 2"
  with connection_exchange [OF run] show ?thesis by (auto simp: demo_effects_def)
qed

text \<open>
  C7: with a configured limit of keep-alive requests, a connection never reads or answers
  more requests than the limit.
\<close>

theorem keepalive_limit:
  assumes "conn_run env cfg (conn_start cfg d0) ios = Some (c, d, xs)"
    and "sv_keepalive_requests cfg = Some m" and "m \<noteq> 0"
  shows "header_reads xs \<le> unat m \<and> length (responses xs) \<le> unat m"
proof -
  have "keepalive_inv cfg (abs_conn c, xs)"
    using conn_run_reach [OF assms(1)] by (rule keepalive.reachable_inv)
  with assms(2,3) show ?thesis
    by (cases "co_pc c") (auto simp: abs_conn_def keepalive_inv_def)
qed

theorem keepalive_limit_witness:
  "\<exists>c d xs. conn_run demo_env demo_sv (conn_start demo_sv stat_init) demo_ios = Some (c, d, xs) \<and>
     sv_keepalive_requests demo_sv = Some 2 \<and> header_reads xs \<le> 2"
proof (rule demo_runs)
  fix c d
  assume run: "conn_run demo_env demo_sv (conn_start demo_sv stat_init) demo_ios = Some (c, d, demo_effects)"
  have "sv_keepalive_requests demo_sv = Some 2" by (simp add: demo_sv_def)
  with keepalive_limit [OF run this] run show ?thesis by simp
qed



text \<open>
  One complete request to \<open>/echo\<close>, end to end: the answer returns the request body (only
  its length for \<open>HEAD\<close>), keeps the connection exactly when the client asks for it and the
  limit allows another request, is sent without a deadline, and the statistics count the
  request and the bytes received and sent.
\<close>

lemma echo_request_answered:
  assumes "payload_ok (he_beast env)" and "co_pc c = Pc_header" and "req_target rq = ''/echo''"
    and "\<not> bt_iequals (he_beast env) (req_field rq Fd_expect) ''100-continue''"
    and "sent = (if req_method rq = V_head then [] else req_body rq)"
  shows "\<exists>c' r. conn_step env cfg c d (Io_header Ec_none rq True) =
      Some (c', d\<lparr>st_requests := st_requests d + 1,
                  st_data_req := st_data_req d + of_nat (length (req_body rq)),
                  st_data_resp := st_data_resp d + of_nat (length sent)\<rparr>,
            [Eff_expires None, Eff_write r]) \<and>
    res_status r = 200 \<and> res_body r = sent \<and> res_content_length r = Some (length (req_body rq)) \<and>
    co_pc c' = Pc_write (res_keep_alive r) \<and>
    (res_keep_alive r \<longleftrightarrow> req_keep_alive rq \<and> may_keep cfg (co_req_n c + 1))"
proof -
  have st: "res_status (echo_handle_sync rq) = 200" and bd: "res_body (echo_handle_sync rq) = req_body rq"
    by (simp_all add: echo_handle_sync_def base_handle_sync_def mk_response_def set_field_def
        split: option.split)
  then have "bt_prepare_payload (he_beast env) (echo_handle_sync rq) =
      (echo_handle_sync rq)\<lparr>res_content_length := Some (length (req_body rq))\<rparr>"
    using assms(1) by (simp add: payload_ok_def)
  with assms(2-5) st bd show ?thesis
    by (simp add: conn_step_def after_header_def body_loop_def make_response_def handlers_def
        send_response_final final_response_def Let_def)
qed

theorem echo_request_answered_witness:
  "\<exists>c' d' r. conn_step demo_env demo_sv (fst (conn_start demo_sv stat_init)) stat_init
      (Io_header Ec_none ((demo_get ''xyz'')\<lparr>req_fields := Map.empty, req_method := V_head\<rparr>) True) =
        Some (c', d', [Eff_expires None, Eff_write r]) \<and>
     res_body r = [] \<and> res_content_length r = Some 3 \<and> co_pc c' = Pc_write True \<and> st_data_req d' = 3"
proof -
  let ?rq = "(demo_get ''xyz'')\<lparr>req_fields := Map.empty, req_method := V_head\<rparr>"
  have h: "payload_ok (he_beast demo_env)" "co_pc (fst (conn_start demo_sv stat_init)) = Pc_header"
    "req_target ?rq = ''/echo''" "\<not> bt_iequals (he_beast demo_env) (req_field ?rq Fd_expect) ''100-continue''"
    "[] = (if req_method ?rq = V_head then [] else req_body ?rq)"
    by (simp_all add: payload_ok_def demo_env_def demo_beast_def conn_start_def loop_head_def demo_get_def
        req_field_def same_nocase_def)
  show ?thesis
    using echo_request_answered [OF h, of demo_sv stat_init]
    by (auto simp: demo_get_def stat_init_def demo_sv_def may_keep_def conn_start_def loop_head_def)
qed

text \<open>
  A request whose body exceeds the limit, noticed in the headers or while the body is
  read, is answered with status 413 under the idle deadline and nothing else, whatever
  becomes of that answer; then the connection ends with that error and its stage.
\<close>

lemma too_large_answered:
  assumes "co_pc c = Pc_header \<and> io = Io_header Ec_body_limit rq bd \<and> stage = ''read_request_headers'' \<or>
    co_pc c = Pc_body \<and> io = Io_body Ec_body_limit rq bd \<and> stage = ''read_request_body''"
  shows "\<exists>c'. conn_run env cfg (c, d, xs) [io, Io_error_write ece] =
      Some (c', d, xs @ [Eff_expires (sv_idle_timeout cfg), Eff_write_error (mk_response 413 11),
                         Eff_end (co_req_n c) Ec_body_limit stage]) \<and> co_pc c' = Pc_done"
  using assms
  by (auto simp: conn_step_def abort_connection_def conn_end_def payload_too_large_def in_request_timeout_def)

theorem too_large_answered_witness:
  "\<exists>c' d. conn_run demo_env demo_sv (conn_start demo_sv stat_init)
      [Io_header Ec_body_limit (demo_get ''0123456789'') False, Io_error_write (Ec_other ''reset'')] =
        Some (c', d, [Eff_expires (Some 5), Eff_read_header None (Some 4), Eff_expires (Some 5),
          Eff_write_error (mk_response 413 11), Eff_end 0 Ec_body_limit ''read_request_headers''])"
proof -
  obtain c d where s: "conn_start demo_sv stat_init =
      (c, d, [Eff_expires (Some 5), Eff_read_header None (Some 4)])" "co_pc c = Pc_header" "co_req_n c = 0"
    by (simp add: conn_start_def loop_head_def demo_sv_def before_request_timeout_def)
  have idle: "sv_idle_timeout demo_sv = Some 5" by (simp add: demo_sv_def)
  let ?io = "Io_header Ec_body_limit (demo_get ''0123456789'') False"
  have "\<exists>c'. conn_run demo_env demo_sv (conn_start demo_sv stat_init) [?io, Io_error_write (Ec_other ''reset'')] =
      Some (c', d, [Eff_expires (Some 5), Eff_read_header None (Some 4)] @
        [Eff_expires (sv_idle_timeout demo_sv), Eff_write_error (mk_response 413 11),
         Eff_end (co_req_n c) Ec_body_limit ''read_request_headers'']) \<and> co_pc c' = Pc_done"
    unfolding s(1) using s(2) 
    by (intro too_large_answered [where rq = "demo_get ''0123456789''" and bd = False]) simp
  then show ?thesis unfolding idle s(3) append_Cons append_Nil by blast
qed

text \<open>
  What the constructor makes of the configuration. Zero or an absent value means
  unlimited, so no configured count is zero; the listen queue fits a C \<open>int\<close>; with a pool
  reserved for accepting, one worker pool less handles connections, and at least one does.
\<close>

lemma http_server_ctor_limits:
  assumes "0 < workers"
  shows "let sv = http_server_ctor cfg workers name version in
    sv_max_connections sv \<noteq> Some 0 \<and> sv_keepalive_requests sv \<noteq> Some 0 \<and>
    (case sv_listen_queue sv of None \<Rightarrow> True | Some q \<Rightarrow> 0 < unat q \<and> unat q \<le> 2 ^ 31 - 1) \<and>
    0 < sv_use_workers sv \<and> sv_use_workers sv \<le> workers \<and> workers \<le> sv_use_workers sv + 1"
  using assms
  by (auto simp: http_server_ctor_def nonzero_def Let_def word_le_nat_alt unat_gt_0 not_less
      split: option.split)

definition demo_configuration :: configuration where
  "demo_configuration = \<lparr>cfg_valid = True,
     cfg_data = empty_msg\<lparr>cm_http_server := Some \<lparr>hs_port = 8080, hs_listen_queue = 0, hs_max_connections = 0,
       hs_idle_timeout = f32_zero, hs_keepalive_timeout = f32_zero, hs_keepalive_requests = 0,
       hs_max_request_headers = 0, hs_max_request_body = 4294967296\<rparr>\<rparr>, cfg_log_level = None\<rparr>"

theorem http_server_ctor_limits_witness:
  "sv_use_workers (http_server_ctor demo_configuration 1 ''acppsrv'' ''0.1'') = 1"
  using http_server_ctor_limits [of 1 "demo_configuration" "''acppsrv''" "''0.1''"]
  by (simp add: Let_def)

text \<open>
  The limits of header and body size are configured as 64-bit numbers and kept in 32 bits:
  a configured body limit is honoured exactly when it is below \<open>2\<^sup>3\<^sup>2\<close>; for the multiples
  of \<open>2\<^sup>3\<^sup>2\<close> the limit given to the parser is 0.
\<close>

lemma body_limit_kept_in_32_bits:
  assumes "cm_http_server (cfg_data cfg) = Some http" and "hs_max_request_body http \<noteq> 0"
  shows "\<exists>l. sv_max_request_body (http_server_ctor cfg workers name version) = Some l \<and>
    unat l = unat (hs_max_request_body http) mod 2 ^ 32 \<and>
    (unat l = unat (hs_max_request_body http) \<longleftrightarrow> unat (hs_max_request_body http) < 2 ^ 32)"
proof -
  have "unat (ucast v :: u32) = unat v mod 2 ^ 32" for v :: u64
    by (simp add: unsigned_ucast_eq take_bit_eq_mod)
  with assms show ?thesis
    by (auto simp: http_server_ctor_def nonzero64_def Let_def)
qed

theorem body_limit_kept_in_32_bits_witness:
  "sv_max_request_body (http_server_ctor demo_configuration 1 ''acppsrv'' ''0.1'') = Some 0"
proof -
  let ?http = "\<lparr>hs_port = 8080, hs_listen_queue = 0, hs_max_connections = 0,
       hs_idle_timeout = f32_zero, hs_keepalive_timeout = f32_zero, hs_keepalive_requests = 0,
       hs_max_request_headers = 0, hs_max_request_body = 4294967296\<rparr>"
  have h: "cm_http_server (cfg_data demo_configuration) = Some ?http" "hs_max_request_body ?http \<noteq> 0"
    by (simp_all add: demo_configuration_def)
  obtain l where "sv_max_request_body (http_server_ctor demo_configuration 1 ''acppsrv'' ''0.1'') = Some l"
    "unat l = 0"
    using body_limit_kept_in_32_bits [OF h, of 1 "''acppsrv''" "''0.1''"] by auto
  then show ?thesis by (simp add: unat_eq_zero)
qed

text \<open>
  Only an asynchronous handler suspends a connection. When the request is complete, the
  coroutine waits for the database exactly if the handler of the path is asynchronous and
  the body can be parsed, and then it posts that one request; in every other case, unknown
  paths included, the response is written in the same turn, without a deadline.
\<close>

lemma only_async_suspends:
  assumes "make_response env cfg (c, d, []) = (c', d', es)"
  shows "if (\<exists>h. handlers (req_target (co_request c)) = Some h \<and> handler_async h) \<and>
        fst (parse (he_beast env) (he_db_de env) (co_request c)) \<noteq> None
    then (\<exists>resp rq. co_pc c' = Pc_db resp \<and> es = [Eff_post_db rq] \<and>
      fst (parse (he_beast env) (he_db_de env) (co_request c)) = Some rq)
    else (\<exists>r. co_pc c' = Pc_write (res_keep_alive r) \<and> es = [Eff_expires None, Eff_write r])"
proof -
  let ?t = "req_target (co_request c)"
  have h: "(\<exists>h. handlers ?t = Some h \<and> handler_async h) \<longleftrightarrow> handlers ?t = Some H_db"
  proof -
    have "handler_async h \<longleftrightarrow> h = H_db" for h by (cases h) simp_all
    then show ?thesis by auto
  qed
  show ?thesis unfolding h
    using assms
    by (auto simp: make_response_def db_handle_begin_def send_response_final Let_def
        split: option.splits handler_kind.splits prod.splits sum.splits)
qed

theorem only_async_suspends_witness:
  "\<exists>c' d' r. make_response demo_env demo_sv ((fst (conn_start demo_sv stat_init))\<lparr>co_request := demo_get ''ab''\<rparr>, stat_init, []) =
     (c', d', [Eff_expires None, Eff_write r])"
proof -
  let ?c = "(fst (conn_start demo_sv stat_init))\<lparr>co_request := demo_get ''ab''\<rparr>"
  obtain c' d' es where m: "make_response demo_env demo_sv (?c, stat_init, []) = (c', d', es)"
    by (cases "make_response demo_env demo_sv (?c, stat_init, [])")
  have "\<not> (\<exists>h. handlers (req_target (co_request ?c)) = Some h \<and> handler_async h)"
    by (simp add: demo_get_def handlers_def)
  with only_async_suspends [OF m] m show ?thesis by (auto split: if_splits)
qed

end
