(* ===== verification/Http_Server.thy ===== *)
theory Http_Server
  imports Http_Connection
begin

text \<open>
  The accepting side of \<open>http_server\<close> (\<^verbatim>\<open>src/http_server.cpp\<close>): \<open>run\<close>, the
  coroutine \<open>accept_loop\<close>, the limit of active connections with its suspended handler
  (\<open>conn_limit\<close>, \<open>conn_limit_init\<close>, \<open>active_connection_end\<close>), and the whole server as
  a step relation in which the acceptor and all connections interleave. The mutex makes the test
  of the limit together with the registration of the handler one step, and the end of a
  connection another; a step of a connection runs its coroutine between two suspensions.
\<close>

section \<open>Starting to listen\<close>

text \<open>What the socket calls of \<open>run\<close> answer: \<open>open\<close> is the throwing overload.\<close>

record acceptor_api =
  aa_open_throws :: "string option"
  aa_set_option :: error_code
  aa_bind :: "u16 \<Rightarrow> error_code"
  aa_listen :: "int \<Rightarrow> error_code"

datatype listen_action = La_open | La_reuse_address | La_bind u16 | La_listen int | La_spawn_accept_loop

text \<open>
  \<open>max_listen\<close> is \<open>max_listen_connections\<close> of the library. The local error code of \<open>run\<close> is
  still clear when it is tested after \<open>open\<close>.
\<close>

definition http_server_run :: "acceptor_api \<Rightarrow> int \<Rightarrow> server_cfg \<Rightarrow> bool outcome \<times> listen_action list" where
  "http_server_run api max_listen cfg =
     (let q = to_int32 (case sv_listen_queue cfg of None \<Rightarrow> max_listen | Some q \<Rightarrow> int (unat q))
      in case aa_open_throws api of Some what \<Rightarrow> (Throw (Other_exn what), [La_open]) | None \<Rightarrow>
         if aa_set_option api \<noteq> Ec_none then (Ok False, [La_open, La_reuse_address])
         else if aa_bind api (sv_port cfg) \<noteq> Ec_none then
           (Ok False, [La_open, La_reuse_address, La_bind (sv_port cfg)])
         else if aa_listen api q \<noteq> Ec_none then
           (Ok False, [La_open, La_reuse_address, La_bind (sv_port cfg), La_listen q])
         else (Ok True,
           [La_open, La_reuse_address, La_bind (sv_port cfg), La_listen q, La_spawn_accept_loop]))"

section \<open>State\<close>

text \<open>Where the acceptor is: about to test the limit, suspended by it, accepting, or gone.\<close>

datatype acc_pc = Acc_limit | Acc_wait | Acc_accept | Acc_dead

text \<open>A connection handed to a worker pool; its coroutine starts later (\<open>None\<close> until then).\<close>

record connection_task =
  cn_sid :: u64
  cn_worker :: nat
  cn_run :: "conn option"

record server =
  sr_acc :: acc_pc
  sr_worker_i :: nat
  sr_active :: u64
  sr_hnd :: bool
  sr_posted :: bool
  sr_session :: u64
  sr_conns :: "connection_task list"
  sr_stat :: stat_data

text \<open>What \<open>async_accept\<close> and the queries of the peer address answer.\<close>

datatype accept_result =
    Accept_failed
  | No_client_address
  | Accepted
  | Accepted_gone \<comment> \<open>the second, throwing \<open>remote_endpoint()\<close> finds the peer gone\<close>

section \<open>Operations\<close>

definition at_limit :: "server_cfg \<Rightarrow> u64 \<Rightarrow> bool" where
  "at_limit cfg n \<longleftrightarrow> (case sv_max_connections cfg of None \<Rightarrow> False | Some m \<Rightarrow> ucast m \<le> n)"

definition conn_limit :: "server_cfg \<Rightarrow> server \<Rightarrow> server" where
  "conn_limit cfg s =
     (if at_limit cfg (sr_active s) then s\<lparr>sr_hnd := True, sr_acc := Acc_wait\<rparr>
      else s\<lparr>sr_acc := Acc_accept\<rparr>)"

definition active_connection_end :: "server_cfg \<Rightarrow> server \<Rightarrow> server" where
  "active_connection_end cfg s =
     (let s = s\<lparr>sr_active := sr_active s - 1\<rparr>
      in if sv_max_connections cfg \<noteq> None \<and> \<not> at_limit cfg (sr_active s) \<and> sr_hnd s
         then s\<lparr>sr_hnd := False, sr_posted := True\<rparr> else s)"

definition next_worker :: "server_cfg \<Rightarrow> nat \<Rightarrow> nat" where
  "next_worker cfg i = (i + 1) mod sv_use_workers cfg"

fun accept_done :: "server_cfg \<Rightarrow> accept_result \<Rightarrow> server \<Rightarrow> server" where
  "accept_done cfg Accepted s =
     s\<lparr>sr_active := sr_active s + 1, sr_session := sr_session s + 1,
       sr_conns := sr_conns s @ [\<lparr>cn_sid = sr_session s, cn_worker = sr_worker_i s, cn_run = None\<rparr>],
       sr_worker_i := next_worker cfg (sr_worker_i s), sr_acc := Acc_limit\<rparr>"
| "accept_done cfg Accepted_gone s =
     s\<lparr>sr_active := sr_active s + 1, sr_session := sr_session s + 1, sr_acc := Acc_dead\<rparr>"
| "accept_done cfg _ s =
     s\<lparr>sr_worker_i := next_worker cfg (sr_worker_i s), sr_acc := Acc_limit\<rparr>"

text \<open>What the end of a connection does to the server; the other effects concern its stream.\<close>

fun server_effect :: "server_cfg \<Rightarrow> effect \<Rightarrow> server \<Rightarrow> server" where
  "server_effect cfg (Eff_end n ec stage) s = active_connection_end cfg s"
| "server_effect cfg _ s = s"

definition conn_task_step :: "server_cfg \<Rightarrow> connection_task list \<Rightarrow> connection_task \<Rightarrow>
    connection_task list \<Rightarrow> point \<Rightarrow> server \<Rightarrow> server" where
  "conn_task_step cfg ks k ls p s =
     (case p of (c, d, es) \<Rightarrow>
        fold (server_effect cfg) es
          (s\<lparr>sr_stat := d,
             sr_conns := ks @ (if co_pc c = Pc_done then [] else [k\<lparr>cn_run := Some c\<rparr>]) @ ls\<rparr>))"

definition server_init :: "server \<Rightarrow> bool" where
  "server_init s \<longleftrightarrow> s = \<lparr>sr_acc = Acc_limit, sr_worker_i = 0, sr_active = 0, sr_hnd = False,
     sr_posted = False, sr_session = 0, sr_conns = [], sr_stat = stat_init\<rparr>"

inductive server_step :: "http_env \<Rightarrow> server_cfg \<Rightarrow> server \<Rightarrow> server \<Rightarrow> bool" for env cfg where
  ss_limit: "sr_acc s = Acc_limit \<Longrightarrow> server_step env cfg s (conn_limit cfg s)"
| ss_resume: "sr_acc s = Acc_wait \<Longrightarrow> sr_posted s \<Longrightarrow>
    server_step env cfg s (s\<lparr>sr_posted := False, sr_acc := Acc_accept\<rparr>)"
| ss_accept: "sr_acc s = Acc_accept \<Longrightarrow> server_step env cfg s (accept_done cfg r s)"
| ss_start: "sr_conns s = ks @ k # ls \<Longrightarrow> cn_run k = None \<Longrightarrow>
    server_step env cfg s (conn_task_step cfg ks k ls (conn_start cfg (sr_stat s)) s)"
| ss_conn: "sr_conns s = ks @ k # ls \<Longrightarrow> cn_run k = Some c \<Longrightarrow>
    conn_step env cfg c (sr_stat s) io = Some p \<Longrightarrow>
    server_step env cfg s (conn_task_step cfg ks k ls p s)"

section \<open>Invariant\<close>

definition counted :: "server \<Rightarrow> nat" where
  "counted s = length (sr_conns s) + (if sr_acc s = Acc_dead then 1 else 0)"

text \<open>A limit that is set is positive, and connections go to existing pools.\<close>

definition server_cfg_ok :: "server_cfg \<Rightarrow> bool" where
  "server_cfg_ok cfg \<longleftrightarrow> sv_max_connections cfg \<noteq> Some 0 \<and> 0 < sv_use_workers cfg"

definition below_limit :: "server_cfg \<Rightarrow> nat \<Rightarrow> bool" where
  "below_limit cfg n \<longleftrightarrow> (case sv_max_connections cfg of None \<Rightarrow> True | Some m \<Rightarrow> n \<le> unat m)"

definition server_inv :: "server_cfg \<Rightarrow> server \<Rightarrow> bool" where
  "server_inv cfg s \<longleftrightarrow>
     sr_active s = of_nat (counted s) \<and>
     below_limit cfg (counted s + (if sr_acc s = Acc_accept then 1 else 0)) \<and>
     (sr_acc s = Acc_wait \<longleftrightarrow> sr_hnd s \<noteq> sr_posted s) \<and> \<not> (sr_hnd s \<and> sr_posted s) \<and>
     (sr_hnd s \<longrightarrow> at_limit cfg (sr_active s)) \<and>
     (sr_posted s \<longrightarrow> below_limit cfg (counted s + 1)) \<and>
     sr_worker_i s < sv_use_workers cfg \<and>
     list_all (\<lambda>k. cn_worker k < sv_use_workers cfg \<and>
       (case cn_run k of None \<Rightarrow> True | Some c \<Rightarrow> co_pc c \<noteq> Pc_done)) (sr_conns s)"

section \<open>Lemmas\<close>

lemma fold_server_effect:
  "fold (server_effect cfg) es s = (active_connection_end cfg ^^ ends es) s"
proof (induction es arbitrary: s)
  case (Cons e es)
  then show ?case by (cases e) (simp_all add: funpow_swap1)
qed simp

lemma protocol_ends: "protocol cfg s ys t \<Longrightarrow> ends ys = (if fst t = Ph_closed then 1 else 0)"
  by (induction rule: protocol.induct) simp_all

lemma phase_closed: "phase_of pc = Ph_closed \<longleftrightarrow> pc = Pc_done"
  by (cases pc) simp_all

lemma conn_step_ends:
  "conn_step env cfg c d io = Some (c', d', ys) \<Longrightarrow> ends ys = (if co_pc c' = Pc_done then 1 else 0)"
  by (drule conn_step_protocol, drule protocol_ends) (simp add: abs_conn_def phase_closed)

lemma conn_start_facts:
  "conn_start cfg d = (c, d', ys) \<Longrightarrow> ends ys = 0 \<and> co_pc c = Pc_header"
  by (auto simp: conn_start_def loop_head_def before_request_timeout_def)

text \<open>A turn of a connection either leaves the server as it is or ends the connection.\<close>

lemma conn_task_cases:
  assumes "ends es = (if co_pc c = Pc_done then 1 else 0)"
  shows "conn_task_step cfg ks k ls (c, d, es) s =
    (if co_pc c = Pc_done then active_connection_end cfg (s\<lparr>sr_stat := d, sr_conns := ks @ ls\<rparr>)
     else s\<lparr>sr_stat := d, sr_conns := ks @ k\<lparr>cn_run := Some c\<rparr> # ls\<rparr>)"
  using assms by (simp add: conn_task_step_def fold_server_effect)

inductive_cases server_stepE: "server_step env cfg s t"

text \<open>The counter and the limit, without wrap-around below a limit.\<close>

lemma at_limit_of_nat:
  assumes "below_limit cfg n"
  shows "at_limit cfg (of_nat n) \<longleftrightarrow> sv_max_connections cfg \<noteq> None \<and> \<not> below_limit cfg (n + 1)"
proof (cases "sv_max_connections cfg")
  case (Some m)
  have "unat m < 2 ^ 32" using unsigned_less [of m, where ?'a = nat] by simp
  with assms Some have "n < 2 ^ 64" by (simp add: below_limit_def)
  then have "unat (of_nat n :: u64) = n" by (simp add: unsigned_of_nat take_bit_nat_eq_self_iff)
  with Some show ?thesis by (auto simp: at_limit_def below_limit_def word_le_nat_alt)
qed (simp add: at_limit_def below_limit_def)

lemma below_limit_mono: "below_limit cfg n \<Longrightarrow> m \<le> n \<Longrightarrow> below_limit cfg m"
  by (auto simp: below_limit_def split: option.splits)

lemma server_inv_init: "server_cfg_ok cfg \<Longrightarrow> server_init s \<Longrightarrow> server_inv cfg s"
  by (auto simp: server_init_def server_inv_def server_cfg_ok_def counted_def below_limit_def
      split: option.splits)

lemma server_inv_limit:
  assumes inv: "server_inv cfg s" and "sr_acc s = Acc_limit"
  shows "server_inv cfg (conn_limit cfg s)"
  using assms at_limit_of_nat [of cfg "counted s"]
  by (auto simp: server_inv_def conn_limit_def counted_def below_limit_def split: option.splits)

lemma server_inv_resume:
  "server_inv cfg s \<Longrightarrow> sr_acc s = Acc_wait \<Longrightarrow> sr_posted s \<Longrightarrow>
    server_inv cfg (s\<lparr>sr_posted := False, sr_acc := Acc_accept\<rparr>)"
  by (auto simp: server_inv_def counted_def)

lemma server_inv_accept:
  assumes "server_cfg_ok cfg" and "server_inv cfg s" and "sr_acc s = Acc_accept"
  shows "server_inv cfg (accept_done cfg r s)"
proof -
  have "next_worker cfg i < sv_use_workers cfg" for i
    using assms(1) by (simp add: next_worker_def server_cfg_ok_def)
  with assms(2,3) show ?thesis
    by (cases r) (auto simp: server_inv_def counted_def intro: below_limit_mono)
qed

lemma end_below_limit:
  assumes inv: "server_inv cfg s" and conns: "sr_conns s = ks @ k # ls"
  shows "\<not> at_limit cfg (sr_active s - 1)"
proof -
  let ?n = "length (ks @ ls) + (if sr_acc s = Acc_dead then 1 else 0)"
  have n: "counted s = ?n + 1" using conns by (simp add: counted_def)
  have "below_limit cfg (?n + 1)" "below_limit cfg ?n"
    using inv n by (auto simp: server_inv_def intro: below_limit_mono)
  then have "\<not> at_limit cfg (of_nat ?n)" using at_limit_of_nat by blast
  moreover have "sr_active s - 1 = of_nat ?n" using inv n by (simp add: server_inv_def)
  ultimately show ?thesis by simp
qed

text \<open>A connection that ends always wakes the acceptor when it is suspended.\<close>

lemma active_connection_end_wakes:
  assumes inv: "server_inv cfg s" and conns: "sr_conns s = ks @ k # ls"
  shows "active_connection_end cfg (s\<lparr>sr_stat := d, sr_conns := ks @ ls\<rparr>) =
    s\<lparr>sr_stat := d, sr_conns := ks @ ls, sr_active := sr_active s - 1, sr_hnd := False,
      sr_posted := sr_posted s \<or> sr_hnd s\<rparr>"
proof -
  have "sr_hnd s \<Longrightarrow> sv_max_connections cfg \<noteq> None"
    using inv by (auto simp: server_inv_def at_limit_def split: option.splits)
  with end_below_limit [OF assms] show ?thesis
    by (cases "sr_hnd s") (simp_all add: active_connection_end_def Let_def)
qed

lemma server_inv_end:
  assumes inv: "server_inv cfg s" and conns: "sr_conns s = ks @ k # ls"
  shows "server_inv cfg (active_connection_end cfg (s\<lparr>sr_stat := d, sr_conns := ks @ ls\<rparr>))"
proof -
  let ?n = "length (ks @ ls) + (if sr_acc s = Acc_dead then 1 else 0)"
  have n: "counted s = ?n + 1" using conns by (simp add: counted_def)
  have bl: "below_limit cfg (?n + 1)" "below_limit cfg ?n"
    "sr_acc s = Acc_accept \<Longrightarrow> below_limit cfg (?n + 1)"
    using inv n by (auto simp: server_inv_def intro: below_limit_mono)
  have act: "sr_active s - 1 = of_nat ?n" using inv n by (simp add: server_inv_def)
  have rest: "sr_acc s = Acc_wait \<longleftrightarrow> sr_hnd s \<noteq> sr_posted s" "\<not> (sr_hnd s \<and> sr_posted s)"
    "sr_worker_i s < sv_use_workers cfg"
    "list_all (\<lambda>k. cn_worker k < sv_use_workers cfg \<and>
       (case cn_run k of None \<Rightarrow> True | Some c \<Rightarrow> co_pc c \<noteq> Pc_done)) (ks @ ls)"
    using inv conns by (simp_all add: server_inv_def)
  show ?thesis
    unfolding active_connection_end_wakes [OF assms] server_inv_def counted_def
    using bl act rest by auto
qed

lemma server_inv_task:
  assumes "server_inv cfg s" and "sr_conns s = ks @ k # ls"
    and "ends es = (if co_pc c = Pc_done then 1 else 0)"
  shows "server_inv cfg (conn_task_step cfg ks k ls (c, d, es) s)"
proof (cases "co_pc c = Pc_done")
  case True
  with assms show ?thesis by (simp add: conn_task_cases server_inv_end)
next
  case False
  with assms show ?thesis by (auto simp: conn_task_cases server_inv_def counted_def)
qed

lemma server_inv_step:
  assumes "server_cfg_ok cfg" and inv: "server_inv cfg s" and "server_step env cfg s t"
  shows "server_inv cfg t"
  using assms(3)
proof cases
  case (ss_start ks k ls)
  obtain c d ys where p: "conn_start cfg (sr_stat s) = (c, d, ys)" by (cases "conn_start cfg (sr_stat s)")
  from conn_start_facts [OF p] show ?thesis
    unfolding ss_start(1) p by (intro server_inv_task [OF inv ss_start(2)]) simp
next
  case (ss_conn ks k ls c io p)
  obtain c' d ys where p: "p = (c', d, ys)" by (cases p)
  from conn_step_ends [OF ss_conn(4) [unfolded p]] show ?thesis
    unfolding ss_conn(1) p by (rule server_inv_task [OF inv ss_conn(2)])
qed (use assms in \<open>auto intro: server_inv_limit server_inv_resume server_inv_accept\<close>)

lemma waiting_step_end:
  assumes inv: "server_inv cfg s" and wait: "sr_acc s = Acc_wait"
    and step: "server_step env cfg s t" and less: "length (sr_conns t) < length (sr_conns s)"
  shows "sr_acc t = Acc_wait \<and> sr_posted t \<and> \<not> sr_hnd t"
  using step
proof cases
  case (ss_start ks k ls)
  obtain c d ys where p: "conn_start cfg (sr_stat s) = (c, d, ys)" by (cases "conn_start cfg (sr_stat s)")
  from conn_start_facts [OF p] less ss_start show ?thesis
    unfolding ss_start(1) p by (simp add: conn_task_cases)
next
  case (ss_conn ks k ls c io p)
  obtain c' d ys where p: "p = (c', d, ys)" by (cases p)
  note t = conn_task_cases [OF conn_step_ends [OF ss_conn(4) [unfolded p]], where cfg = cfg and ks = ks and k = k and ls = ls and s = s]
  have "co_pc c' = Pc_done"
    using less ss_conn(1,2) unfolding p by (auto simp: t split: if_splits)
  with ss_conn(1) t active_connection_end_wakes [OF inv ss_conn(2)] inv wait show ?thesis
    unfolding p by (auto simp: server_inv_def)
qed (use wait less in auto)

interpretation accepting: invariant_system server_init "server_step env cfg"
    "\<lambda>s. server_cfg_ok cfg \<longrightarrow> server_inv cfg s" for env cfg
  by unfold_locales (auto intro: server_inv_init server_inv_step)

text \<open>Session numbers, as long as the 64-bit counter does not come round to zero.\<close>

definition session_inv :: "server \<Rightarrow> bool" where
  "session_inv s \<longleftrightarrow> distinct (map cn_sid (sr_conns s)) \<and>
     list_all (\<lambda>k. cn_sid k < sr_session s) (sr_conns s)"

definition unwrapped_step :: "http_env \<Rightarrow> server_cfg \<Rightarrow> server \<Rightarrow> server \<Rightarrow> bool" where
  "unwrapped_step env cfg s t \<longleftrightarrow> server_step env cfg s t \<and> sr_session s + 1 \<noteq> 0"

lemma session_frame:
  "session_inv (active_connection_end cfg s) = session_inv s"
  "session_inv (conn_limit cfg s) = session_inv s"
  "session_inv (s\<lparr>sr_posted := b, sr_acc := a\<rparr>) = session_inv s"
  by (simp_all add: session_inv_def active_connection_end_def conn_limit_def Let_def)

lemma session_inv_fold: "session_inv (fold (server_effect cfg) es s) = session_inv s"
proof (induction es arbitrary: s)
  case (Cons e es)
  then show ?case by (cases e) (simp_all add: session_frame)
qed simp

lemma session_inv_task:
  assumes "session_inv s" and "sr_conns s = ks @ k # ls"
  shows "session_inv (conn_task_step cfg ks k ls p s)"
proof -
  obtain c d es where p: "p = (c, d, es)" by (cases p)
  show ?thesis unfolding p conn_task_step_def prod.case session_inv_fold
    using assms by (auto simp: session_inv_def)
qed

lemma word_less_plus_1: "n + 1 \<noteq> (0 :: u64) \<Longrightarrow> n < n + 1"
  by (metis word_less_nat_alt unatSuc add.commute lessI)

lemma session_inv_accept:
  assumes "session_inv s" and "sr_session s + 1 \<noteq> 0"
  shows "session_inv (accept_done cfg r s)"
proof -
  have "x < sr_session s + 1" if "x < sr_session s" for x
    using that word_less_plus_1 [OF assms(2)] by (rule less_trans)
  with assms word_less_plus_1 [OF assms(2)] show ?thesis
    by (cases r) (auto simp: session_inv_def list_all_iff)
qed

interpretation sessions: invariant_system server_init "unwrapped_step env cfg" session_inv for env cfg
proof
  fix s assume "server_init s"
  then show "session_inv s" by (simp add: server_init_def session_inv_def)
next
  fix s t assume inv: "session_inv s" and "unwrapped_step env cfg s t"
  then have "server_step env cfg s t" "sr_session s + 1 \<noteq> 0" by (simp_all add: unwrapped_step_def)
  then show "session_inv t"
    by cases (use inv in \<open>auto simp: session_frame intro: session_inv_accept session_inv_task\<close>)
qed

text \<open>Two clients fill a server with a limit of two connections; then the acceptor waits.\<close>

definition demo_idle :: server where
  "demo_idle = \<lparr>sr_acc = Acc_limit, sr_worker_i = 0, sr_active = 0, sr_hnd = False,
     sr_posted = False, sr_session = 0, sr_conns = [], sr_stat = stat_init\<rparr>"

definition demo_accept :: "server \<Rightarrow> server" where
  "demo_accept s = accept_done demo_sv Accepted (conn_limit demo_sv s)"

definition demo_full :: server where
  "demo_full = conn_limit demo_sv (demo_accept (demo_accept demo_idle))"

lemmas demo_server_simps = demo_full_def demo_accept_def demo_idle_def conn_limit_def at_limit_def
  demo_sv_def next_worker_def word_le_nat_alt

lemma demo_accept_unwrapped:
  assumes "reach server_init (unwrapped_step demo_env demo_sv) s" and "sr_acc s = Acc_limit"
    and "\<not> at_limit demo_sv (sr_active s)" and "sr_session s + 1 \<noteq> 0"
  shows "reach server_init (unwrapped_step demo_env demo_sv) (demo_accept s)"
proof -
  have "unwrapped_step demo_env demo_sv s (conn_limit demo_sv s)"
    using assms(2,4) by (simp add: unwrapped_step_def ss_limit)
  with assms(1) have r: "reach server_init (unwrapped_step demo_env demo_sv) (conn_limit demo_sv s)"
    by (rule reach_step)
  have "unwrapped_step demo_env demo_sv (conn_limit demo_sv s) (demo_accept s)"
    using assms(3,4) ss_accept [of "conn_limit demo_sv s" demo_env demo_sv Accepted]
    unfolding unwrapped_step_def demo_accept_def by (simp add: conn_limit_def)
  with r show ?thesis by (rule reach_step)
qed

lemma demo_full_unwrapped: "reach server_init (unwrapped_step demo_env demo_sv) demo_full"
proof -
  have "reach server_init (unwrapped_step demo_env demo_sv) demo_idle"
    by (rule reach_init) (simp add: server_init_def demo_idle_def)
  then have "reach server_init (unwrapped_step demo_env demo_sv) (demo_accept demo_idle)"
    by (rule demo_accept_unwrapped) (simp_all add: demo_server_simps)
  then have r: "reach server_init (unwrapped_step demo_env demo_sv) (demo_accept (demo_accept demo_idle))"
    by (rule demo_accept_unwrapped) (simp_all add: demo_server_simps)
  have "unwrapped_step demo_env demo_sv (demo_accept (demo_accept demo_idle)) demo_full"
    unfolding unwrapped_step_def demo_full_def
    by (intro conjI ss_limit) (simp_all add: demo_server_simps)
  with r show ?thesis by (rule reach_step)
qed

lemma unwrapped_reach:
  "reach server_init (unwrapped_step env cfg) s \<Longrightarrow> reach server_init (server_step env cfg) s"
  by (induction rule: reach.induct) (auto simp: unwrapped_step_def intro: reach_init reach_step)

lemma demo_server_cfg_ok: "server_cfg_ok demo_sv"
  by (simp add: server_cfg_ok_def demo_sv_def)

section \<open>Properties\<close>

text \<open>
  C4: whatever the interleaving of the acceptor and the connections, at most
  \<open>max_connections\<close> connections are open, the counter of active connections is their number
  (one more once the acceptor has died from an exception after counting), and every
  connection runs on one of the pools that handle connections.
\<close>

theorem connection_limit:
  assumes "server_cfg_ok cfg" and "reach server_init (server_step env cfg) s"
  shows "(case sv_max_connections cfg of None \<Rightarrow> True | Some m \<Rightarrow> length (sr_conns s) \<le> unat m) \<and>
    sr_active s = of_nat (length (sr_conns s) + (if sr_acc s = Acc_dead then 1 else 0)) \<and>
    list_all (\<lambda>k. cn_worker k < sv_use_workers cfg) (sr_conns s)"
proof -
  have "server_inv cfg s" using accepting.reachable_inv [OF assms(2)] assms(1) by blast
  then show ?thesis
    by (auto simp: server_inv_def counted_def below_limit_def list_all_iff split: option.splits if_splits)
qed

theorem connection_limit_witness:
  "length (sr_conns demo_full) = 2 \<and> sr_active demo_full = 2 \<and>
   list_all (\<lambda>k. cn_worker k < 1) (sr_conns demo_full)"
  using connection_limit [OF demo_server_cfg_ok unwrapped_reach [OF demo_full_unwrapped]]
  by (simp add: demo_server_simps)

text \<open>
  C5: no wake-up is lost. An acceptor suspended by the limit either has its handler already
  posted, or the limit is really reached by open connections; and whenever one of them ends
  while the acceptor is suspended, the handler is posted, after which accepting continues.
\<close>

theorem acceptor_not_lost:
  assumes "server_cfg_ok cfg" and "reach server_init (server_step env cfg) s" and "sr_acc s = Acc_wait"
  shows "(sr_posted s \<or> (\<exists>m. sv_max_connections cfg = Some m \<and> length (sr_conns s) = unat m \<and> 0 < unat m)) \<and>
    (\<forall>t. server_step env cfg s t \<and> length (sr_conns t) < length (sr_conns s) \<longrightarrow>
       sr_acc t = Acc_wait \<and> sr_posted t \<and> \<not> sr_hnd t \<and>
       server_step env cfg t (t\<lparr>sr_posted := False, sr_acc := Acc_accept\<rparr>))"
proof -
  have inv: "server_inv cfg s" using accepting.reachable_inv [OF assms(2)] assms(1) by blast
  have "sr_posted s \<or> (\<exists>m. sv_max_connections cfg = Some m \<and> length (sr_conns s) = unat m \<and> 0 < unat m)"
  proof (cases "sr_posted s")
    case False
    with inv assms(3) have "sr_hnd s" "below_limit cfg (counted s)" "at_limit cfg (of_nat (counted s))"
      by (auto simp: server_inv_def)
    moreover obtain m where "sv_max_connections cfg = Some m"
      using \<open>at_limit cfg (of_nat (counted s))\<close> by (auto simp: at_limit_def split: option.splits)
    ultimately show ?thesis
      using assms(1,3) at_limit_of_nat [of cfg "counted s"]
      by (auto simp: counted_def below_limit_def server_cfg_ok_def unat_gt_0)
  qed simp
  moreover have "sr_acc t = Acc_wait \<and> sr_posted t \<and> \<not> sr_hnd t \<and>
      server_step env cfg t (t\<lparr>sr_posted := False, sr_acc := Acc_accept\<rparr>)"
    if step: "server_step env cfg s t" and less: "length (sr_conns t) < length (sr_conns s)" for t
  proof -
    from waiting_step_end [OF inv assms(3) step less] show ?thesis
      by (auto intro: ss_resume)
  qed
  ultimately show ?thesis by blast
qed

theorem acceptor_not_lost_witness:
  "sr_acc demo_full = Acc_wait \<and> \<not> sr_posted demo_full \<and>
   (\<exists>t. server_step demo_env demo_sv demo_full t) \<and>
   (\<exists>m. sv_max_connections demo_sv = Some m \<and> length (sr_conns demo_full) = unat m \<and> 0 < unat m)"
proof -
  have w: "sr_acc demo_full = Acc_wait" "\<not> sr_posted demo_full" by (simp_all add: demo_server_simps)
  have "sr_conns demo_full = [] @ hd (sr_conns demo_full) # tl (sr_conns demo_full)"
    "cn_run (hd (sr_conns demo_full)) = None"
    by (simp_all add: demo_server_simps)
  then have "\<exists>t. server_step demo_env demo_sv demo_full t" by (blast intro: ss_start)
  with acceptor_not_lost [OF demo_server_cfg_ok unwrapped_reach [OF demo_full_unwrapped] w(1)] w
  show ?thesis by blast
qed

text \<open>
  Sessions are told apart: as long as fewer than \<open>2\<^sup>6\<^sup>4\<close> connections have been accepted,
  the session numbers of the open connections are pairwise different.
\<close>

lemma session_numbers_distinct:
  assumes "reach server_init (unwrapped_step env cfg) s"
  shows "distinct (map cn_sid (sr_conns s))"
  using sessions.reachable_inv [OF assms] by (simp add: session_inv_def)

theorem session_numbers_distinct_witness:
  "map cn_sid (sr_conns demo_full) = [0, 1] \<and> distinct (map cn_sid (sr_conns demo_full))"
  using session_numbers_distinct [OF demo_full_unwrapped] by (simp add: demo_server_simps)

text \<open>
  C36: \<open>run\<close> reports success exactly when every socket call succeeds, and then, and only
  then, starts the accept loop, with a queue length that is never negative; a failure of
  \<open>open\<close> is not reported as a failure of \<open>run\<close> but leaves it as an exception, although the
  code tests for it.
\<close>

theorem http_server_run_spec:
  assumes "sv = http_server_ctor cfg workers name version" and "0 \<le> max_listen" and "max_listen \<le> int32_max"
    and "http_server_run api max_listen sv = (r, acts)"
  shows "(r = Ok True \<longleftrightarrow> La_spawn_accept_loop \<in> set acts) \<and>
    (r = Ok True \<longleftrightarrow> aa_open_throws api = None \<and> aa_set_option api = Ec_none \<and>
       aa_bind api (http_port cfg) = Ec_none \<and>
       (\<exists>q. 0 \<le> q \<and> acts = [La_open, La_reuse_address, La_bind (http_port cfg), La_listen q, La_spawn_accept_loop] \<and>
          aa_listen api q = Ec_none)) \<and>
    (\<forall>what. aa_open_throws api = Some what \<longrightarrow> r = Throw (Other_exn what) \<and> acts = [La_open])"
proof -
  have port: "sv_port sv = http_port cfg"
    using assms(1) by (simp add: http_server_ctor_def Let_def split: option.split)
  have u: "unat q \<le> 2147483647" if "sv_listen_queue sv = Some q" for q
    using assms(1) that
    by (auto simp: http_server_ctor_def Let_def word_le_nat_alt not_less split: option.splits if_splits)
  have q: "0 \<le> to_int32 (case sv_listen_queue sv of None \<Rightarrow> max_listen | Some q \<Rightarrow> int (unat q))"
  proof (cases "sv_listen_queue sv")
    case None
    with assms(2,3) show ?thesis by (simp add: to_int32_id)
  next
    case (Some q)
    with u [OF Some] have "to_int32 (int (unat q)) = int (unat q)" by (intro to_int32_id) linarith+
    with Some show ?thesis by simp
  qed
  show ?thesis
    using assms(4) q unfolding http_server_run_def Let_def port
    by (auto split: option.splits if_splits)
qed

theorem http_server_run_spec_witness:
  "fst (http_server_run \<lparr>aa_open_throws = Some ''too many open files'', aa_set_option = Ec_none,
      aa_bind = (\<lambda>_. Ec_none), aa_listen = (\<lambda>_. Ec_none)\<rparr> 4096
      (http_server_ctor demo_configuration 2 ''acppsrv'' ''0.1'')) = Throw (Other_exn ''too many open files'')"
proof -
  let ?api = "\<lparr>aa_open_throws = Some ''too many open files'', aa_set_option = Ec_none,
      aa_bind = (\<lambda>_. Ec_none), aa_listen = (\<lambda>_. Ec_none)\<rparr>"
  let ?sv = "http_server_ctor demo_configuration 2 ''acppsrv'' ''0.1''"
  obtain r acts where r: "http_server_run ?api 4096 ?sv = (r, acts)" by (cases "http_server_run ?api 4096 ?sv")
  from http_server_run_spec [OF refl _ _ r] have "r = Throw (Other_exn ''too many open files'')" by simp
  with r show ?thesis by simp
qed

end
