(* ===== verification/Worker.thy ===== *)
theory Worker
  imports Configuration
begin

text \<open>
  Thread pools (\<^verbatim>\<open>src/worker.cpp\<close>, \<^verbatim>\<open>src/worker.hpp\<close>): construction, starting
  the threads under their names, the loop of one thread with its restart after exceptions,
  stopping and joining. A thread object is joinable or not; whether the system creates a
  thread, and what \<open>io_context::run\<close> does, are parameters.
\<close>

section \<open>State\<close>

record thread_pool =
  tp_name :: string
  tp_joinable :: "bool list"
  tp_work :: bool
  tp_stopped :: bool

definition thread_pool_size :: "thread_pool \<Rightarrow> nat" where
  "thread_pool_size p = length (tp_joinable p)"

section \<open>Operations\<close>

text \<open>
  A negative number becomes a huge \<open>size_t\<close>, which the vector of threads refuses; the
  assertion refuses an empty pool.
\<close>

definition thread_pool_ctor :: "int \<Rightarrow> string \<Rightarrow> thread_pool outcome" where
  "thread_pool_ctor n name =
     (if n < 0 then Throw (Other_exn ''length_error'')
      else if n = 0 then Abort
      else Ok \<lparr>tp_name = name, tp_joinable = replicate (nat n) False, tp_work = True, tp_stopped = False\<rparr>)"

definition thread_pool_ctor_cfg :: "u32 \<Rightarrow> ThreadPoolCfg option \<Rightarrow> string \<Rightarrow> thread_pool outcome" where
  "thread_pool_ctor_cfg hw cfg name = thread_pool_ctor (num_threads hw cfg) name"

text \<open>
  The name of a new thread: \<open>pthread_getname_np\<close> copies the inherited name and a NUL into
  the buffer; \<open>find\<close> gives its length, the pool name is added and the result cut. \<open>None\<close> is
  the exception of \<open>resize(npos)\<close> when the buffer holds no NUL.
\<close>

definition thread_name :: "string \<Rightarrow> string \<Rightarrow> string option" where
  "thread_name inherited name =
     (let buf = overwrite 0 (inherited @ [nul]) (replicate 16 nul)
      in if nul \<in> set (take 16 buf) then
           (let tname = c_str (take 16 buf) @ ''.'' @ name
            in Some (if 15 < length tname then take 15 tname else tname))
         else None)"

text \<open>
  Starting the threads from number \<open>t\<close> on. \<open>spawn t\<close> tells whether the system creates
  thread \<open>t\<close>; the names given to the created threads are collected.
\<close>

function start_threads :: "(nat \<Rightarrow> bool) \<Rightarrow> string \<Rightarrow> nat \<Rightarrow> thread_pool \<Rightarrow> string list \<Rightarrow>
    unit outcome \<times> thread_pool \<times> string list" where
  "start_threads spawn inherited t p names =
     (if t < length (tp_joinable p) then
        if spawn t then
          (let p = p\<lparr>tp_joinable := (tp_joinable p)[t := True]\<rparr>
           in case thread_name inherited (tp_name p) of
                None \<Rightarrow> (Throw (Other_exn ''length_error''), p, names)
              | Some n \<Rightarrow> start_threads spawn inherited (t + 1) p (names @ [n]))
        else (Throw (Other_exn ''system_error''), p, names)
      else (Ok (), p, names))"
  by pat_completeness auto
termination
  by (relation "measure (\<lambda>(spawn, inh, t, p, ns). length (tp_joinable p) - t)") auto

declare start_threads.simps [simp del]

definition thread_pool_run :: "(nat \<Rightarrow> bool) \<Rightarrow> string \<Rightarrow> bool \<Rightarrow> thread_pool \<Rightarrow>
    unit outcome \<times> thread_pool \<times> string list" where
  "thread_pool_run spawn inherited persistent p =
     (if hd (tp_joinable p) then (Abort, p, [])
      else start_threads spawn inherited 0 (if persistent then p else p\<lparr>tp_work := False\<rparr>) [])"

definition thread_pool_stop :: "thread_pool \<Rightarrow> thread_pool" where
  "thread_pool_stop p = p\<lparr>tp_stopped := True\<rparr>"

text \<open>Joining in order; joining a thread object without a thread throws.\<close>

fun join_all :: "bool list \<Rightarrow> unit outcome \<times> bool list" where
  "join_all [] = (Ok (), [])"
| "join_all (j # js) =
     (if j then (case join_all js of (r, js') \<Rightarrow> (r, False # js'))
      else (Throw (Other_exn ''system_error''), j # js))"

definition thread_pool_wait :: "thread_pool \<Rightarrow> unit outcome \<times> thread_pool" where
  "thread_pool_wait p =
     (if hd (tp_joinable p) then
        (case join_all (tp_joinable p) of (r, js) \<Rightarrow> (r, p\<lparr>tp_joinable := js\<rparr>))
      else (Ok (), p))"

text \<open>An exception that leaves the destructor ends the process.\<close>

definition thread_pool_dtor :: "thread_pool \<Rightarrow> unit outcome" where
  "thread_pool_dtor p = (case thread_pool_wait p of (Ok u, q) \<Rightarrow> Ok u | _ \<Rightarrow> Abort)"

section \<open>The loop of one thread\<close>

datatype run_result = Run_returned | Run_threw string | Run_threw_unknown

text \<open>
  The loop sees, turn by turn, whether the context is stopped and what \<open>run\<close> does. It gives
  its warnings and whether the thread has finished; otherwise it still runs.
\<close>

fun thread_loop :: "string \<Rightarrow> (bool \<times> run_result) list \<Rightarrow> string list \<times> bool" where
  "thread_loop name [] = ([], False)"
| "thread_loop name ((stopped, r) # rs) =
     (if stopped then ([], True)
      else case thread_loop name rs of (ws, fin) \<Rightarrow>
        (case r of
           Run_returned \<Rightarrow> (ws, fin)
         | Run_threw what \<Rightarrow>
             ((''Restarting thread in pool '' @ [CHR 0x22] @ name @ [CHR 0x22] @
               '' after exception: '' @ what) # ws, fin)
         | Run_threw_unknown \<Rightarrow>
             ((''Restarting thread in pool'' @ [CHR 0x22] @ name @ [CHR 0x22] @
               '' after unknown exception'') # ws, fin)))"

section \<open>Lemmas\<close>

text \<open>
  The states of a pool: not started, running, or joined; in each of them all thread objects
  agree, unless the system refused a thread.
\<close>

definition pool_ok :: "thread_pool \<Rightarrow> bool" where
  "pool_ok p \<longleftrightarrow> tp_joinable p \<noteq> [] \<and>
     (tp_joinable p = replicate (thread_pool_size p) False \<or> tp_joinable p = replicate (thread_pool_size p) True)"

lemma num_threads_pos: "1 \<le> num_threads hw cfg"
  by (simp add: num_threads_def Let_def)

lemma thread_pool_ctor_cfg_ok:
  "\<exists>p. thread_pool_ctor_cfg hw cfg name = Ok p \<and> pool_ok p \<and> tp_name p = name \<and>
     thread_pool_size p = nat (num_threads hw cfg) \<and> tp_joinable p = replicate (thread_pool_size p) False"
  using num_threads_pos [of hw cfg]
  by (auto simp: thread_pool_ctor_cfg_def thread_pool_ctor_def pool_ok_def thread_pool_size_def)

lemma thread_name_cut:
  assumes "length inherited \<le> 15" and "nul \<notin> set inherited"
  shows "thread_name inherited name = Some (take 15 (inherited @ ''.'' @ name))"
proof -
  have buf: "take 16 (overwrite 0 (inherited @ [nul]) (replicate 16 nul)) =
      inherited @ nul # replicate (15 - length inherited) nul"
    using assms(1) by (simp add: overwrite_def)
  show ?thesis
    unfolding thread_name_def Let_def buf using assms by (simp add: c_str_append)
qed

lemma replicate_snoc_update:
  "t < n \<Longrightarrow> (replicate t True @ replicate (n - t) False)[t := True] =
    replicate (Suc t) True @ replicate (n - Suc t) False"
proof -
  assume "t < n"
  then obtain k where k: "n - t = Suc k" by (metis Suc_diff_Suc)
  then have "n - Suc t = k" by simp
  with k show ?thesis by (simp add: list_update_append replicate_app_Cons_same)
qed

lemma start_threads_upto:
  assumes "\<forall>t < k. spawn t" and "k \<le> n" and "\<And>nm. thread_name inherited nm = Some (f nm)"
    and "tp_joinable p = replicate t True @ replicate (n - t) False" and "t \<le> k"
  shows "start_threads spawn inherited t p names =
    start_threads spawn inherited k (p\<lparr>tp_joinable := replicate k True @ replicate (n - k) False\<rparr>)
      (names @ replicate (k - t) (f (tp_name p)))"
  using assms(4,5)
proof (induction "k - t" arbitrary: t p names)
  case (Suc j)
  then have t: "t < k" "t < n" "k - t = Suc (k - Suc t)" using assms(2) by simp_all
  let ?p = "p\<lparr>tp_joinable := (tp_joinable p)[t := True]\<rparr>"
  have "start_threads spawn inherited t p names = start_threads spawn inherited (Suc t) ?p (names @ [f (tp_name p)])"
    using t assms(1,3) Suc.prems by (subst start_threads.simps) simp
  also have "\<dots> = start_threads spawn inherited k
      (?p\<lparr>tp_joinable := replicate k True @ replicate (n - k) False\<rparr>)
      ((names @ [f (tp_name p)]) @ replicate (k - Suc t) (f (tp_name ?p)))"
    using t Suc.hyps(2) Suc.prems(1) replicate_snoc_update [OF t(2)] by (intro Suc.hyps(1)) simp_all
  finally show ?case using t by simp
next
  case 0
  then have "p\<lparr>tp_joinable := replicate k True @ replicate (n - k) False\<rparr> = p" by (cases p) simp
  with 0 show ?case by (metis append_Nil2 diff_self_eq_0 le_antisym diff_is_0_eq replicate_0)
qed

lemma start_threads_all:
  assumes "\<forall>t < n. spawn t" and "\<And>nm. thread_name inherited nm = Some (f nm)"
    and "tp_joinable p = replicate n False"
  shows "start_threads spawn inherited 0 p names =
    (Ok (), p\<lparr>tp_joinable := replicate n True\<rparr>, names @ replicate n (f (tp_name p)))"
  using start_threads_upto [of n spawn n inherited f p 0 names] assms
  by (simp add: start_threads.simps [of _ _ n])

lemma join_all_stuck:
  "fst (join_all (replicate k True @ False # js)) = Throw (Other_exn ''system_error'')"
  by (induction k) (auto simp: case_prod_beta)

lemma join_all_replicate: "join_all (replicate n True) = (Ok (), replicate n False)"
  by (induction n) simp_all

lemma thread_pool_run_all:
  assumes "pool_ok p" and "\<not> hd (tp_joinable p)" and "\<forall>t < thread_pool_size p. spawn t"
    and "length inherited \<le> 15" and "nul \<notin> set inherited"
  shows "thread_pool_run spawn inherited persistent p =
    (Ok (), p\<lparr>tp_joinable := replicate (thread_pool_size p) True, tp_work := persistent \<and> tp_work p\<rparr>,
     replicate (thread_pool_size p) (take 15 (inherited @ ''.'' @ tp_name p)))"
proof -
  let ?q = "if persistent then p else p\<lparr>tp_work := False\<rparr>"
  have "tp_joinable p = replicate (thread_pool_size p) False"
    using assms(1,2) by (cases "thread_pool_size p") (auto simp: pool_ok_def)
  then have "start_threads spawn inherited 0 ?q [] = (Ok (),
      ?q\<lparr>tp_joinable := replicate (thread_pool_size p) True\<rparr>,
      [] @ replicate (thread_pool_size p) (take 15 (inherited @ ''.'' @ tp_name ?q)))"
    using assms(3-5) by (intro start_threads_all [where f = "\<lambda>nm. take 15 (inherited @ ''.'' @ nm)"])
      (auto simp: thread_name_cut)
  with assms(2) show ?thesis by (simp add: thread_pool_run_def)
qed

lemma thread_pool_wait_started:
  "tp_joinable p = replicate n True \<Longrightarrow> n \<noteq> 0 \<Longrightarrow>
    thread_pool_wait p = (Ok (), p\<lparr>tp_joinable := replicate n False\<rparr>)"
proof -
  assume j: "tp_joinable p = replicate n True" and "n \<noteq> 0"
  then have "hd (tp_joinable p)" by (cases n) simp_all
  with j show ?thesis by (simp add: thread_pool_wait_def join_all_replicate)
qed

lemma thread_pool_wait_idle: "\<not> hd (tp_joinable p) \<Longrightarrow> thread_pool_wait p = (Ok (), p)"
  by (simp add: thread_pool_wait_def)

section \<open>Properties\<close>

text \<open>
  C35: the life of a pool, from any configuration, however unusable its thread count: it is
  constructed with at least one thread; when the system creates the threads, starting gives
  each the name the kernel accepts (at most 15 characters, the inherited name, a dot and the
  pool's name, cut at the end); waiting joins them all; and destroying it afterwards, waiting
  again, or destroying a pool that was never started does nothing harmful.
\<close>

theorem thread_pool_life:
  assumes "\<forall>t. spawn t" and "length inherited \<le> 15" and "nul \<notin> set inherited"
  shows "\<exists>p q names r. thread_pool_ctor_cfg hw cfg name = Ok p \<and> 0 < thread_pool_size p \<and>
    thread_pool_dtor p = Ok () \<and>
    thread_pool_run spawn inherited persistent p = (Ok (), q, names) \<and> list_all (\<lambda>j. j) (tp_joinable q) \<and>
    length names = thread_pool_size p \<and>
    list_all (\<lambda>n. n = take 15 (inherited @ ''.'' @ name) \<and> length n \<le> 15) names \<and>
    thread_pool_wait q = (Ok (), r) \<and> list_all Not (tp_joinable r) \<and>
    thread_pool_wait r = (Ok (), r) \<and> thread_pool_dtor r = Ok ()"
proof -
  obtain p where p: "thread_pool_ctor_cfg hw cfg name = Ok p" "pool_ok p" "tp_name p = name"
    "tp_joinable p = replicate (thread_pool_size p) False"
    using thread_pool_ctor_cfg_ok by blast
  then have n: "thread_pool_size p \<noteq> 0" by (auto simp: pool_ok_def)
  have nj: "\<not> hd (tp_joinable p)" using n by (subst p(4)) (cases "thread_pool_size p"; simp)
  let ?q = "p\<lparr>tp_joinable := replicate (thread_pool_size p) True, tp_work := persistent \<and> tp_work p\<rparr>"
  let ?r = "?q\<lparr>tp_joinable := replicate (thread_pool_size p) False\<rparr>"
  have w: "thread_pool_wait ?q = (Ok (), ?r)" using n by (intro thread_pool_wait_started) simp_all
  have "\<not> hd (tp_joinable ?r)" using n by (cases "thread_pool_size p") simp_all
  note idle = thread_pool_wait_idle [OF this] thread_pool_wait_idle [OF nj]
  have run: "thread_pool_run spawn inherited persistent p =
      (Ok (), ?q, replicate (thread_pool_size p) (take 15 (inherited @ ''.'' @ name)))"
    using thread_pool_run_all [OF p(2) nj, of spawn inherited] assms p(3) by simp
  show ?thesis
    using p(1) n run w idle
    by (intro exI [of _ p] exI [of _ ?q] exI [of _ ?r] exI) (auto simp: thread_pool_dtor_def list_all_iff)
qed

theorem thread_pool_life_witness:
  "\<exists>p q names. thread_pool_ctor_cfg 0 (Some \<lparr>threads_field = - 3\<rparr>) ''database'' = Ok p \<and>
     thread_pool_run (\<lambda>_. True) ''acppsrv'' True p = (Ok (), q, names) \<and>
     list_all (\<lambda>n. n = ''acppsrv.databas'' \<and> length n \<le> 15) names"
  using thread_pool_life [of "\<lambda>_. True" "''acppsrv''" 0 "Some \<lparr>threads_field = - 3\<rparr>" "''database''" True]
  by (auto simp: list_all_iff)

text \<open>
  A thread of a pool survives every exception of a handler: it finishes exactly when some
  turn finds the context stopped, and until then every exception costs one warning and a
  new call of \<open>run\<close>.
\<close>

lemma thread_survives_exceptions:
  "(snd (thread_loop name rs) \<longleftrightarrow> list_ex fst rs) \<and>
   length (fst (thread_loop name rs)) =
     length (filter (\<lambda>x. snd x \<noteq> Run_returned) (takeWhile (\<lambda>x. \<not> fst x) rs))"
proof (induction name rs rule: thread_loop.induct)
  case (2 name stopped r rs)
  then show ?case by (auto split: prod.split run_result.split)
qed simp

text \<open>
  A pool that could be started only in part takes the process down. If the system
  creates the first \<open>k > 0\<close> threads and refuses the next one, starting throws, and the
  destructor that runs while the exception propagates joins a thread that does not exist.
\<close>

lemma partial_start_terminates:
  assumes "thread_pool_ctor n name = Ok p" and "0 < k" and "k < nat n"
    and "\<forall>t < k. spawn t" and "\<not> spawn k"
    and "length inherited \<le> 15" and "nul \<notin> set inherited"
  shows "\<exists>q names. thread_pool_run spawn inherited persistent p =
      (Throw (Other_exn ''system_error''), q, names) \<and> thread_pool_dtor q = Abort"
proof -
  let ?n = "nat n"
  have p: "p = \<lparr>tp_name = name, tp_joinable = replicate ?n False, tp_work = True, tp_stopped = False\<rparr>"
    using assms(1) by (auto simp: thread_pool_ctor_def split: if_splits)
  let ?p0 = "if persistent then p else p\<lparr>tp_work := False\<rparr>"
  let ?q = "?p0\<lparr>tp_joinable := replicate k True @ replicate (?n - k) False\<rparr>"
  have j: "tp_joinable ?q = replicate k True @ False # replicate (?n - Suc k) False"
    using assms(3) by (simp add: Suc_diff_Suc [symmetric])
  have "start_threads spawn inherited 0 ?p0 [] =
      start_threads spawn inherited k ?q (replicate k (take 15 (inherited @ ''.'' @ name)))"
    using start_threads_upto [of k spawn ?n inherited "\<lambda>nm. take 15 (inherited @ ''.'' @ nm)" ?p0 0 "[]"]
      assms(3,4) thread_name_cut [OF assms(6,7)] by (simp add: p)
  also have "\<dots> = (Throw (Other_exn ''system_error''), ?q, replicate k (take 15 (inherited @ ''.'' @ name)))"
    using assms(3,5) by (subst start_threads.simps) simp
  moreover have "\<not> hd (tp_joinable p)" using assms(2,3) by (cases ?n) (simp_all add: p)
  ultimately have run: "thread_pool_run spawn inherited persistent p =
      (Throw (Other_exn ''system_error''), ?q, replicate k (take 15 (inherited @ ''.'' @ name)))"
    by (simp add: thread_pool_run_def)
  have "hd (tp_joinable ?q)" unfolding j using assms(2) by (cases k) simp_all
  then have "fst (thread_pool_wait ?q) = Throw (Other_exn ''system_error'')"
    using join_all_stuck [of k "replicate (?n - Suc k) False"]
    unfolding thread_pool_wait_def j by (simp add: case_prod_beta)
  then have "thread_pool_dtor ?q = Abort"
    by (cases "thread_pool_wait ?q") (simp add: thread_pool_dtor_def)
  with run show ?thesis by blast
qed

theorem partial_start_terminates_witness:
  "\<exists>p q names. thread_pool_ctor 3 ''main'' = Ok p \<and>
     thread_pool_run (\<lambda>t. t < 2) ''bench'' False p = (Throw (Other_exn ''system_error''), q, names) \<and>
     thread_pool_dtor q = Abort"
proof -
  obtain p where p: "thread_pool_ctor 3 ''main'' = Ok p" by (simp add: thread_pool_ctor_def)
  with partial_start_terminates [OF p, of 2 "\<lambda>t. t < 2" "''bench''" False] show ?thesis by auto
qed

end
