(* ===== verification/Application.thy ===== *)
theory Application
  imports Http_Server Worker
begin

text \<open>
  The whole server process: \<open>application::run\<close> (\<^verbatim>\<open>src/application.cpp\<close>), which creates
  the pools, opens the databases, starts the HTTP server, runs and joins the pools, with the
  handler of termination signals, and \<open>main\<close> (\<^verbatim>\<open>src/acppsrv.cpp\<close>). The parts it calls
  are the definitions of the other theories; the system, SQLite and the sockets are their
  parameters. What the process does is recorded as a list of actions, in order.
\<close>

section \<open>Pools of the application\<close>

record app_pools =
  ap_control :: thread_pool
  ap_main :: "thread_pool list"
  ap_database :: thread_pool

definition pool_main_name :: string where "pool_main_name = ''main''"
definition pool_control_name :: string where "pool_control_name = ''control''"
definition pool_database_name :: string where "pool_database_name = ''database''"

text \<open>Evaluation in order, up to the first call that does not return.\<close>

fun all_ok :: "'a outcome list \<Rightarrow> 'a list outcome" where
  "all_ok [] = Ok []"
| "all_ok (Ok a # rs) = (case all_ok rs of Ok xs \<Rightarrow> Ok (a # xs) | Throw e \<Rightarrow> Throw e | Abort \<Rightarrow> Abort)"
| "all_ok (Throw e # rs) = Throw e"
| "all_ok (Abort # rs) = Abort"

definition main_pool_names :: "int \<Rightarrow> string list" where
  "main_pool_names n = map (\<lambda>i. pool_main_name @ ''.'' @ dec i) [1 ..< nat n + 1]"

definition create_pools :: "u32 \<Rightarrow> configuration \<Rightarrow> app_pools outcome" where
  "create_pools hw cfg =
     (let tp = cm_thread_pools (cfg_data cfg)
      in case thread_pool_ctor_cfg hw (Option.bind tp tps_control) pool_control_name of
           Throw e \<Rightarrow> Throw e | Abort \<Rightarrow> Abort
         | Ok control \<Rightarrow>
        (case all_ok (map (thread_pool_ctor_cfg hw (Option.bind tp tps_main)) (main_pool_names (main_pools cfg))) of
           Throw e \<Rightarrow> Throw e | Abort \<Rightarrow> Abort
         | Ok mains \<Rightarrow>
        (case thread_pool_ctor_cfg hw (Option.bind tp tps_database) pool_database_name of
           Throw e \<Rightarrow> Throw e | Abort \<Rightarrow> Abort
         | Ok database \<Rightarrow>
             Ok \<lparr>ap_control = control, ap_main = mains, ap_database = database\<rparr>)))"

section \<open>Starting and joining\<close>

fun run_pools :: "(string \<Rightarrow> nat \<Rightarrow> bool) \<Rightarrow> string \<Rightarrow> bool \<Rightarrow> thread_pool list \<Rightarrow>
    unit outcome \<times> thread_pool list" where
  "run_pools spawn inherited persistent [] = (Ok (), [])"
| "run_pools spawn inherited persistent (p # ps) =
     (case thread_pool_run (spawn (tp_name p)) inherited persistent p of
        (Ok u, q, names) \<Rightarrow> (case run_pools spawn inherited persistent ps of (r, qs) \<Rightarrow> (r, q # qs))
      | (r, q, names) \<Rightarrow> (r, q # ps))"

fun wait_pools :: "thread_pool list \<Rightarrow> unit outcome \<times> thread_pool list" where
  "wait_pools [] = (Ok (), [])"
| "wait_pools (p # ps) =
     (case thread_pool_wait p of
        (Ok u, q) \<Rightarrow> (case wait_pools ps of (r, qs) \<Rightarrow> (r, q # qs))
      | (r, q) \<Rightarrow> (r, q # ps))"

text \<open>Starting: the control pool without a work guard, then the main pools, then the database pool.\<close>

definition start_pools :: "(string \<Rightarrow> nat \<Rightarrow> bool) \<Rightarrow> string \<Rightarrow> app_pools \<Rightarrow> unit outcome \<times> app_pools" where
  "start_pools spawn inherited ps =
     (case run_pools spawn inherited False [ap_control ps] of
        (Ok u, cs) \<Rightarrow>
          (case run_pools spawn inherited True (ap_main ps @ [ap_database ps]) of
             (r, qs) \<Rightarrow> (r, \<lparr>ap_control = hd cs, ap_main = butlast qs, ap_database = last qs\<rparr>))
      | (r, cs) \<Rightarrow> (r, ps\<lparr>ap_control := hd cs\<rparr>))"

definition join_pools :: "app_pools \<Rightarrow> unit outcome \<times> app_pools" where
  "join_pools ps =
     (case wait_pools (ap_control ps # ap_main ps @ [ap_database ps]) of
        (r, qs) \<Rightarrow> (r, \<lparr>ap_control = hd qs, ap_main = butlast (tl qs), ap_database = last qs\<rparr>))"

text \<open>The handler of a termination signal, whatever the signal or error.\<close>

definition term_handler :: "'s sqlite_api \<Rightarrow> databases \<Rightarrow> app_pools \<times> 's \<Rightarrow> app_pools \<times> 's" where
  "term_handler api dbs st =
     (case st of (ps, s) \<Rightarrow>
       (ps\<lparr>ap_main := map thread_pool_stop (ap_main ps), ap_database := thread_pool_stop (ap_database ps)\<rparr>,
        db_server_interrupt api dbs s))"

section \<open>\<open>application::run\<close>\<close>

record 's app_env =
  ae_sqlite :: "'s sqlite_api"
  ae_acceptor :: acceptor_api
  ae_max_listen :: int
  ae_hw :: u32
  ae_spawn :: "string \<Rightarrow> nat \<Rightarrow> bool"
  ae_thread_name :: string
  ae_version :: string

datatype app_action =
    Aa_pools "string list"
  | Aa_databases_opened
  | Aa_signals_awaited
  | Aa_listen "listen_action list"
  | Aa_started "string list"
  | Aa_joined "string list"

text \<open>
  The destructors of the pools when \<open>run\<close> is left: database, main and control pool, in
  this order. A destructor that throws ends the process.
\<close>

definition unwind :: "app_pools \<Rightarrow> 'a outcome \<Rightarrow> 'a outcome" where
  "unwind ps r =
     (if list_all (\<lambda>p. thread_pool_dtor p = Ok ()) (ap_database ps # ap_main ps @ [ap_control ps])
      then r else Abort)"

definition pool_names :: "app_pools \<Rightarrow> string list" where
  "pool_names ps = map tp_name (ap_control ps # ap_main ps @ [ap_database ps])"

definition run_http :: "'s app_env \<Rightarrow> configuration \<Rightarrow> app_pools \<Rightarrow> bool outcome \<times> app_action list" where
  "run_http env cfg ps =
     (let sv = http_server_ctor cfg (length (ap_main ps)) ''ACppSrv'' (ae_version env)
      in case http_server_run (ae_acceptor env) (ae_max_listen env) sv of
           (Throw e, acts) \<Rightarrow> (unwind ps (Throw e), [Aa_listen acts])
         | (Abort, acts) \<Rightarrow> (Abort, [Aa_listen acts])
         | (Ok False, acts) \<Rightarrow> (unwind ps (Ok False), [Aa_listen acts])
         | (Ok True, acts) \<Rightarrow>
            (case start_pools (ae_spawn env) (ae_thread_name env) ps of
               (Throw e, ps) \<Rightarrow> (unwind ps (Throw e), [Aa_listen acts])
             | (Abort, ps) \<Rightarrow> (Abort, [Aa_listen acts])
             | (Ok u, ps) \<Rightarrow>
                (case join_pools ps of
                   (Throw e, ps) \<Rightarrow> (unwind ps (Throw e), [Aa_listen acts, Aa_started (pool_names ps)])
                 | (Abort, ps) \<Rightarrow> (Abort, [Aa_listen acts, Aa_started (pool_names ps)])
                 | (Ok u, ps) \<Rightarrow>
                     (unwind ps (Ok True),
                      [Aa_listen acts, Aa_started (pool_names ps), Aa_joined (pool_names ps)]))))"

definition application_run ::
    "'s app_env \<Rightarrow> configuration \<Rightarrow> 's \<Rightarrow> bool outcome \<times> app_action list \<times> 's" where
  "application_run env cfg s =
     (case create_pools (ae_hw env) cfg of
        Throw e \<Rightarrow> (Throw e, [], s)
      | Abort \<Rightarrow> (Abort, [], s)
      | Ok ps \<Rightarrow>
         (case db_server_run (ae_sqlite env) (cm_databases (cfg_data cfg)) (thread_pool_size (ap_database ps)) s of
            (Throw e, s) \<Rightarrow> (unwind ps (Throw e), [Aa_pools (pool_names ps)], s)
          | (Abort, s) \<Rightarrow> (Abort, [Aa_pools (pool_names ps)], s)
          | (Ok (False, dbs), s) \<Rightarrow> (unwind ps (Ok False), [Aa_pools (pool_names ps)], s)
          | (Ok (True, dbs), s) \<Rightarrow>
              (case run_http env cfg ps of (r, acts) \<Rightarrow>
                (r, [Aa_pools (pool_names ps), Aa_databases_opened, Aa_signals_awaited] @ acts, s))))"

section \<open>\<open>main\<close>\<close>

text \<open>What the process prints on its way out; the messages are those of the code.\<close>

definition final_exception :: "string \<Rightarrow> string \<Rightarrow> int \<times> string list" where
  "final_exception prefix msg = (EXIT_FAILURE, [prefix @ msg])"

definition exn_what :: "exn \<Rightarrow> string" where
  "exn_what e = (case e of Sqlite_error m \<Rightarrow> m | Out_of_range \<Rightarrow> ''out_of_range'' | Other_exn m \<Rightarrow> m)"

text \<open>
  \<open>None\<close> is the end of the process by a failed assertion. The global log level after the
  run is part of the result.
\<close>

definition main ::
    "'s app_env \<Rightarrow> (string \<Rightarrow> ConfigurationMsg \<times> string option) \<Rightarrow> (string \<Rightarrow> file_read) \<Rightarrow>
      string list \<Rightarrow> 's \<Rightarrow> (int \<times> logger \<times> app_action list) option" where
  "main env json_parse read_file argv s =
     (if length argv \<noteq> 2 then Some (EXIT_FAILURE, gl_logger, [])
      else let cfg = fst (configuration_ctor json_parse (argv ! 1) (read_file (argv ! 1)))
        in if \<not> cfg_valid cfg then Some (EXIT_FAILURE, gl_logger, [])
           else let lg = (case cfg_log_level cfg of None \<Rightarrow> gl_logger | Some ll \<Rightarrow> set_level ll gl_logger)
             in case application_run env cfg s of
                  (Ok ok, acts, s) \<Rightarrow> Some (if ok then EXIT_SUCCESS else EXIT_FAILURE, lg, acts)
                | (Throw e, acts, s) \<Rightarrow>
                    Some (fst (final_exception ''Terminated by unhandled exception: '' (exn_what e)), lg, acts)
                | (Abort, acts, s) \<Rightarrow> None)"

section \<open>Lemmas\<close>

definition idle :: "thread_pool \<Rightarrow> bool" where
  "idle p \<longleftrightarrow> pool_ok p \<and> \<not> hd (tp_joinable p)"

definition started :: "thread_pool \<Rightarrow> bool" where
  "started p \<longleftrightarrow> tp_joinable p \<noteq> [] \<and> tp_joinable p = replicate (thread_pool_size p) True"

definition threads_available :: "'s app_env \<Rightarrow> bool" where
  "threads_available env \<longleftrightarrow> (\<forall>n t. ae_spawn env n t) \<and> length (ae_thread_name env) \<le> 15 \<and>
     nul \<notin> set (ae_thread_name env)"

lemma idle_ctor: "\<exists>p. thread_pool_ctor_cfg hw c name = Ok p \<and> idle p \<and> tp_name p = name"
proof -
  obtain p where p: "thread_pool_ctor_cfg hw c name = Ok p" "pool_ok p" "tp_name p = name"
    "tp_joinable p = replicate (thread_pool_size p) False"
    using thread_pool_ctor_cfg_ok by blast
  moreover have "\<not> hd (tp_joinable p)"
    using p(2) by (subst p(4)) (cases "thread_pool_size p"; auto simp: pool_ok_def)
  ultimately show ?thesis by (auto simp: idle_def)
qed

lemma all_ok_ctors:
  "\<exists>ps. all_ok (map (thread_pool_ctor_cfg hw c) ns) = Ok ps \<and> list_all idle ps \<and> map tp_name ps = ns"
proof (induction ns)
  case (Cons n ns)
  then show ?case using idle_ctor [of hw c n] by fastforce
qed simp

lemma create_pools_ok:
  "\<exists>ps. create_pools hw cfg = Ok ps \<and> idle (ap_control ps) \<and> list_all idle (ap_main ps) \<and>
     idle (ap_database ps) \<and>
     pool_names ps = pool_control_name # main_pool_names (main_pools cfg) @ [pool_database_name]"
proof -
  let ?tp = "cm_thread_pools (cfg_data cfg)"
  obtain c where c: "thread_pool_ctor_cfg hw (Option.bind ?tp tps_control) pool_control_name = Ok c"
      "idle c" "tp_name c = pool_control_name"
    using idle_ctor by blast
  obtain ms where ms: "all_ok (map (thread_pool_ctor_cfg hw (Option.bind ?tp tps_main))
      (main_pool_names (main_pools cfg))) = Ok ms" "list_all idle ms"
      "map tp_name ms = main_pool_names (main_pools cfg)"
    using all_ok_ctors by blast
  obtain d where d: "thread_pool_ctor_cfg hw (Option.bind ?tp tps_database) pool_database_name = Ok d"
      "idle d" "tp_name d = pool_database_name"
    using idle_ctor by blast
  from c ms d show ?thesis by (simp add: create_pools_def Let_def pool_names_def)
qed

lemma idle_dtor: "idle p \<Longrightarrow> thread_pool_dtor p = Ok ()"
  by (simp add: idle_def thread_pool_dtor_def thread_pool_wait_idle)

lemma idle_run:
  assumes "threads_available env" and "idle p"
  shows "\<exists>names. thread_pool_run (ae_spawn env n) (ae_thread_name env) persistent p =
    (Ok (), p\<lparr>tp_joinable := replicate (thread_pool_size p) True, tp_work := persistent \<and> tp_work p\<rparr>, names)"
  using assms thread_pool_run_all [of p "ae_spawn env n" "ae_thread_name env" persistent]
  by (auto simp: idle_def threads_available_def)

lemma run_pools_ok:
  assumes "threads_available env" and "list_all idle ps"
  shows "run_pools (ae_spawn env) (ae_thread_name env) persistent ps =
    (Ok (), map (\<lambda>p. p\<lparr>tp_joinable := replicate (thread_pool_size p) True,
                     tp_work := persistent \<and> tp_work p\<rparr>) ps)"
  using assms(2)
proof (induction ps)
  case (Cons p ps)
  then obtain names where "thread_pool_run (ae_spawn env (tp_name p)) (ae_thread_name env) persistent p =
      (Ok (), p\<lparr>tp_joinable := replicate (thread_pool_size p) True, tp_work := persistent \<and> tp_work p\<rparr>, names)"
    using idle_run [OF assms(1), of p] by auto
  with Cons show ?case by simp
qed simp

lemma idle_started:
  "idle p \<Longrightarrow> started (p\<lparr>tp_joinable := replicate (thread_pool_size p) True, tp_work := w\<rparr>)"
  "idle p \<Longrightarrow> started (p\<lparr>tp_joinable := replicate (thread_pool_size p) True\<rparr>)"
  by (auto simp: idle_def started_def pool_ok_def thread_pool_size_def)

lemma wait_started: "started p \<Longrightarrow> \<exists>q. thread_pool_wait p = (Ok (), q) \<and> idle q \<and> tp_name q = tp_name p"
proof -
  assume s: "started p"
  let ?q = "p\<lparr>tp_joinable := replicate (thread_pool_size p) False\<rparr>"
  have n: "thread_pool_size p \<noteq> 0" using s by (simp add: started_def thread_pool_size_def)
  then have "thread_pool_wait p = (Ok (), ?q)"
    using s by (intro thread_pool_wait_started) (simp_all add: started_def)
  moreover have "idle ?q"
    using n by (cases "thread_pool_size p") (simp_all add: idle_def pool_ok_def thread_pool_size_def)
  ultimately show ?thesis by simp
qed

lemma wait_pools_ok:
  "list_all started ps \<Longrightarrow> \<exists>qs. wait_pools ps = (Ok (), qs) \<and> list_all idle qs \<and> map tp_name qs = map tp_name ps"
proof (induction ps)
  case (Cons p ps)
  then obtain q qs where "thread_pool_wait p = (Ok (), q)" "idle q" "tp_name q = tp_name p"
    "wait_pools ps = (Ok (), qs)" "list_all idle qs" "map tp_name qs = map tp_name ps"
    using wait_started [of p] by auto
  then show ?case by simp
qed simp

definition idle_pools :: "app_pools \<Rightarrow> bool" where
  "idle_pools ps \<longleftrightarrow> idle (ap_control ps) \<and> list_all idle (ap_main ps) \<and> idle (ap_database ps)"

lemma unwind_idle: "idle_pools ps \<Longrightarrow> unwind ps r = r"
  by (auto simp: idle_pools_def unwind_def list_all_iff idle_dtor)

lemma start_pools_ok:
  assumes "threads_available env" and "idle_pools ps"
  shows "\<exists>qs. start_pools (ae_spawn env) (ae_thread_name env) ps = (Ok (), qs) \<and>
    started (ap_control qs) \<and> list_all started (ap_main qs) \<and> started (ap_database qs) \<and>
    pool_names qs = pool_names ps \<and> \<not> tp_work (ap_control qs)"
proof -
  have l: "list_all idle [ap_control ps]" "list_all idle (ap_main ps @ [ap_database ps])"
    using assms(2) by (simp_all add: idle_pools_def)
  show ?thesis
    using assms(2) unfolding start_pools_def run_pools_ok [OF assms(1) l(1)] run_pools_ok [OF assms(1) l(2)]
    by (simp add: idle_pools_def idle_started list_all_iff pool_names_def comp_def)
qed

lemma join_pools_ok:
  assumes "started (ap_control ps)" "list_all started (ap_main ps)" "started (ap_database ps)"
  shows "\<exists>qs. join_pools ps = (Ok (), qs) \<and> idle_pools qs \<and> pool_names qs = pool_names ps"
proof -
  have "list_all started (ap_control ps # ap_main ps @ [ap_database ps])" using assms by simp
  from wait_pools_ok [OF this] obtain qs where
    w: "wait_pools (ap_control ps # ap_main ps @ [ap_database ps]) = (Ok (), qs)" "list_all idle qs"
    and n: "map tp_name qs = map tp_name (ap_control ps # ap_main ps @ [ap_database ps])"
    by blast
  from n obtain c ms d where qs: "qs = c # ms @ [d]"
    by (cases qs; cases "tl qs" rule: rev_cases) auto
  from w n show ?thesis by (simp add: join_pools_def qs idle_pools_def pool_names_def)
qed

text \<open>A system for the witnesses: two processors, no databases, sockets that work.\<close>

definition demo_app :: "int list app_env" where
  "demo_app = \<lparr>ae_sqlite = scripted, ae_acceptor = \<lparr>aa_open_throws = None, aa_set_option = Ec_none,
     aa_bind = (\<lambda>p. if p = 80 then Ec_none else Ec_other ''in use''), aa_listen = (\<lambda>q. Ec_none)\<rparr>,
     ae_max_listen = 4096, ae_hw = 2, ae_spawn = (\<lambda>n t. True), ae_thread_name = ''acppsrv'',
     ae_version = ''1.0''\<rparr>"

definition demo_conf :: configuration where
  "demo_conf = \<lparr>cfg_valid = True, cfg_data = empty_msg, cfg_log_level = None\<rparr>"

lemma demo_threads: "threads_available demo_app"
  by (simp add: threads_available_def demo_app_def)

lemma run_http_cases:
  assumes "threads_available env" and "idle_pools ps"
    and "http_server_run (ae_acceptor env) (ae_max_listen env)
      (http_server_ctor cfg (length (ap_main ps)) ''ACppSrv'' (ae_version env)) = (r, acts)"
  shows "run_http env cfg ps =
    (r, if r = Ok True then [Aa_listen acts, Aa_started (pool_names ps), Aa_joined (pool_names ps)]
        else [Aa_listen acts])"
proof -
  obtain qs where qs: "start_pools (ae_spawn env) (ae_thread_name env) ps = (Ok (), qs)"
      "started (ap_control qs)" "list_all started (ap_main qs)" "started (ap_database qs)"
      "pool_names qs = pool_names ps"
    using start_pools_ok [OF assms(1,2)] by blast
  obtain js where js: "join_pools qs = (Ok (), js)" "idle_pools js" "pool_names js = pool_names qs"
    using join_pools_ok [OF qs(2-4)] by blast
  show ?thesis
  proof (cases r)
    case (Ok ok)
    with assms(2,3) qs js show ?thesis by (cases ok) (simp_all add: run_http_def unwind_idle)
  qed (use assms(2,3) in \<open>simp_all add: run_http_def unwind_idle\<close>)
qed

definition demo_names :: "string list" where
  "demo_names = [''control'', ''main.1'', ''database'']"

lemma demo_pools:
  "demo_names = pool_control_name # main_pool_names (main_pools demo_conf) @ [pool_database_name]"
  by (simp add: demo_names_def pool_control_name_def pool_database_name_def main_pool_names_def
      main_pools_def demo_conf_def empty_msg_def pool_main_name_def dec.simps digit_char_def, code_simp)

lemma demo_app_run: "fst (application_run demo_app demo_conf []) = Ok True"
proof -
  obtain ps where ps: "create_pools (ae_hw demo_app) demo_conf = Ok ps" "idle_pools ps"
    using create_pools_ok [of "ae_hw demo_app" demo_conf] by (auto simp: idle_pools_def)
  have db: "open_threads api [] n dbs s ns = (Ok (dbs @ replicate n []), s)"
    for api :: "int list sqlite_api" and n dbs s ns
    by (induction n arbitrary: dbs) (simp_all add: replicate_append_same)
  have "http_server_run (ae_acceptor demo_app) (ae_max_listen demo_app)
      (http_server_ctor demo_conf (length (ap_main ps)) ''ACppSrv'' (ae_version demo_app)) =
      (Ok True, [La_open, La_reuse_address, La_bind 80, La_listen 4096, La_spawn_accept_loop])"
    by (simp add: http_server_run_def http_server_ctor_def demo_app_def demo_conf_def empty_msg_def Let_def
        http_port_def http_port_default_def to_int32_id)
  from run_http_cases [OF demo_threads ps(2) this] ps(1) show ?thesis
    by (simp add: application_run_def db_server_run_def db demo_conf_def empty_msg_def)
qed

section \<open>Properties\<close>



text \<open>
  C37: a termination signal ends the process in order. Once the pools are started, the
  handler stops every main pool and the database pool and interrupts every open database;
  the control pool has given up its work guard, so no pool keeps its threads for ever.
\<close>

theorem termination_stops_pools:
  assumes "threads_available env" and "create_pools (ae_hw env) cfg = Ok ps"
    and "start_pools (ae_spawn env) (ae_thread_name env) ps = (Ok (), qs)"
    and "term_handler api dbs (qs, s) = (ts, s')"
  shows "list_all (\<lambda>p. tp_stopped p \<or> \<not> tp_work p) (ap_control ts # ap_main ts @ [ap_database ts]) \<and>
    pool_names ts = pool_names ps \<and> s' = db_server_interrupt api dbs s"
proof -
  have "idle_pools ps" using create_pools_ok [of "ae_hw env" cfg] assms(2) by (auto simp: idle_pools_def)
  from start_pools_ok [OF assms(1) this] assms(3)
  have "\<not> tp_work (ap_control qs)" "pool_names qs = pool_names ps" by auto
  moreover have "tp_name \<circ> thread_pool_stop = tp_name" by (simp add: fun_eq_iff thread_pool_stop_def)
  ultimately show ?thesis
    using assms(4) by (auto simp: term_handler_def list_all_iff thread_pool_stop_def [of "ap_database qs"]
        pool_names_def) (auto simp: thread_pool_stop_def)
qed

theorem termination_stops_pools_witness:
  "\<exists>ps qs ts s'. start_pools (ae_spawn demo_app) (ae_thread_name demo_app) ps = (Ok (), qs) \<and>
     term_handler scripted [] (qs, []) = (ts, s') \<and>
     list_all (\<lambda>p. tp_stopped p \<or> \<not> tp_work p) (ap_control ts # ap_main ts @ [ap_database ts])"
proof -
  obtain ps where ps: "create_pools (ae_hw demo_app) demo_conf = Ok ps" "idle_pools ps"
    using create_pools_ok [of "ae_hw demo_app" demo_conf] by (auto simp: idle_pools_def)
  obtain qs where qs: "start_pools (ae_spawn demo_app) (ae_thread_name demo_app) ps = (Ok (), qs)"
    using start_pools_ok [OF demo_threads ps(2)] by blast
  obtain ts s' where ts: "term_handler scripted [] (qs, []) = (ts, s')" by fastforce
  from termination_stops_pools [OF demo_threads ps(1) qs ts] qs ts show ?thesis by blast
qed

text \<open>
  The exit code. The process ends successfully exactly when it got one argument, the
  configuration file it names is valid and the application ran to its end; on every other
  path that does not end in a failed assertion it reports failure, exceptions included. The
  configured log level is in force then.
\<close>

lemma main_exit_code:
  assumes "main env json_parse read_file argv s = Some (code, lg, acts)"
    and "cfg = fst (configuration_ctor json_parse (argv ! 1) (read_file (argv ! 1)))"
  shows "(code = 0 \<longleftrightarrow> length argv = 2 \<and> cfg_valid cfg \<and> fst (application_run env cfg s) = Ok True) \<and>
    (code = 0 \<or> code = 1) \<and>
    (length argv = 2 \<and> cfg_valid cfg \<longrightarrow>
       lg_level lg = (case cfg_log_level cfg of None \<Rightarrow> ll_info | Some l \<Rightarrow> l)) \<and>
    (acts \<noteq> [] \<longrightarrow> length argv = 2 \<and> cfg_valid cfg)"
  using assms(1) unfolding main_def assms(2) [symmetric]
  by (auto simp: Let_def final_exception_def set_level_def gl_logger_def
      split: if_splits outcome.splits prod.splits option.split)

theorem main_exit_code_witness:
  "\<exists>lg acts. main demo_app (\<lambda>_. (empty_msg, None)) (\<lambda>_. Contents ''{}'') [''acppsrv'', ''c.json''] [] =
     Some (0, lg, acts) \<and> lg_level lg = ll_info"
proof -
  let ?argv = "[''acppsrv'', ''c.json'']" and ?jp = "\<lambda>_. (empty_msg, None)" and ?rf = "\<lambda>_. Contents ''{}''"
  have cfg: "demo_conf = fst (configuration_ctor ?jp (?argv ! 1) (?rf (?argv ! 1)))"
    by (simp add: demo_conf_def configuration_ctor_def validate_def validate_log_def validate_pools_def
        validate_http_def empty_msg_def)
  have v: "cfg_valid demo_conf" "cfg_log_level demo_conf = None" by (simp_all add: demo_conf_def)
  obtain as s' where "application_run demo_app demo_conf [] = (Ok True, as, s')"
    using demo_app_run by (cases "application_run demo_app demo_conf []") auto
  then obtain code lg acts where r: "main demo_app ?jp ?rf ?argv [] = Some (code, lg, acts)"
    using v unfolding main_def cfg [symmetric] Let_def by simp
  from main_exit_code [OF r cfg] demo_app_run v r show ?thesis by auto
qed

end
