(* ===== verification/Process_Log.thy ===== *)
theory Process_Log
  imports Application
begin

text \<open>
  What \<open>main\<close> (\<^verbatim>\<open>src/acppsrv.cpp\<close>) logs and prints itself, besides the messages of the
  parts it calls: the start, the usage, the configuration file with the errors found in it,
  the log level and the end. It follows the same path as \<open>Application.main\<close>.
\<close>

section \<open>Messages of \<open>main\<close>\<close>

type_synonym entry = "log_level \<times> string"

definition server_usage :: "string \<Rightarrow> entry list \<times> string list" where
  "server_usage argv0 =
     ([(ll_crit, ''Invalid command line arguments'')],
      [''usage: '' @ path_filename argv0 @ '' cfg_file.json''])"

text \<open>The message at the label \<open>finish\<close>.\<close>

definition finish_entry :: "int \<Rightarrow> entry" where
  "finish_entry result =
     (if result = EXIT_SUCCESS then (ll_notice, ''Terminating successfully'')
      else (ll_crit, ''Terminating after error''))"

text \<open>An exception is logged and printed with the same text.\<close>

definition exception_report :: "exn \<Rightarrow> entry list \<times> string list" where
  "exception_report e =
     (let lines = snd (final_exception ''Terminated by unhandled exception: '' (exn_what e))
      in (map (Pair ll_emerg) lines, lines))"

text \<open>The log entries and the lines on standard output; \<open>None\<close> after a failed assertion.\<close>

definition main_report ::
    "'s app_env \<Rightarrow> (string \<Rightarrow> ConfigurationMsg \<times> string option) \<Rightarrow> (string \<Rightarrow> file_read) \<Rightarrow>
      string list \<Rightarrow> 's \<Rightarrow> (entry list \<times> string list) option" where
  "main_report env json_parse read_file argv s =
     (let starting = [(ll_notice, ''Starting ACppSrv version '' @ ae_version env)]
      in if length argv \<noteq> 2 then
           Some (starting @ fst (server_usage (hd argv)) @ [finish_entry EXIT_FAILURE], snd (server_usage (hd argv)))
         else
           let (cfg, errors) = configuration_ctor json_parse (argv ! 1) (read_file (argv ! 1));
               read = starting @ [(ll_notice, ''Configuration file '' @ quoted (argv ! 1))] @ map (Pair ll_crit) errors
           in if \<not> cfg_valid cfg then Some (read @ [finish_entry EXIT_FAILURE], [])
              else
                let set = read @ (case cfg_log_level cfg of
                      None \<Rightarrow> [] | Some ll \<Rightarrow> [(ll_notice, ''Log level set to '' @ to_string ll)])
                in case application_run env cfg s of
                     (Ok ok, acts, s) \<Rightarrow> Some (set @ [finish_entry (if ok then EXIT_SUCCESS else EXIT_FAILURE)], [])
                   | (Throw e, acts, s) \<Rightarrow> Some (set @ fst (exception_report e), snd (exception_report e))
                   | (Abort, acts, s) \<Rightarrow> None)"

section \<open>What the messages say\<close>

text \<open>Every message but the last announces no outcome: it is neither of the two last ones.\<close>

lemma finish_entry_simps [simp]:
  "fst (finish_entry r) = (if r = EXIT_SUCCESS then ll_notice else ll_crit)"
  "finish_entry r = (ll_notice, ''Terminating successfully'') \<longleftrightarrow> r = EXIT_SUCCESS"
  by (simp_all add: finish_entry_def ll_defs)

lemma exception_report_simps [simp]:
  "fst (exception_report e) = [(ll_emerg, ''Terminated by unhandled exception: '' @ exn_what e)]"
  "snd (exception_report e) = [''Terminated by unhandled exception: '' @ exn_what e]"
  by (simp_all add: exception_report_def final_exception_def)

text \<open>
  The process says how it ended. Whenever \<open>main\<close> returns, its first message names the
  version; its last one says success exactly when the exit code does, and otherwise has a
  level of at least \<open>crit\<close>; something is printed on standard output exactly for a wrong
  command line and for an exception of the application, and the configuration errors are
  logged before the end.
\<close>

lemma main_reports_outcome:
  assumes "main env json_parse read_file argv s = Some (code, lg, acts)"
    and "(cfg, errors) = configuration_ctor json_parse (argv ! 1) (read_file (argv ! 1))"
  shows "\<exists>ms out. main_report env json_parse read_file argv s = Some (ms, out) \<and>
    hd ms = (ll_notice, ''Starting ACppSrv version '' @ ae_version env) \<and>
    (code = EXIT_SUCCESS \<longleftrightarrow> last ms = (ll_notice, ''Terminating successfully'')) \<and>
    (code \<noteq> EXIT_SUCCESS \<longrightarrow> fst (last ms) \<le> ll_crit) \<and>
    (out \<noteq> [] \<longleftrightarrow> length argv \<noteq> 2 \<or> cfg_valid cfg \<and> (\<exists>e. fst (application_run env cfg s) = Throw e)) \<and>
    (length argv = 2 \<longrightarrow> Pair ll_crit ` set errors \<subseteq> set ms)"
proof -
  have c: "configuration_ctor json_parse (argv ! 1) (read_file (argv ! 1)) = (cfg, errors)" using assms(2) by simp
  have l: "ll_emerg \<le> ll_crit" "ll_emerg \<noteq> ll_notice" by (simp_all add: ll_defs)
  show ?thesis
    using assms(1) unfolding main_def main_report_def c
    by (auto simp: Let_def server_usage_def final_exception_def l split: if_splits outcome.splits prod.splits)
qed

end
