(* ===== verification/Application_Log.thy ===== *)
theory Application_Log
  imports Process_Log
begin

text \<open>
  What the main thread logs while the application runs, in order: \<open>application::run\<close>
  (\<^verbatim>\<open>src/application.cpp\<close>) with the messages of the thread pools (\<^verbatim>\<open>src/worker.cpp\<close>), of
  opening the databases (\<^verbatim>\<open>src/db_server.cpp\<close>) and of listening (\<^verbatim>\<open>src/http_server.cpp\<close>).
  Every function follows the path of the operation it belongs to and takes the outcomes from
  it. The messages of the SQLite wrapper and of the threads of the pools are not included.
\<close>

section \<open>Thread pools\<close>

definition pool_text :: "string \<Rightarrow> thread_pool \<Rightarrow> string \<Rightarrow> string" where
  "pool_text before p after = before @ [CHR 0x22] @ tp_name p @ [CHR 0x22] @ after"

definition threads_text :: "thread_pool \<Rightarrow> string" where
  "threads_text p = dec (thread_pool_size p) @ '' threads''"

definition pool_created :: "thread_pool \<Rightarrow> entry" where
  "pool_created p = (ll_notice, pool_text ''Created thread pool '' p ('' with '' @ threads_text p))"

definition pool_run_log :: "unit outcome \<Rightarrow> thread_pool \<Rightarrow> entry list" where
  "pool_run_log r p =
     (case r of Ok _ \<Rightarrow> [(ll_notice, pool_text ''Thread pool '' p ('' started with '' @ threads_text p))] | _ \<Rightarrow> [])"

definition pool_stop_log :: "thread_pool \<Rightarrow> entry" where
  "pool_stop_log p = (ll_notice, pool_text ''Stopping thread pool '' p ('' with '' @ threads_text p))"

definition pool_wait_log :: "thread_pool \<Rightarrow> entry list" where
  "pool_wait_log p =
     (if hd (tp_joinable p) then
        (ll_notice, ''Waiting for '' @ threads_text p @ pool_text '' in pool '' p '''') #
        (case join_all (tp_joinable p) of
           (Ok _, _) \<Rightarrow> [(ll_notice, pool_text ''Finished threads in pool '' p '''')]
         | _ \<Rightarrow> [])
      else [])"

definition pool_dtor_log :: "thread_pool \<Rightarrow> entry list" where
  "pool_dtor_log p = pool_wait_log p @
     (case thread_pool_wait p of
        (Ok _, _) \<Rightarrow> [(ll_notice, pool_text ''Destroyed thread pool '' p '''')]
      | _ \<Rightarrow> [])"

fun run_pools_log :: "(string \<Rightarrow> nat \<Rightarrow> bool) \<Rightarrow> string \<Rightarrow> bool \<Rightarrow> thread_pool list \<Rightarrow> entry list" where
  "run_pools_log spawn inherited persistent [] = []"
| "run_pools_log spawn inherited persistent (p # ps) =
     (case thread_pool_run (spawn (tp_name p)) inherited persistent p of
        (Ok u, q, _) \<Rightarrow> pool_run_log (Ok u) q @ run_pools_log spawn inherited persistent ps
      | (r, q, _) \<Rightarrow> pool_run_log r q)"

fun wait_pools_log :: "thread_pool list \<Rightarrow> entry list" where
  "wait_pools_log [] = []"
| "wait_pools_log (p # ps) =
     (case thread_pool_wait p of
        (Ok _, _) \<Rightarrow> pool_wait_log p @ wait_pools_log ps
      | _ \<Rightarrow> pool_wait_log p)"

text \<open>The destructors when \<open>run\<close> is left, for pools whose destructors do not fail.\<close>

definition unwind_log :: "app_pools \<Rightarrow> entry list" where
  "unwind_log ps = concat (map pool_dtor_log (ap_database ps # ap_main ps @ [ap_control ps]))"

text \<open>After a complete run the last main pool is destroyed before the others.\<close>

definition finish_log :: "app_pools \<Rightarrow> entry list" where
  "finish_log ps = pool_dtor_log (last (ap_main ps)) @ unwind_log (ps\<lparr>ap_main := butlast (ap_main ps)\<rparr>)"

section \<open>Opening the databases\<close>

definition open_entry :: "log_level \<Rightarrow> string \<Rightarrow> SQLite3Db \<Rightarrow> entry" where
  "open_entry level d_name d_def =
     (level, ''Open database='' @ [CHR 0x22] @ d_name @ [CHR 0x22] @ '' file='' @ sd_file d_def @ [CHR 0x22])"

definition prepare_entry :: "log_level \<Rightarrow> string \<Rightarrow> string \<times> string \<Rightarrow> entry" where
  "prepare_entry level d_name q =
     (level, ''Preparing database='' @ [CHR 0x22] @ d_name @ [CHR 0x22] @ '' query='' @ [CHR 0x22] @ fst q @ [CHR 0x22] @
        '' sql='' @ [CHR 0x22] @ snd q @ [CHR 0x22])"

fun open_queries_log :: "'s sqlite_api \<Rightarrow> log_level \<Rightarrow> string \<Rightarrow> connection \<Rightarrow> (string \<times> string) list \<Rightarrow> 's \<Rightarrow> entry list" where
  "open_queries_log api level d_name conn [] s = []"
| "open_queries_log api level d_name conn ((q_name, q_def) # qs) s =
     prepare_entry level d_name (q_name, q_def) #
     (case query_ctor api conn q_def q_name s of
        (Ok _, s) \<Rightarrow> open_queries_log api level d_name conn qs s
      | _ \<Rightarrow> [])"

definition open_database_log :: "'s sqlite_api \<Rightarrow> log_level \<Rightarrow> string \<Rightarrow> SQLite3Db \<Rightarrow> 's \<Rightarrow> entry list" where
  "open_database_log api level d_name d_def s =
     open_entry level d_name d_def #
     (case connection_ctor api (sd_file d_def) False s of
        (Ok conn, s) \<Rightarrow> open_queries_log api level d_name conn (sd_queries d_def) s
      | _ \<Rightarrow> [])"

fun open_databases_log ::
    "'s sqlite_api \<Rightarrow> log_level \<Rightarrow> (string \<times> db_def) list option \<Rightarrow> SQLite3 \<Rightarrow> 's \<Rightarrow> nat \<Rightarrow> entry list" where
  "open_databases_log api level zero [] s ns = []"
| "open_databases_log api level zero ((d_name, d_def) # ds) s ns =
     open_database_log api level d_name d_def s @
     (case open_database api zero d_name d_def s ns of
        (Ok _, s, ns) \<Rightarrow> open_databases_log api level zero ds s ns
      | _ \<Rightarrow> [])"

definition thread_entry :: "nat \<Rightarrow> nat \<Rightarrow> entry" where
  "thread_entry workers tidx = (ll_notice, ''Initializing database thread '' @ dec (tidx + 1) @ ''/'' @ dec workers)"

definition thread_level :: "nat \<Rightarrow> log_level" where
  "thread_level tidx = (if tidx = 0 then ll_notice else ll_debug)"

fun open_threads_log :: "'s sqlite_api \<Rightarrow> SQLite3 \<Rightarrow> nat \<Rightarrow> nat \<Rightarrow> databases \<Rightarrow> 's \<Rightarrow> nat \<Rightarrow> entry list" where
  "open_threads_log api cfg workers 0 dbs s ns = []"
| "open_threads_log api cfg workers (Suc n) dbs s ns =
     (let zero = (case dbs of [] \<Rightarrow> None | z # _ \<Rightarrow> Some z)
      in thread_entry workers (length dbs) # open_databases_log api (thread_level (length dbs)) zero cfg s ns @
         (case open_databases api zero cfg s ns of
            (Ok d, s, ns) \<Rightarrow> open_threads_log api cfg workers n (dbs @ [d]) s ns
          | _ \<Rightarrow> []))"

definition db_server_run_log :: "'s sqlite_api \<Rightarrow> SQLite3 option \<Rightarrow> nat \<Rightarrow> 's \<Rightarrow> entry list" where
  "db_server_run_log api cfg workers s =
     (let c = (case cfg of None \<Rightarrow> [] | Some c \<Rightarrow> c)
      in open_threads_log api c workers workers [] s 0 @
         (case open_threads api c workers [] s 0 of
            (Throw (Sqlite_error m), _) \<Rightarrow> [(ll_crit, ''Opening databases: '' @ m)]
          | _ \<Rightarrow> []))"

section \<open>Listening\<close>

definition http_server_run_log :: "(error_code \<Rightarrow> string) \<Rightarrow> acceptor_api \<Rightarrow> int \<Rightarrow> nat \<Rightarrow> server_cfg \<Rightarrow> entry list" where
  "http_server_run_log msg api max_listen workers cfg =
     (let q = to_int32 (case sv_listen_queue cfg of None \<Rightarrow> max_listen | Some q \<Rightarrow> int (unat q))
      in case aa_open_throws api of Some what \<Rightarrow> [] | None \<Rightarrow>
         if aa_set_option api \<noteq> Ec_none then
           [(ll_crit, ''Cannot set reuse_addres on server socket: '' @ msg (aa_set_option api))]
         else if aa_bind api (sv_port cfg) \<noteq> Ec_none then
           [(ll_crit, ''Cannot bind server socket: '' @ msg (aa_bind api (sv_port cfg)))]
         else if aa_listen api q \<noteq> Ec_none then
           [(ll_crit, ''Cannot listen on server socket: '' @ msg (aa_listen api q))]
         else [(ll_notice, ''Listening port='' @ dec (unat (sv_port cfg)) @ '' pools='' @ dec (sv_use_workers cfg) @
                 '' accept_pool='' @ (if sv_use_workers cfg < workers then ''1'' else ''0''))])"

section \<open>The application\<close>

definition create_pools_log :: "app_pools \<Rightarrow> entry list" where
  "create_pools_log ps = map pool_created (ap_control ps # ap_main ps @ [ap_database ps])"

definition start_pools_log :: "(string \<Rightarrow> nat \<Rightarrow> bool) \<Rightarrow> string \<Rightarrow> app_pools \<Rightarrow> entry list" where
  "start_pools_log spawn inherited ps =
     run_pools_log spawn inherited False [ap_control ps] @
     (case run_pools spawn inherited False [ap_control ps] of
        (Ok _, _) \<Rightarrow> run_pools_log spawn inherited True (ap_main ps @ [ap_database ps])
      | _ \<Rightarrow> [])"

definition run_http_log :: "'s app_env \<Rightarrow> (error_code \<Rightarrow> string) \<Rightarrow> configuration \<Rightarrow> app_pools \<Rightarrow> entry list" where
  "run_http_log env msg cfg ps =
     (let sv = http_server_ctor cfg (length (ap_main ps)) ''ACppSrv'' (ae_version env)
      in http_server_run_log msg (ae_acceptor env) (ae_max_listen env) (length (ap_main ps)) sv @
         (case http_server_run (ae_acceptor env) (ae_max_listen env) sv of
            (Throw _, _) \<Rightarrow> unwind_log ps
          | (Abort, _) \<Rightarrow> []
          | (Ok False, _) \<Rightarrow> (ll_crit, ''Cannot initialize HTTP server'') # unwind_log ps
          | (Ok True, _) \<Rightarrow>
              (ll_notice, ''Initialized, starting worker threads'') #
              start_pools_log (ae_spawn env) (ae_thread_name env) ps @
              (case start_pools (ae_spawn env) (ae_thread_name env) ps of
                 (Throw _, ps) \<Rightarrow> unwind_log ps
               | (Abort, _) \<Rightarrow> []
               | (Ok _, ps) \<Rightarrow>
                   wait_pools_log (ap_control ps # ap_main ps @ [ap_database ps]) @
                   (case join_pools ps of
                      (Throw _, ps) \<Rightarrow> unwind_log ps
                    | (Abort, _) \<Rightarrow> []
                    | (Ok _, ps) \<Rightarrow> finish_log ps))))"

definition application_run_log :: "'s app_env \<Rightarrow> (error_code \<Rightarrow> string) \<Rightarrow> configuration \<Rightarrow> 's \<Rightarrow> entry list" where
  "application_run_log env msg cfg s =
     (case create_pools (ae_hw env) cfg of
        Ok ps \<Rightarrow>
          (let dbs = cm_databases (cfg_data cfg); n = thread_pool_size (ap_database ps)
           in create_pools_log ps @ db_server_run_log (ae_sqlite env) dbs n s @
              (case db_server_run (ae_sqlite env) dbs n s of
                 (Throw _, _) \<Rightarrow> unwind_log ps
               | (Abort, _) \<Rightarrow> []
               | (Ok (False, _), _) \<Rightarrow> (ll_crit, ''Cannot initialize database server'') # unwind_log ps
               | (Ok (True, _), _) \<Rightarrow> run_http_log env msg cfg ps))
      | _ \<Rightarrow> [])"

text \<open>The handler of a termination signal, on a thread of the control pool.\<close>

definition signal_text :: "int \<Rightarrow> string" where
  "signal_text sig = (if sig = 2 then ''SIGINT'' else if sig = 15 then ''SIGTERM'' else dec_int sig)"

definition term_handler_log :: "(error_code \<Rightarrow> string) \<Rightarrow> error_code \<Rightarrow> int \<Rightarrow> databases \<Rightarrow> app_pools \<Rightarrow> entry list" where
  "term_handler_log msg ec sig dbs ps =
     (if ec \<noteq> Ec_none then (ll_warning, ''Waiting for termination signal failed: '' @ msg ec)
      else (ll_notice, ''Received termination signal '' @ signal_text sig)) #
     map pool_stop_log (ap_main ps @ [ap_database ps]) @
     map (\<lambda>i. (ll_debug, ''Interrupting database thread '' @ dec (i + 1) @ ''/'' @ dec (thread_pool_size (ap_database ps))))
       [0 ..< length dbs]"

section \<open>\<open>main\<close>\<close>

text \<open>The messages of \<open>main\<close> itself, as in \<open>main_report\<close>, with those of the application in their place.\<close>

definition main_log ::
    "'s app_env \<Rightarrow> (error_code \<Rightarrow> string) \<Rightarrow> (string \<Rightarrow> ConfigurationMsg \<times> string option) \<Rightarrow> (string \<Rightarrow> file_read) \<Rightarrow>
      string list \<Rightarrow> 's \<Rightarrow> entry list" where
  "main_log env msg json_parse read_file argv s =
     (let starting = [(ll_notice, ''Starting ACppSrv version '' @ ae_version env)]
      in if length argv \<noteq> 2 then starting @ fst (server_usage (hd argv)) @ [finish_entry EXIT_FAILURE]
         else
           let (cfg, errors) = configuration_ctor json_parse (argv ! 1) (read_file (argv ! 1));
               read = starting @ [(ll_notice, ''Configuration file '' @ quoted (argv ! 1))] @ map (Pair ll_crit) errors
           in if \<not> cfg_valid cfg then read @ [finish_entry EXIT_FAILURE]
              else
                read @ (case cfg_log_level cfg of
                  None \<Rightarrow> [] | Some ll \<Rightarrow> [(ll_notice, ''Log level set to '' @ to_string ll)]) @
                application_run_log env msg cfg s @
                (case fst (application_run env cfg s) of
                   Ok ok \<Rightarrow> [finish_entry (if ok then EXIT_SUCCESS else EXIT_FAILURE)]
                 | Throw e \<Rightarrow> fst (exception_report e)
                 | Abort \<Rightarrow> []))"

section \<open>Severe messages\<close>

definition severe :: "entry \<Rightarrow> bool" where
  "severe e \<longleftrightarrow> fst e \<le> ll_crit"

abbreviation severe_of :: "entry list \<Rightarrow> entry list" where "severe_of \<equiv> filter severe"

lemma severe_simps [simp]:
  "severe (ll_crit, m)" "severe (ll_emerg, m)" "\<not> severe (ll_notice, m)" "\<not> severe (ll_debug, m)"
  "\<not> severe (ll_warning, m)"
  by (simp_all add: severe_def ll_defs)

lemma pool_entries_mild [simp]:
  "\<not> severe (pool_created p)" "severe_of (pool_run_log r p) = []" "\<not> severe (pool_stop_log p)"
  "severe_of (pool_wait_log p) = []" "severe_of (pool_dtor_log p) = []"
  by (auto simp: pool_created_def pool_run_log_def pool_stop_log_def pool_wait_log_def pool_dtor_log_def
      split: outcome.split prod.split)

lemma run_pools_log_mild [simp]: "severe_of (run_pools_log spawn inherited persistent ps) = []"
  by (induction ps) (auto split: outcome.split prod.split)

lemma wait_pools_log_mild [simp]: "severe_of (wait_pools_log ps) = []"
  by (induction ps) (auto split: outcome.split prod.split)

lemma pools_log_mild [simp]:
  "severe_of (unwind_log ps) = []" "severe_of (finish_log ps) = []" "severe_of (create_pools_log ps) = []"
  by (simp_all add: unwind_log_def finish_log_def create_pools_log_def filter_concat comp_def filter_map)

lemma start_pools_log_mild [simp]: "severe_of (start_pools_log spawn inherited ps) = []"
  by (simp only: start_pools_log_def filter_append run_pools_log_mild filter.simps split: outcome.split prod.split) simp

lemma opening_entries_mild [simp]:
  "\<not> severe (open_entry (thread_level t) n d)" "\<not> severe (prepare_entry (thread_level t) n q)"
  "\<not> severe (thread_entry w t)"
  by (simp_all add: open_entry_def prepare_entry_def thread_entry_def thread_level_def)

lemma open_queries_log_mild [simp]: "severe_of (open_queries_log api (thread_level t) n conn qs s) = []"
  by (induction qs arbitrary: s) (auto split: outcome.split prod.split)

lemma open_databases_log_mild [simp]: "severe_of (open_databases_log api (thread_level t) zero ds s ns) = []"
  by (induction ds arbitrary: s ns) (auto simp: open_database_log_def split: outcome.split prod.split)

lemma open_threads_log_mild [simp]: "severe_of (open_threads_log api cfg w n dbs s ns) = []"
  by (induction n arbitrary: dbs s ns) (auto simp: Let_def split: outcome.split prod.split)

section \<open>The planned messages of opening the databases\<close>

text \<open>Thread by thread, database by database, query by query; details only for the first thread.\<close>

definition planned_database :: "log_level \<Rightarrow> string \<times> SQLite3Db \<Rightarrow> entry list" where
  "planned_database level d = open_entry level (fst d) (snd d) # map (prepare_entry level (fst d)) (sd_queries (snd d))"

definition planned_thread :: "nat \<Rightarrow> SQLite3 \<Rightarrow> nat \<Rightarrow> entry list" where
  "planned_thread workers cfg tidx =
     thread_entry workers tidx # concat (map (planned_database (thread_level tidx)) cfg)"

text \<open>A log that is the plan, or stops within it after its first message.\<close>

definition follows :: "bool \<Rightarrow> entry list \<Rightarrow> entry list \<Rightarrow> bool" where
  "follows ok l plan \<longleftrightarrow> (if ok then l = plan else \<exists>rest. plan = l @ rest)"

lemma follows_append: "follows ok l plan \<Longrightarrow> follows ok (xs @ l) (xs @ plan)"
  by (auto simp: follows_def split: if_splits)

lemma follows_Cons: "follows ok l plan \<Longrightarrow> follows ok (x # l) (x # plan)"
  by (auto simp: follows_def split: if_splits)

lemma follows_extend: "follows False l plan \<Longrightarrow> follows False l (plan @ later)"
  by (auto simp: follows_def)

abbreviation is_ok :: "'a outcome \<Rightarrow> bool" where "is_ok r \<equiv> (case r of Ok _ \<Rightarrow> True | _ \<Rightarrow> False)"

lemma open_queries_follows:
  "follows (is_ok (fst (open_queries api conn qs s))) (open_queries_log api level n conn qs s) (map (prepare_entry level n) qs)"
proof (induction qs arbitrary: s)
  case Nil
  then show ?case by (simp add: follows_def)
next
  case (Cons q qs)
  obtain a b where q: "q = (a, b)" by fastforce
  obtain r s1 where r: "query_ctor api conn b a s = (r, s1)" by fastforce
  show ?case
  proof (cases r)
    case (Ok c)
    obtain r2 s2 where r2: "open_queries api conn qs s1 = (r2, s2)" by fastforce
    from Cons.IH [of s1] r2 have "follows (is_ok r2) (open_queries_log api level n conn qs s1) (map (prepare_entry level n) qs)"
      by simp
    with q r r2 Ok show ?thesis by (cases r2) (simp_all add: follows_Cons)
  qed (use q r in \<open>simp_all add: follows_def\<close>)
qed

lemma open_database_follows:
  assumes "sync_for zero n ns \<noteq> None"
  shows "follows (is_ok (fst (open_database api zero n d s ns))) (open_database_log api level n d s) (planned_database level (n, d))"
proof -
  obtain r s1 where r: "connection_ctor api (sd_file d) False s = (r, s1)" by fastforce
  show ?thesis
  proof (cases r)
    case (Ok conn)
    obtain r2 s2 where r2: "open_queries api conn (sd_queries d) s1 = (r2, s2)" by fastforce
    have "is_ok (fst (open_database api zero n d s ns)) \<longleftrightarrow> is_ok r2"
      using assms r r2 Ok by (cases r2) (auto simp: open_database_def)
    with open_queries_follows [of api conn "sd_queries d" s1 level n] r r2 Ok show ?thesis
      by (simp add: open_database_log_def planned_database_def follows_Cons)
  qed (use r in \<open>simp_all add: open_database_log_def planned_database_def open_database_def follows_def\<close>)
qed

lemma open_databases_follows:
  assumes "syncs_from zero cfg k" and "zero = None \<Longrightarrow> ns = k"
  shows "follows (is_ok (fst (open_databases api zero cfg s ns))) (open_databases_log api level zero cfg s ns)
    (concat (map (planned_database level) cfg))"
  using assms
proof (induction cfg arbitrary: s ns k)
  case Nil
  then show ?case by (simp add: follows_def)
next
  case (Cons c cs)
  obtain n d where c: "c = (n, d)" by fastforce
  have sy: "sync_for zero n ns = Some k" using Cons.prems syncs_from_hd c by blast
  obtain r s1 ns1 where r: "open_database api zero n d s ns = (r, s1, ns1)" by (metis prod_cases3)
  have one: "follows (is_ok r) (open_database_log api level n d s) (planned_database level (n, d))"
    using open_database_follows [where zero = zero and n = n and ns = ns and api = api and d = d and s = s and level = level] sy r
    by simp
  show ?case
  proof (cases r)
    case (Ok db)
    obtain r2 s2 ns2 where r2: "open_databases api zero cs s1 ns1 = (r2, s2, ns2)" by (metis prod_cases3)
    have "zero = None \<Longrightarrow> ns1 = Suc k" using open_database_ok [of api zero n d s ns db s1 ns1] r Ok Cons.prems(2) by simp
    from Cons.IH [OF syncs_from_tl [OF Cons.prems(1)] this, of s1] r2
    have "follows (is_ok r2) (open_databases_log api level zero cs s1 ns1) (concat (map (planned_database level) cs))"
      by simp
    from follows_append [OF this] one c r r2 Ok show ?thesis by (cases r2) (simp_all add: follows_def)
  qed (use one c r in \<open>simp_all add: follows_extend\<close>)
qed

lemma open_threads_follows:
  assumes "distinct (map fst cfg)" and "list_all (entries_ok 0 cfg) dbs" and "dbs = [] \<Longrightarrow> ns = 0"
  shows "follows (is_ok (fst (open_threads api cfg n dbs s ns))) (open_threads_log api cfg workers n dbs s ns)
    (concat (map (planned_thread workers cfg) [length dbs ..< length dbs + n]))"
  using assms(2,3)
proof (induction n arbitrary: dbs s ns)
  case 0
  then show ?case by (simp add: follows_def)
next
  case (Suc n)
  let ?zero = "case dbs of [] \<Rightarrow> None | z # _ \<Rightarrow> Some z"
  have sy: "syncs_from ?zero cfg 0" using first_of_syncs [OF assms(1) Suc.prems(1)] by (simp add: first_of_def)
  have z: "?zero = None \<Longrightarrow> ns = 0" using Suc.prems(2) by (simp split: list.splits)
  obtain r s1 ns1 where r: "open_databases api ?zero cfg s ns = (r, s1, ns1)" by (metis prod_cases3)
  have one: "follows (is_ok r) (thread_entry workers (length dbs) # open_databases_log api (thread_level (length dbs)) ?zero cfg s ns)
      (planned_thread workers cfg (length dbs))"
    unfolding planned_thread_def
    using open_databases_follows [OF sy z, of api s "thread_level (length dbs)"] r by (intro follows_Cons) simp
  have split: "[length dbs ..< length dbs + Suc n] = length dbs # [Suc (length dbs) ..< length dbs + Suc n]"
    by (simp add: upt_rec)
  show ?case
  proof (cases r)
    case (Ok d)
    have "entries_ok 0 cfg d" using open_databases_ok [OF sy z, of api s d s1 ns1] r Ok by simp
    with Suc.prems Suc.IH [of "dbs @ [d]" ns1 s1]
    have "follows (is_ok (fst (open_threads api cfg n (dbs @ [d]) s1 ns1))) (open_threads_log api cfg workers n (dbs @ [d]) s1 ns1)
      (concat (map (planned_thread workers cfg) [Suc (length dbs) ..< length dbs + Suc n]))"
      by simp
    from follows_append [OF this]
    have "follows (is_ok (fst (open_threads api cfg n (dbs @ [d]) s1 ns1)))
      (planned_thread workers cfg (length dbs) @ open_threads_log api cfg workers n (dbs @ [d]) s1 ns1)
      (concat (map (planned_thread workers cfg) [length dbs ..< length dbs + Suc n]))"
      unfolding split by simp
    moreover have "open_threads_log api cfg workers (Suc n) dbs s ns =
        planned_thread workers cfg (length dbs) @ open_threads_log api cfg workers n (dbs @ [d]) s1 ns1"
      using one r Ok by (simp add: Let_def follows_def flip: append_Cons)
    moreover have "open_threads api cfg (Suc n) dbs s ns = open_threads api cfg n (dbs @ [d]) s1 ns1"
      using r Ok by simp
    ultimately show ?thesis by (simp only:)
  next
    case (Throw e)
    with one r show ?thesis unfolding split by (simp add: Let_def follows_extend)
  next
    case Abort
    with one r show ?thesis unfolding split by (simp add: Let_def follows_extend)
  qed
qed

section \<open>The severe messages of each part\<close>

lemma db_server_run_severe:
  "severe_of (db_server_run_log api cfg workers s) =
    (case fst (open_threads api (case cfg of None \<Rightarrow> [] | Some c \<Rightarrow> c) workers [] s 0) of
       Throw (Sqlite_error m) \<Rightarrow> [(ll_crit, ''Opening databases: '' @ m)] | _ \<Rightarrow> [])"
  by (auto simp: db_server_run_log_def Let_def split: prod.split outcome.split exn.split)

lemma http_server_run_severe:
  "http_server_run api max_listen cfg = (r, acts) \<Longrightarrow>
    (if r = Ok False then \<exists>cause. severe_of (http_server_run_log msg api max_listen workers cfg) = [(ll_crit, cause)]
     else severe_of (http_server_run_log msg api max_listen workers cfg) = [])"
  by (auto simp: http_server_run_def http_server_run_log_def Let_def split: option.splits if_splits)

lemma run_http_severe:
  assumes "run_http env cfg ps = (r, acts)" and "r \<noteq> Abort"
  shows "if r = Ok False
    then \<exists>cause. severe_of (run_http_log env msg cfg ps) = [(ll_crit, cause), (ll_crit, ''Cannot initialize HTTP server'')]
    else severe_of (run_http_log env msg cfg ps) = []"
proof -
  let ?sv = "http_server_ctor cfg (length (ap_main ps)) ''ACppSrv'' (ae_version env)"
  obtain h hs where h: "http_server_run (ae_acceptor env) (ae_max_listen env) ?sv = (h, hs)" by fastforce
  have tail: "severe_of (case start_pools sp nm ps of
        (Throw _, ps) \<Rightarrow> unwind_log ps | (Abort, _) \<Rightarrow> []
      | (Ok _, ps) \<Rightarrow> wait_pools_log (ap_control ps # ap_main ps @ [ap_database ps]) @
          (case join_pools ps of (Throw _, ps) \<Rightarrow> unwind_log ps | (Abort, _) \<Rightarrow> [] | (Ok _, ps) \<Rightarrow> finish_log ps)) = []"
    for sp nm
    by (simp del: wait_pools_log.simps split: prod.split outcome.split)
  have "r = Ok False \<longleftrightarrow> h = Ok False"
    using assms h by (auto simp: run_http_def unwind_def split: prod.splits outcome.splits bool.splits if_splits)
  with http_server_run_severe [OF h, of msg "length (ap_main ps)"] h assms show ?thesis
    by (auto simp: run_http_log_def Let_def tail split: outcome.split bool.split)
qed

lemma application_severe:
  assumes "application_run env cfg s = (r, acts, s')" and "r \<noteq> Abort"
  shows "if r = Ok False
    then \<exists>cause part. part \<in> {''database server'', ''HTTP server''} \<and>
      severe_of (application_run_log env msg cfg s) = [(ll_crit, cause), (ll_crit, ''Cannot initialize '' @ part)]
    else severe_of (application_run_log env msg cfg s) = []"
proof -
  obtain ps where ps: "create_pools (ae_hw env) cfg = Ok ps" using create_pools_ok [of "ae_hw env" cfg] by blast
  let ?dbs = "cm_databases (cfg_data cfg)" and ?n = "thread_pool_size (ap_database ps)"
  obtain o1 s1 where o: "open_threads (ae_sqlite env) (case ?dbs of None \<Rightarrow> [] | Some c \<Rightarrow> c) ?n [] s 0 = (o1, s1)"
    by fastforce
  note log = application_run_log_def db_server_run_severe Let_def
  show ?thesis
  proof (cases o1)
    case (Ok dbs)
    then have d: "db_server_run (ae_sqlite env) ?dbs ?n s = (Ok (True, dbs), s1)"
      using o by (simp add: db_server_run_def)
    with assms ps have "run_http env cfg ps = (r, drop 3 acts)"
      by (auto simp: application_run_def split: prod.splits)
    from run_http_severe [OF this assms(2), of msg] ps o Ok d show ?thesis
      by (auto simp: log split: if_splits)
  next
    case (Throw e)
    have r: "r = (case e of Sqlite_error m \<Rightarrow> Ok False | _ \<Rightarrow> Throw e)"
      using assms ps o Throw
      by (auto simp: application_run_def db_server_run_def unwind_def split: exn.splits if_splits)
    show ?thesis
      using ps o Throw r by (cases e) (auto simp: log db_server_run_def)
  qed (use assms ps o in \<open>simp add: application_run_def db_server_run_def\<close>)
qed

lemma validate_errors: "fst (validate f d) \<longleftrightarrow> snd (snd (validate f d)) = []"
  by (simp add: validate_def validate_msgs case_prod_beta Let_def)

lemma configuration_errors:
  "configuration_ctor json_parse f c = (cfg, errors) \<Longrightarrow> cfg_valid cfg \<longleftrightarrow> errors = []"
  by (auto simp: configuration_ctor_def case_prod_beta Let_def validate_errors
      split: file_read.splits prod.splits option.splits)

section \<open>Properties\<close>

text \<open>
  The log of opening the databases. If all databases open, it is exactly the plan: every
  thread of the pool in order, and for it every configured database with its queries. If not,
  it stops within the plan, at the database or query that failed, and one critical message with
  the error of SQLite follows.
\<close>

lemma opening_logged:
  assumes "distinct (map fst cfg)" and "db_server_run api (Some cfg) workers s = (Ok (ok, dbs), s')"
    and "plan = concat (map (planned_thread workers cfg) [0 ..< workers])"
  shows "if ok then db_server_run_log api (Some cfg) workers s = plan
    else \<exists>start rest m. plan = start @ rest \<and>
      db_server_run_log api (Some cfg) workers s = start @ [(ll_crit, ''Opening databases: '' @ m)]"
proof -
  obtain r s1 where r: "open_threads api cfg workers [] s 0 = (r, s1)" by fastforce
  have "follows (is_ok r) (open_threads_log api cfg workers workers [] s 0) plan"
    using open_threads_follows [OF assms(1), of "[]" 0 api workers s workers] r assms(3) by simp
  moreover have "ok \<longleftrightarrow> is_ok r" "\<not> ok \<Longrightarrow> \<exists>m. r = Throw (Sqlite_error m)"
    using assms(2) r by (auto simp: db_server_run_def split: outcome.splits exn.splits)
  ultimately show ?thesis
    using r by (auto simp: db_server_run_log_def follows_def split: outcome.splits)
qed

lemma opening_logged_witness:
  "\<exists>ok dbs s'. db_server_run scripted (Some demo_cfg) 2 [] = (Ok (ok, dbs), s') \<and>
    (if ok then db_server_run_log scripted (Some demo_cfg) 2 [] = concat (map (planned_thread 2 demo_cfg) [0 ..< 2])
     else \<exists>m. last (db_server_run_log scripted (Some demo_cfg) 2 []) = (ll_crit, ''Opening databases: '' @ m))"
proof -
  obtain dbs s' where r: "db_server_run scripted (Some demo_cfg) 2 [] = (Ok (True, dbs), s')"
    using demo_run by blast
  have "distinct (map fst demo_cfg)" by (simp add: demo_cfg_def)
  from opening_logged [OF this r refl] r show ?thesis by auto
qed



end
