(* ===== verification/Db_Sync.thy ===== *)
theory Db_Sync
  imports Db_Server
begin

text \<open>
  The threads of the database pool that run \<open>db_server::execute_query\<close> at the same time
  (\<^verbatim>\<open>src/db_server.cpp\<close>). They share SQLite and, per database, a \<open>db_sync_t\<close>: a flag
  \<open>finished\<close>, a mutex and a condition variable. Here each thread has its own position in the
  function, a critical section under the mutex is one step, and a run is a list of events:
  steps of threads, wake-ups by the condition variable, the clock, and changes of the
  database made elsewhere. \<^verbatim>\<open>Db_Server\<close> has the same function as one call; the two agree for
  a thread that runs alone.
\<close>

section \<open>State\<close>

text \<open>
  The positions: before \<open>next_row\<close>; before locking the mutex for \<open>wait_for\<close>; blocked in
  the condition variable until a deadline; returned from it (with or without a timeout) and
  waiting for the mutex; before \<open>start(true)\<close>; leaving the scope of the guard; left.
\<close>

datatype query_pc =
    Q_row
  | Q_wait
  | Q_asleep int
  | Q_awake int bool
  | Q_restart
  | Q_leave "unit outcome"
  | Q_end "unit outcome"

record query_thread =
  qt_db :: db_def
  qt_query :: query
  qt_columns :: int
  qt_retries :: u32
  qt_rows :: "Row list"
  qt_pc :: query_pc

text \<open>
  What happened to the flags, in order: a query ended and set the flag of its database, or a
  thread went on after \<open>wait_for\<close> and cleared it, having found it set or not.
\<close>

datatype sync_note = Signalled nat | Released nat nat bool

record 's sync_world =
  sw_sq :: 's
  sw_finished :: "nat \<Rightarrow> bool"
  sw_now :: int
  sw_threads :: "query_thread option list"
  sw_log :: "sync_note list"

abbreviation qt_sync :: "query_thread \<Rightarrow> nat" where "qt_sync t \<equiv> dd_sync (qt_db t)"

definition thread_at :: "'s sync_world \<Rightarrow> nat \<Rightarrow> query_thread option" where
  "thread_at w tid = (if tid < length (sw_threads w) then sw_threads w ! tid else None)"

definition put_thread :: "nat \<Rightarrow> query_thread \<Rightarrow> 's sync_world \<Rightarrow> 's sync_world" where
  "put_thread tid t w = w\<lparr>sw_threads := (sw_threads w)[tid := Some t]\<rparr>"

fun is_asleep :: "query_pc \<Rightarrow> bool" where
  "is_asleep (Q_asleep _) = True"
| "is_asleep _ = False"

fun is_awake :: "query_pc \<Rightarrow> bool" where
  "is_awake (Q_awake _ _) = True"
| "is_awake _ = False"

fun is_end :: "query_pc \<Rightarrow> bool" where
  "is_end (Q_end _) = True"
| "is_end _ = False"

definition sleeper :: "nat \<Rightarrow> 's sync_world \<Rightarrow> nat \<Rightarrow> bool" where
  "sleeper i w tid \<longleftrightarrow> (case thread_at w tid of Some t \<Rightarrow> is_asleep (qt_pc t) \<and> qt_sync t = i | None \<Rightarrow> False)"

definition sleepers :: "nat \<Rightarrow> 's sync_world \<Rightarrow> nat list" where
  "sleepers i w = filter (sleeper i w) [0..<length (sw_threads w)]"

section \<open>Steps of a thread\<close>

definition enter_query :: "'s sqlite_api \<Rightarrow> db_def \<Rightarrow> query \<Rightarrow> u32 \<Rightarrow> 's \<Rightarrow> query_thread" where
  "enter_query api db q retries s =
     \<lparr>qt_db = db, qt_query = q, qt_columns = column_count api q s, qt_retries = retries, qt_rows = [], qt_pc = Q_row\<rparr>"

definition row_turn :: "'s sqlite_api \<Rightarrow> query_thread \<Rightarrow> 's \<Rightarrow> query_thread \<times> 's" where
  "row_turn api t s =
     (case next_row api (qt_query t) (qt_retries t) s of
        (Ok St_done, s) \<Rightarrow> (t\<lparr>qt_pc := Q_leave (Ok ())\<rparr>, s)
      | (Ok St_locked, s) \<Rightarrow>
          (if 0 < qt_retries t
           then (t\<lparr>qt_retries := qt_retries t - 1, qt_pc := if 0 < dd_retry_wait (qt_db t) then Q_wait else Q_restart\<rparr>, s)
           else (t\<lparr>qt_pc := Q_end Abort\<rparr>, s))
      | (Ok St_row, s) \<Rightarrow> (t\<lparr>qt_rows := qt_rows t @ [fetch_row api (qt_query t) (qt_columns t) s]\<rparr>, s)
      | (Throw e, s) \<Rightarrow> (t\<lparr>qt_pc := Q_leave (Throw e)\<rparr>, s)
      | (Abort, s) \<Rightarrow> (t\<lparr>qt_pc := Q_end Abort\<rparr>, s))"

definition restart_turn :: "'s sqlite_api \<Rightarrow> query_thread \<Rightarrow> 's \<Rightarrow> query_thread \<times> 's" where
  "restart_turn api t s =
     (case query_start api (qt_query t) True s of
        (Ok _, s) \<Rightarrow> (t\<lparr>qt_pc := Q_row\<rparr>, s)
      | (Throw e, s) \<Rightarrow> (t\<lparr>qt_pc := Q_leave (Throw e)\<rparr>, s)
      | (Abort, s) \<Rightarrow> (t\<lparr>qt_pc := Q_end Abort\<rparr>, s))"

text \<open>
  With the mutex held: the predicate of \<open>wait_for\<close>, and \<open>finished = false\<close> when the wait is
  over; otherwise the thread blocks, which releases the mutex.
\<close>

definition wait_test :: "nat \<Rightarrow> query_thread \<Rightarrow> int \<Rightarrow> bool \<Rightarrow> 's sync_world \<Rightarrow> 's sync_world" where
  "wait_test tid t deadline timed_out w =
     (if sw_finished w (qt_sync t) \<or> timed_out
      then put_thread tid (t\<lparr>qt_pc := Q_restart\<rparr>)
        (w\<lparr>sw_finished := (sw_finished w)(qt_sync t := False),
           sw_log := sw_log w @ [Released tid (qt_sync t) (sw_finished w (qt_sync t))]\<rparr>)
      else put_thread tid (t\<lparr>qt_pc := Q_asleep deadline\<rparr>) w)"

text \<open>The body of the guard, without the choice of the thread to notify.\<close>

definition raise_flag :: "nat \<Rightarrow> query_thread \<Rightarrow> unit outcome \<Rightarrow> 's sync_world \<Rightarrow> 's sync_world" where
  "raise_flag tid t r w = put_thread tid (t\<lparr>qt_pc := Q_end r\<rparr>)
     (w\<lparr>sw_finished := (sw_finished w)(qt_sync t := True), sw_log := sw_log w @ [Signalled (qt_sync t)]\<rparr>)"

fun woken_pc :: "bool \<Rightarrow> query_pc \<Rightarrow> query_pc" where
  "woken_pc timed_out (Q_asleep d) = Q_awake d timed_out"
| "woken_pc timed_out (Q_awake d b) = Q_awake d (b \<or> timed_out)"
| "woken_pc timed_out pc = pc"

definition wake :: "bool \<Rightarrow> nat \<Rightarrow> 's sync_world \<Rightarrow> 's sync_world" where
  "wake timed_out tid w =
     (case thread_at w tid of
        Some t \<Rightarrow> put_thread tid (t\<lparr>qt_pc := woken_pc timed_out (qt_pc t)\<rparr>) w
      | None \<Rightarrow> w)"

section \<open>Events\<close>

text \<open>
  A thread without a query enters one; a thread takes its next step; a thread leaves and its
  \<open>notify_one\<close> wakes a blocked thread of the same database; a deadline passes; a thread wakes
  up although nobody notified it; time passes; the database changes.
\<close>

datatype 's sync_event =
    Begin nat db_def query u32
  | Run nat
  | Notify nat nat
  | Timeout nat
  | Spurious nat
  | Clock nat
  | Other 's

definition run_thread :: "'s sqlite_api \<Rightarrow> nat \<Rightarrow> query_thread \<Rightarrow> 's sync_world \<Rightarrow> 's sync_world option" where
  "run_thread api tid t w =
     (case qt_pc t of
        Q_row \<Rightarrow> (case row_turn api t (sw_sq w) of (t, s) \<Rightarrow> Some (put_thread tid t (w\<lparr>sw_sq := s\<rparr>)))
      | Q_wait \<Rightarrow> Some (wait_test tid t (sw_now w + dd_retry_wait (qt_db t)) False w)
      | Q_asleep _ \<Rightarrow> None
      | Q_awake deadline timed_out \<Rightarrow> Some (wait_test tid t deadline timed_out w)
      | Q_restart \<Rightarrow> (case restart_turn api t (sw_sq w) of (t, s) \<Rightarrow> Some (put_thread tid t (w\<lparr>sw_sq := s\<rparr>)))
      | Q_leave r \<Rightarrow> if sleepers (qt_sync t) w = [] then Some (raise_flag tid t r w) else None
      | Q_end _ \<Rightarrow> None)"

definition due :: "int \<Rightarrow> query_pc \<Rightarrow> bool" where
  "due now pc \<longleftrightarrow> (case pc of Q_asleep d \<Rightarrow> d \<le> now | Q_awake d _ \<Rightarrow> d \<le> now | _ \<Rightarrow> False)"

fun sync_apply :: "'s sqlite_api \<Rightarrow> 's sync_event \<Rightarrow> 's sync_world \<Rightarrow> 's sync_world option" where
  "sync_apply api (Begin tid db q retries) w =
     (if tid < length (sw_threads w) \<and> (case thread_at w tid of None \<Rightarrow> True | Some t \<Rightarrow> is_end (qt_pc t))
      then Some (put_thread tid (enter_query api db q retries (sw_sq w)) w) else None)"
| "sync_apply api (Run tid) w = Option.bind (thread_at w tid) (\<lambda>t. run_thread api tid t w)"
| "sync_apply api (Notify tid k) w =
     (case thread_at w tid of
        Some t \<Rightarrow> (case qt_pc t of
            Q_leave r \<Rightarrow> if sleeper (qt_sync t) w k then Some (wake False k (raise_flag tid t r w)) else None
          | _ \<Rightarrow> None)
      | None \<Rightarrow> None)"
| "sync_apply api (Timeout k) w =
     (case thread_at w k of
        Some t \<Rightarrow> if due (sw_now w) (qt_pc t) then Some (wake True k w) else None
      | None \<Rightarrow> None)"
| "sync_apply api (Spurious k) w =
     (case thread_at w k of
        Some t \<Rightarrow> if is_asleep (qt_pc t) then Some (wake False k w) else None
      | None \<Rightarrow> None)"
| "sync_apply api (Clock n) w = Some (w\<lparr>sw_now := sw_now w + int n\<rparr>)"
| "sync_apply api (Other s) w = Some (w\<lparr>sw_sq := s\<rparr>)"

fun sync_run :: "'s sqlite_api \<Rightarrow> 's sync_event list \<Rightarrow> 's sync_world \<Rightarrow> 's sync_world option" where
  "sync_run api [] w = Some w"
| "sync_run api (e # es) w = Option.bind (sync_apply api e w) (sync_run api es)"

definition sync_init :: "nat \<Rightarrow> 's sync_world \<Rightarrow> bool" where
  "sync_init workers w \<longleftrightarrow> sw_threads w = replicate workers None \<and> sw_finished w = (\<lambda>_. False) \<and> sw_log w = []"

definition sync_step :: "'s sqlite_api \<Rightarrow> 's sync_world \<Rightarrow> 's sync_world \<Rightarrow> bool" where
  "sync_step api w w' \<longleftrightarrow> (\<exists>e. sync_apply api e w = Some w')"

section \<open>Invariant\<close>

text \<open>A thread waits only with a positive time to wait, never past it, and no assertion fails.\<close>

definition thread_ok :: "int \<Rightarrow> query_thread \<Rightarrow> bool" where
  "thread_ok now t \<longleftrightarrow>
     (case qt_pc t of
        Q_wait \<Rightarrow> 0 < dd_retry_wait (qt_db t)
      | Q_asleep d \<Rightarrow> 0 < dd_retry_wait (qt_db t) \<and> d \<le> now + dd_retry_wait (qt_db t)
      | Q_awake d _ \<Rightarrow> 0 < dd_retry_wait (qt_db t) \<and> d \<le> now + dd_retry_wait (qt_db t)
      | Q_leave r \<Rightarrow> r \<noteq> Abort
      | Q_end r \<Rightarrow> r \<noteq> Abort
      | _ \<Rightarrow> True)"

definition threads_ok :: "'s sync_world \<Rightarrow> bool" where
  "threads_ok w \<longleftrightarrow> (\<forall>tid t. thread_at w tid = Some t \<longrightarrow> thread_ok (sw_now w) t)"

text \<open>A set flag with a blocked thread has a thread on its way to the mutex.\<close>

definition wakeful :: "nat \<Rightarrow> 's sync_world \<Rightarrow> bool" where
  "wakeful i w \<longleftrightarrow> (sw_finished w i \<and> (\<exists>k. sleeper i w k) \<longrightarrow>
     (\<exists>k t. thread_at w k = Some t \<and> is_awake (qt_pc t) \<and> qt_sync t = i))"

definition signals :: "nat \<Rightarrow> sync_note list \<Rightarrow> nat" where
  "signals i l = length (filter (\<lambda>n. n = Signalled i) l)"

definition releases :: "nat \<Rightarrow> sync_note list \<Rightarrow> nat" where
  "releases i l = length (filter (\<lambda>n. case n of Released _ j early \<Rightarrow> j = i \<and> early | _ \<Rightarrow> False) l)"

definition signals_ok :: "nat \<Rightarrow> 's sync_world \<Rightarrow> bool" where
  "signals_ok i w \<longleftrightarrow> releases i (sw_log w) + (if sw_finished w i then 1 else 0) \<le> signals i (sw_log w)"

definition sync_inv :: "'s sync_world \<Rightarrow> bool" where
  "sync_inv w \<longleftrightarrow> threads_ok w \<and> (\<forall>i. wakeful i w \<and> signals_ok i w)"

section \<open>Lemmas\<close>

lemma put_thread_simps [simp]:
  "sw_sq (put_thread k t w) = sw_sq w" "sw_finished (put_thread k t w) = sw_finished w"
  "sw_now (put_thread k t w) = sw_now w" "sw_log (put_thread k t w) = sw_log w"
  "length (sw_threads (put_thread k t w)) = length (sw_threads w)"
  by (simp_all add: put_thread_def)

lemma thread_at_put:
  "thread_at (put_thread k t w) tid = (if tid = k \<and> k < length (sw_threads w) then Some t else thread_at w tid)"
  by (auto simp: thread_at_def put_thread_def)

lemma thread_at_update [simp]:
  "thread_at (w\<lparr>sw_sq := s\<rparr>) = thread_at w" "thread_at (w\<lparr>sw_finished := f\<rparr>) = thread_at w"
  "thread_at (w\<lparr>sw_now := n\<rparr>) = thread_at w" "thread_at (w\<lparr>sw_log := l\<rparr>) = thread_at w"
  by (simp_all add: thread_at_def fun_eq_iff)

lemma thread_at_bound: "thread_at w tid = Some t \<Longrightarrow> tid < length (sw_threads w)"
  by (simp add: thread_at_def split: if_splits)

lemma thread_at_put_other [simp]: "tid \<noteq> k \<Longrightarrow> thread_at (put_thread k t w) tid = thread_at w tid"
  by (simp add: thread_at_put)

lemma thread_at_put_same: "thread_at w tid = Some u \<Longrightarrow> thread_at (put_thread tid t w) tid = Some t"
  by (simp add: thread_at_put thread_at_bound)

lemma sleeper_update [simp]:
  "sleeper i (w\<lparr>sw_sq := s\<rparr>) = sleeper i w" "sleeper i (w\<lparr>sw_finished := f\<rparr>) = sleeper i w"
  "sleeper i (w\<lparr>sw_now := n\<rparr>) = sleeper i w" "sleeper i (w\<lparr>sw_log := l\<rparr>) = sleeper i w"
  by (simp_all add: sleeper_def fun_eq_iff)

lemma sleeper_iff:
  "sleeper i w k \<longleftrightarrow> (\<exists>t. thread_at w k = Some t \<and> is_asleep (qt_pc t) \<and> qt_sync t = i)"
  by (simp add: sleeper_def split: option.split)

lemma sleepers_empty: "sleepers i w = [] \<longleftrightarrow> (\<forall>k. \<not> sleeper i w k)"
  using thread_at_bound by (fastforce simp: sleepers_def filter_empty_conv sleeper_iff)

text \<open>
  The kinds of change an event makes: a thread that is not waiting goes on, a thread blocks
  because the flag is not set, a thread is released and clears the flag, a query ends and sets
  the flag with nobody blocked or waking a blocked thread, a waiting thread wakes up, time
  passes, the database changes.
\<close>

fun in_wait :: "query_pc \<Rightarrow> bool" where
  "in_wait Q_wait = True"
| "in_wait (Q_asleep _) = True"
| "in_wait (Q_awake _ _) = True"
| "in_wait _ = False"

definition moves :: "'s sqlite_api \<Rightarrow> 's sync_world \<Rightarrow> nat \<Rightarrow> query_thread \<Rightarrow> 's \<Rightarrow> bool" where
  "moves api w tid t s \<longleftrightarrow>
     (\<exists>db q r. t = enter_query api db q r (sw_sq w) \<and> s = sw_sq w \<and> tid < length (sw_threads w) \<and>
        (\<forall>u. thread_at w tid = Some u \<longrightarrow> is_end (qt_pc u))) \<or>
     (\<exists>u. thread_at w tid = Some u \<and>
        (qt_pc u = Q_row \<and> row_turn api u (sw_sq w) = (t, s) \<or>
         qt_pc u = Q_restart \<and> restart_turn api u (sw_sq w) = (t, s)))"

lemma run_waiting:
  "run_thread api tid t w = Some w' \<Longrightarrow> in_wait (qt_pc t) \<Longrightarrow> \<exists>d b. w' = wait_test tid t d b w \<and>
    (qt_pc t = Q_wait \<and> d = sw_now w + dd_retry_wait (qt_db t) \<and> \<not> b \<or> qt_pc t = Q_awake d b)"
  by (cases "qt_pc t") (auto simp: run_thread_def)

lemma notify_effect:
  assumes "sync_apply api (Notify tid k) w = Some w'"
  shows "\<exists>t r u d. thread_at w tid = Some t \<and> qt_pc t = Q_leave r \<and> tid \<noteq> k \<and> thread_at w k = Some u \<and>
    qt_pc u = Q_asleep d \<and> qt_sync u = qt_sync t \<and>
    w' = put_thread k (u\<lparr>qt_pc := Q_awake d False\<rparr>) (raise_flag tid t r w)"
proof -
  from assms obtain t r where t: "thread_at w tid = Some t" "qt_pc t = Q_leave r" "sleeper (qt_sync t) w k"
    and w': "w' = wake False k (raise_flag tid t r w)"
    by (auto split: option.splits query_pc.splits if_splits)
  from t(3) obtain u d where u: "thread_at w k = Some u" "qt_pc u = Q_asleep d" "qt_sync u = qt_sync t"
    by (auto simp: sleeper_iff elim: is_asleep.elims)
  from t u have "tid \<noteq> k" by auto
  with t u w' show ?thesis by (auto simp: wake_def raise_flag_def)
qed

lemma sync_apply_cases:
  assumes "sync_apply api e w = Some w'"
  obtains
    (move) tid t s where "moves api w tid t s" "w' = put_thread tid t (w\<lparr>sw_sq := s\<rparr>)"
      "(\<exists>db q r. e = Begin tid db q r) \<or> (\<exists>u. thread_at w tid = Some u \<and> \<not> is_end (qt_pc u))"
  | (block) tid t d where "thread_at w tid = Some t" "\<not> sw_finished w (qt_sync t)"
      "qt_pc t = Q_wait \<and> d = sw_now w + dd_retry_wait (qt_db t) \<or> qt_pc t = Q_awake d False"
      "w' = put_thread tid (t\<lparr>qt_pc := Q_asleep d\<rparr>) w"
  | (release) tid t where "thread_at w tid = Some t" "in_wait (qt_pc t)" "\<not> is_asleep (qt_pc t)"
      "w' = put_thread tid (t\<lparr>qt_pc := Q_restart\<rparr>)
        (w\<lparr>sw_finished := (sw_finished w)(qt_sync t := False),
           sw_log := sw_log w @ [Released tid (qt_sync t) (sw_finished w (qt_sync t))]\<rparr>)"
  | (signal) tid t r where "thread_at w tid = Some t" "qt_pc t = Q_leave r" "\<forall>k. \<not> sleeper (qt_sync t) w k"
      "w' = raise_flag tid t r w"
  | (notify) tid t r k u d where "thread_at w tid = Some t" "qt_pc t = Q_leave r" "tid \<noteq> k"
      "thread_at w k = Some u" "qt_pc u = Q_asleep d" "qt_sync u = qt_sync t"
      "w' = put_thread k (u\<lparr>qt_pc := Q_awake d False\<rparr>) (raise_flag tid t r w)"
  | (woken) k t d b where "thread_at w k = Some t" "qt_pc t = Q_asleep d \<or> (\<exists>b. qt_pc t = Q_awake d b)"
      "w' = put_thread k (t\<lparr>qt_pc := Q_awake d b\<rparr>) w"
  | (clock) n where "w' = w\<lparr>sw_now := sw_now w + int n\<rparr>"
  | (other) s where "w' = w\<lparr>sw_sq := s\<rparr>"
proof (cases e)
  case (Begin tid db q r)
  with assms have "moves api w tid (enter_query api db q r (sw_sq w)) (sw_sq w)"
    "w' = put_thread tid (enter_query api db q r (sw_sq w)) (w\<lparr>sw_sq := sw_sq w\<rparr>)"
    by (auto simp: moves_def split: if_splits option.splits)
  then show ?thesis by (rule move) (simp add: Begin)
next
  case (Run tid)
  with assms obtain t where t: "thread_at w tid = Some t" "run_thread api tid t w = Some w'"
    by (auto simp: bind_eq_Some_conv)
  show ?thesis
  proof (cases "in_wait (qt_pc t)")
    case True
    then obtain d b where w': "w' = wait_test tid t d b w"
        "qt_pc t = Q_wait \<and> d = sw_now w + dd_retry_wait (qt_db t) \<and> \<not> b \<or> qt_pc t = Q_awake d b"
      using run_waiting [OF t(2)] by blast
    show ?thesis
    proof (cases "sw_finished w (qt_sync t) \<or> b")
      case True
      with w' show ?thesis by (intro release [OF t(1)]) (auto simp: wait_test_def)
    next
      case False
      with w' show ?thesis by (intro block [OF t(1), of d]) (auto simp: wait_test_def)
    qed
  next
    case False
    obtain t1 s1 t2 s2 where "row_turn api t (sw_sq w) = (t1, s1)" "restart_turn api t (sw_sq w) = (t2, s2)"
      by fastforce
    with False t show ?thesis
    proof (cases "qt_pc t")
      case (Q_leave r)
      with t show ?thesis
        by (intro signal [OF t(1) Q_leave]) (auto simp: run_thread_def sleepers_empty split: if_splits)
    qed (auto simp: run_thread_def moves_def intro!: move)
  qed
next
  case (Notify tid k)
  with notify_effect [of api tid k w w'] assms notify show ?thesis by blast
next
  case (Timeout k)
  with assms show ?thesis
    by (auto simp: due_def wake_def split: option.splits if_splits query_pc.splits intro!: woken)
next
  case (Spurious k)
  with assms show ?thesis
    by (auto simp: wake_def split: option.splits if_splits elim!: is_asleep.elims intro!: woken)
qed (use assms clock other in auto)

lemma row_turn_cases:
  obtains (row) s' where "next_row api (qt_query t) (qt_retries t) s = (Ok St_row, s')"
      "row_turn api t s = (t\<lparr>qt_rows := qt_rows t @ [fetch_row api (qt_query t) (qt_columns t) s']\<rparr>, s')"
  | (fin) s' where "next_row api (qt_query t) (qt_retries t) s = (Ok St_done, s')"
      "row_turn api t s = (t\<lparr>qt_pc := Q_leave (Ok ())\<rparr>, s')"
  | (locked) s' where "next_row api (qt_query t) (qt_retries t) s = (Ok St_locked, s')" "0 < qt_retries t"
      "row_turn api t s = (t\<lparr>qt_retries := qt_retries t - 1,
         qt_pc := if 0 < dd_retry_wait (qt_db t) then Q_wait else Q_restart\<rparr>, s')"
  | (throws) e s' where "next_row api (qt_query t) (qt_retries t) s = (Throw e, s')"
      "row_turn api t s = (t\<lparr>qt_pc := Q_leave (Throw e)\<rparr>, s')"
proof -
  obtain st s' where n: "next_row api (qt_query t) (qt_retries t) s = (st, s')" by fastforce
  from query_rows.nxt_cases [of api "qt_query t" "qt_retries t" s] show thesis
  proof cases
    case row
    with n show thesis by (intro that(1)) (auto simp: row_turn_def)
  next
    case fin
    with n show thesis by (intro that(2)) (auto simp: row_turn_def)
  next
    case locked
    with n show thesis by (intro that(3)) (auto simp: row_turn_def)
  next
    case (throws m)
    with n show thesis by (intro that(4)) (auto simp: row_turn_def)
  qed
qed

lemma restart_turn_eq [simp]:
  "restart_turn api t s = (t\<lparr>qt_pc := Q_row\<rparr>, sq_reset api (qy_stmt (qt_query t)) s)"
  by (simp add: restart_turn_def restart_eq)

lemma row_turn_thread:
  "row_turn api t s = (t', s') \<Longrightarrow> qt_pc t = Q_row \<Longrightarrow>
    thread_ok n t' \<and> \<not> is_asleep (qt_pc t') \<and> \<not> is_awake (qt_pc t') \<and> \<not> is_end (qt_pc t') \<and> qt_db t' = qt_db t"
  by (rule row_turn_cases [of api t s]) (auto simp: thread_ok_def split: if_splits)

lemma moves_thread:
  assumes "moves api w tid t s"
  shows "tid < length (sw_threads w)" "thread_ok n t" "\<not> is_asleep (qt_pc t)"
    "thread_at w tid = Some u \<Longrightarrow> \<not> in_wait (qt_pc u)"
  using assms row_turn_thread [of api _ "sw_sq w" t s n] thread_at_bound [of w tid]
  by (fastforce simp: moves_def enter_query_def thread_ok_def elim: is_end.elims)+

lemma threads_ok_put:
  "threads_ok w \<Longrightarrow> thread_ok (sw_now w) t \<Longrightarrow> threads_ok (put_thread k t w)"
  by (auto simp: threads_ok_def thread_at_put)

lemma threads_ok_update [simp]:
  "threads_ok (w\<lparr>sw_sq := s\<rparr>) = threads_ok w" "threads_ok (w\<lparr>sw_finished := f\<rparr>) = threads_ok w"
  "threads_ok (w\<lparr>sw_log := l\<rparr>) = threads_ok w"
  by (simp_all add: threads_ok_def)

lemma threads_okD: "threads_ok w \<Longrightarrow> thread_at w k = Some t \<Longrightarrow> thread_ok (sw_now w) t"
  by (simp add: threads_ok_def)

lemma thread_ok_later: "thread_ok now t \<Longrightarrow> thread_ok (now + int n) t"
  by (auto simp: thread_ok_def split: query_pc.splits)

lemma threads_ok_step:
  assumes "threads_ok w" and "sync_apply api e w = Some w'"
  shows "threads_ok w'"
  using assms(2)
proof (cases rule: sync_apply_cases)
  case (move tid t s)
  with assms(1) moves_thread(2) [of api w tid t s "sw_now w"] show ?thesis by (simp add: threads_ok_put)
next
  case (block tid t d)
  with threads_okD [OF assms(1) block(1)] assms(1) show ?thesis
    by (auto simp: thread_ok_def intro!: threads_ok_put)
next
  case (release tid t)
  with assms(1) show ?thesis by (auto simp: thread_ok_def intro!: threads_ok_put)
next
  case (signal tid t r)
  with threads_okD [OF assms(1) signal(1)] assms(1) show ?thesis
    by (auto simp: thread_ok_def raise_flag_def intro!: threads_ok_put)
next
  case (notify tid t r k u d)
  with threads_okD [OF assms(1) notify(1)] threads_okD [OF assms(1) notify(4)] assms(1) show ?thesis
    by (auto simp: thread_ok_def raise_flag_def intro!: threads_ok_put)
next
  case (woken k t d b)
  with threads_okD [OF assms(1) woken(1)] assms(1) show ?thesis
    by (auto simp: thread_ok_def intro!: threads_ok_put)
next
  case (clock n)
  with assms(1) show ?thesis by (auto simp: threads_ok_def intro: thread_ok_later)
qed (use assms(1) in simp)

text \<open>What a change of one thread does to the threads blocked and awake on a flag.\<close>

lemma sleeper_put:
  "sleeper i (put_thread k t w) j \<longleftrightarrow>
    (if j = k \<and> k < length (sw_threads w) then is_asleep (qt_pc t) \<and> qt_sync t = i else sleeper i w j)"
  by (simp add: sleeper_iff thread_at_put)

definition awake_on :: "nat \<Rightarrow> 's sync_world \<Rightarrow> nat \<Rightarrow> bool" where
  "awake_on i w k \<longleftrightarrow> (\<exists>t. thread_at w k = Some t \<and> is_awake (qt_pc t) \<and> qt_sync t = i)"

lemma wakeful_iff: "wakeful i w \<longleftrightarrow> (sw_finished w i \<and> (\<exists>k. sleeper i w k) \<longrightarrow> (\<exists>k. awake_on i w k))"
  by (simp add: wakeful_def awake_on_def)

lemma awake_on_put:
  "awake_on i (put_thread k t w) j \<longleftrightarrow>
    (if j = k \<and> k < length (sw_threads w) then is_awake (qt_pc t) \<and> qt_sync t = i else awake_on i w j)"
  by (simp add: awake_on_def thread_at_put)

lemma awake_on_update [simp]:
  "awake_on i (w\<lparr>sw_sq := s\<rparr>) = awake_on i w" "awake_on i (w\<lparr>sw_finished := f\<rparr>) = awake_on i w"
  "awake_on i (w\<lparr>sw_now := n\<rparr>) = awake_on i w" "awake_on i (w\<lparr>sw_log := l\<rparr>) = awake_on i w"
  by (simp_all add: awake_on_def fun_eq_iff)

lemma awake_onD: "awake_on i w k \<Longrightarrow> thread_at w k = Some t \<Longrightarrow> is_awake (qt_pc t) \<and> qt_sync t = i"
  by (simp add: awake_on_def)

lemma wakeful_put_other:
  assumes "wakeful i w" and "thread_at w k = Some u" and "qt_sync u \<noteq> i" and "qt_sync t \<noteq> i"
  shows "wakeful i (put_thread k t w)"
proof -
  have "sleeper i (put_thread k t w) = sleeper i w" "awake_on i (put_thread k t w) = awake_on i w"
    using assms(2-4) by (auto simp: fun_eq_iff sleeper_put awake_on_put) (auto simp: sleeper_iff awake_on_def)
  with assms(1) show ?thesis by (simp add: wakeful_iff)
qed

text \<open>A change of one thread keeps a flag attended if it is about another flag, or leaves no need.\<close>

lemma wakeful_put:
  assumes "thread_at w k = Some u" and "qt_sync t = qt_sync u" and "qt_sync u \<noteq> i \<Longrightarrow> wakeful i w"
    and "qt_sync u = i \<Longrightarrow> \<not> sw_finished w i \<or> is_awake (qt_pc t) \<or> (\<forall>j. \<not> sleeper i (put_thread k t w) j)"
  shows "wakeful i (put_thread k t w)"
proof (cases "qt_sync u = i")
  case True
  with assms(4) have "\<not> sw_finished w i \<or> awake_on i (put_thread k t w) k \<or> (\<forall>j. \<not> sleeper i (put_thread k t w) j)"
    using assms(2) thread_at_bound [OF assms(1)] by (auto simp: awake_on_put)
  then show ?thesis by (auto simp: wakeful_iff)
next
  case False
  with assms(2,3) show ?thesis by (intro wakeful_put_other [OF _ assms(1)]) simp_all
qed

lemma wakeful_step:
  assumes "wakeful i w" and "sync_apply api e w = Some w'"
  shows "wakeful i w'"
  using assms(2)
proof (cases rule: sync_apply_cases)
  case (move tid t s)
  have "k \<noteq> tid" if "awake_on i w k" for k
    using that moves_thread(4) [OF move(1)] by (auto simp: awake_on_def elim!: is_awake.elims)
  with move(2) moves_thread(3) [OF move(1)] assms(1) show ?thesis
    by (auto simp: wakeful_iff sleeper_put awake_on_put split: if_splits)
next
  case (block tid t d)
  show ?thesis unfolding block(4) by (rule wakeful_put [OF block(1)]) (use block(2) assms(1) in auto)
next
  case (release tid t)
  show ?thesis unfolding release(4)
    by (rule wakeful_put [of _ tid t]) (use release(1) assms(1) in \<open>auto simp: wakeful_iff\<close>)
next
  case (signal tid t r)
  show ?thesis unfolding signal(4) raise_flag_def
    by (rule wakeful_put [of _ tid t]) (use signal(1,3) assms(1) in \<open>auto simp: wakeful_iff sleeper_put\<close>)
next
  case (notify tid t r k u d)
  have "wakeful i (raise_flag tid t r w)" if "qt_sync u \<noteq> i"
    unfolding raise_flag_def
    by (rule wakeful_put [of _ tid t]) (use notify(1,6) that assms(1) in \<open>auto simp: wakeful_iff\<close>)
  then show ?thesis unfolding notify(7)
    by (rule wakeful_put [of _ k u, rotated 2]) (use notify(3,4) in \<open>auto simp: raise_flag_def\<close>)
next
  case (woken k t d b)
  show ?thesis unfolding woken(3) by (rule wakeful_put [OF woken(1)]) (use assms(1) in auto)
qed (use assms(1) in \<open>simp_all add: wakeful_iff\<close>)

lemma signals_simps [simp]:
  "signals i (l @ [Signalled j]) = signals i l + (if j = i then 1 else 0)"
  "signals i (l @ [Released k j b]) = signals i l"
  "releases i (l @ [Signalled j]) = releases i l"
  "releases i (l @ [Released k j b]) = releases i l + (if j = i \<and> b then 1 else 0)"
  "signals i [] = 0" "releases i [] = 0"
  by (simp_all add: signals_def releases_def)

lemma signals_ok_step:
  assumes "signals_ok i w" and "sync_apply api e w = Some w'"
  shows "signals_ok i w'"
  using assms(2)
proof (cases rule: sync_apply_cases)
  case (release tid t)
  with assms(1) show ?thesis by (cases "qt_sync t = i") (auto simp: signals_ok_def)
next
  case (signal tid t r)
  with assms(1) show ?thesis by (simp add: signals_ok_def raise_flag_def split: if_splits)
next
  case (notify tid t r k u d)
  with assms(1) show ?thesis by (simp add: signals_ok_def raise_flag_def split: if_splits)
qed (use assms(1) in \<open>simp_all add: signals_ok_def\<close>)

lemma sync_inv_step: "sync_inv w \<Longrightarrow> sync_step api w w' \<Longrightarrow> sync_inv w'"
  by (auto simp: sync_inv_def sync_step_def intro: threads_ok_step wakeful_step signals_ok_step)

lemma thread_at_init: "sync_init n w \<Longrightarrow> thread_at w k = None"
  by (simp add: sync_init_def thread_at_def)

interpretation sync_threads: invariant_system "sync_init workers" "sync_step api" sync_inv for workers api
proof
  show "sync_inv w" if "sync_init workers w" for w :: "'a sync_world"
    using that thread_at_init [OF that]
    by (simp add: sync_inv_def threads_ok_def wakeful_def sleeper_iff signals_ok_def) (simp add: sync_init_def)
qed (rule sync_inv_step)

section \<open>A thread alone\<close>

text \<open>Events of one thread and of the clock only.\<close>

fun own_event :: "nat \<Rightarrow> 's sync_event \<Rightarrow> bool" where
  "own_event tid (Run k) = (k = tid)"
| "own_event tid (Timeout k) = (k = tid)"
| "own_event tid (Spurious k) = (k = tid)"
| "own_event tid (Clock n) = True"
| "own_event tid _ = False"

definition quiet :: "nat \<Rightarrow> nat \<Rightarrow> 's sync_world \<Rightarrow> bool" where
  "quiet tid i w \<longleftrightarrow> list_all (\<lambda>k. k = tid) (sleepers i w)"

lemma quiet_iff: "quiet tid i w \<longleftrightarrow> (\<forall>k. k \<noteq> tid \<longrightarrow> \<not> sleeper i w k)"
  using thread_at_bound by (fastforce simp: quiet_def sleepers_def list_all_iff sleeper_iff)

text \<open>The row loop on what the threads share; the durations waited do not matter.\<close>

definition loop_ends :: "'s sqlite_api \<Rightarrow> nat \<Rightarrow> query_thread \<Rightarrow> 's \<Rightarrow> (nat \<Rightarrow> bool) \<Rightarrow>
    unit outcome \<Rightarrow> Row list \<Rightarrow> 's \<Rightarrow> (nat \<Rightarrow> bool) \<Rightarrow> bool" where
  "loop_ends api n t s f r rows s' f' \<longleftrightarrow>
     (\<exists>w'. execute_loop api (qt_db t) (qt_query t) (qt_columns t) n (qt_retries t) (qt_rows t)
        \<lparr>w_sq = s, w_finished = f, w_waits = []\<rparr> = Some ((r, rows), w') \<and>
      w_sq w' = s' \<and> (w_finished w')(qt_sync t := True) = f')"

text \<open>What is left of the call from the position of the thread.\<close>

definition completes :: "'s sqlite_api \<Rightarrow> nat \<Rightarrow> query_thread \<Rightarrow> 's \<Rightarrow> (nat \<Rightarrow> bool) \<Rightarrow>
    unit outcome \<Rightarrow> Row list \<Rightarrow> 's \<Rightarrow> (nat \<Rightarrow> bool) \<Rightarrow> bool" where
  "completes api n t s f r rows s' f' \<longleftrightarrow>
     (case qt_pc t of
        Q_row \<Rightarrow> loop_ends api n t s f r rows s' f'
      | Q_restart \<Rightarrow> loop_ends api n t (sq_reset api (qy_stmt (qt_query t)) s) f r rows s' f'
      | Q_leave r0 \<Rightarrow> r = r0 \<and> rows = qt_rows t \<and> s' = s \<and> f' = f(qt_sync t := True)
      | Q_end r0 \<Rightarrow> r = r0 \<and> rows = qt_rows t \<and> s' = s \<and> f' = f
      | _ \<Rightarrow> loop_ends api n t (sq_reset api (qy_stmt (qt_query t)) s) (f(qt_sync t := False)) r rows s' f')"

lemma loop_ignores_waits:
  "execute_loop api db q cols fuel r rows w = Some (res, w1) \<Longrightarrow> w_sq v = w_sq w \<Longrightarrow> w_finished v = w_finished w \<Longrightarrow>
    \<exists>v1. execute_loop api db q cols fuel r rows v = Some (res, v1) \<and> w_sq v1 = w_sq w1 \<and> w_finished v1 = w_finished w1"
proof (induction fuel arbitrary: r rows w v)
  case (Suc fuel)
  obtain st s where n: "next_row api q r (w_sq w) = (st, s)" by fastforce
  from query_rows.nxt_cases [of api q r "w_sq w"] show ?case
  proof cases
    case row
    with Suc.prems n show ?thesis by (auto intro!: Suc.IH)
  next
    case locked
    let ?next = "\<lambda>u. retry_pause db (u\<lparr>w_sq := sq_reset api (qy_stmt q) s\<rparr>)"
    from locked n Suc.prems have "execute_loop api db q cols fuel (r - 1) rows (?next w) = Some (res, w1)"
      by (simp add: Let_def restart_eq)
    from Suc.IH [OF this, of "?next v"] Suc.prems(2,3) locked n show ?thesis
      by (simp add: Let_def restart_eq) (simp add: retry_pause_def)
  qed (use Suc.prems n in auto)
qed simp

lemma loop_ends_from:
  assumes "w_sq w = s" and "w_finished w = f"
  shows "loop_ends api n t s f r rows s' f' \<longleftrightarrow>
     (\<exists>w'. execute_loop api (qt_db t) (qt_query t) (qt_columns t) n (qt_retries t) (qt_rows t) w = Some ((r, rows), w') \<and>
      w_sq w' = s' \<and> (w_finished w')(qt_sync t := True) = f')" (is "?l \<longleftrightarrow> ?r")
proof
  assume ?l
  then obtain w' where "execute_loop api (qt_db t) (qt_query t) (qt_columns t) n (qt_retries t) (qt_rows t)
      \<lparr>w_sq = s, w_finished = f, w_waits = []\<rparr> = Some ((r, rows), w')"
    "w_sq w' = s'" "(w_finished w')(qt_sync t := True) = f'"
    by (auto simp: loop_ends_def)
  with loop_ignores_waits [OF this(1), of w] assms show ?r by fastforce
next
  assume ?r
  then obtain w' where "execute_loop api (qt_db t) (qt_query t) (qt_columns t) n (qt_retries t) (qt_rows t) w = Some ((r, rows), w')"
    "w_sq w' = s'" "(w_finished w')(qt_sync t := True) = f'"
    by blast
  with loop_ignores_waits [OF this(1), of "\<lparr>w_sq = s, w_finished = f, w_waits = []\<rparr>"] assms show ?l
    by (fastforce simp: loop_ends_def)
qed

lemma loop_ends_row:
  assumes "qt_pc t = Q_row" and "row_turn api t s = (t1, s1)"
  shows "loop_ends api (Suc n) t s f r rows s' f' \<longleftrightarrow> completes api n t1 s1 f r rows s' f'"
proof (rule row_turn_cases [of api t s])
  fix u
  assume l: "next_row api (qt_query t) (qt_retries t) s = (Ok St_locked, u)" "0 < qt_retries t"
    "row_turn api t s = (t\<lparr>qt_retries := qt_retries t - 1,
       qt_pc := if 0 < dd_retry_wait (qt_db t) then Q_wait else Q_restart\<rparr>, u)"
  let ?w = "retry_pause (qt_db t) \<lparr>w_sq = sq_reset api (qy_stmt (qt_query t)) u, w_finished = f, w_waits = []\<rparr>"
  from l(1,2) have "loop_ends api (Suc n) t s f r rows s' f' \<longleftrightarrow>
     (\<exists>w'. execute_loop api (qt_db t) (qt_query t) (qt_columns t) n (qt_retries t - 1) (qt_rows t) ?w = Some ((r, rows), w') \<and>
      w_sq w' = s' \<and> (w_finished w')(qt_sync t := True) = f')"
    by (simp add: loop_ends_def Let_def restart_eq)
  also have "\<dots> \<longleftrightarrow> loop_ends api n t1 (w_sq ?w) (w_finished ?w) r rows s' f'"
    using l(3) assms(2) loop_ends_from [of ?w "w_sq ?w" "w_finished ?w" api n t1] by auto
  finally show ?thesis using l(3) assms(2) by (auto simp: completes_def retry_pause_def split: if_splits)
qed (use assms in \<open>auto simp: completes_def loop_ends_def\<close>)

lemma quiet_put: "quiet tid i (put_thread tid t w) \<longleftrightarrow> quiet tid i w"
  by (simp add: quiet_iff sleeper_put)

lemma quiet_update [simp]:
  "quiet tid i (w\<lparr>sw_sq := s\<rparr>) = quiet tid i w" "quiet tid i (w\<lparr>sw_finished := f\<rparr>) = quiet tid i w"
  "quiet tid i (w\<lparr>sw_now := n\<rparr>) = quiet tid i w" "quiet tid i (w\<lparr>sw_log := l\<rparr>) = quiet tid i w"
  by (simp_all add: quiet_iff)

lemma quiet_leave: "quiet tid (qt_sync t) w \<Longrightarrow> thread_at w tid = Some t \<Longrightarrow> qt_pc t = Q_leave r \<Longrightarrow>
    sleepers (qt_sync t) w = []"
  by (auto simp: quiet_iff sleepers_empty) (metis is_asleep.simps(6) option.inject sleeper_iff)

definition same_end :: "'s sqlite_api \<Rightarrow> query_thread \<Rightarrow> 's sync_world \<Rightarrow> query_thread \<Rightarrow> 's sync_world \<Rightarrow> bool" where
  "same_end api t w t' w' \<longleftrightarrow> (\<forall>r rows s f.
     (\<exists>n. completes api n t' (sw_sq w') (sw_finished w') r rows s f) \<longrightarrow>
     (\<exists>n. completes api n t (sw_sq w) (sw_finished w) r rows s f))"

lemma run_thread_alone:
  assumes "thread_at w tid = Some t" and "quiet tid (qt_sync t) w" and "run_thread api tid t w = Some w'"
  shows "\<exists>t'. thread_at w' tid = Some t' \<and> qt_db t' = qt_db t \<and> quiet tid (qt_sync t) w' \<and> same_end api t w t' w'"
proof (cases "qt_pc t")
  case Q_row
  obtain t1 s1 where r: "row_turn api t (sw_sq w) = (t1, s1)" by fastforce
  have "qt_db t1 = qt_db t" using row_turn_thread [OF r Q_row] by simp
  moreover have "same_end api t w t1 (put_thread tid t1 (w\<lparr>sw_sq := s1\<rparr>))"
    using Q_row by (auto simp: same_end_def completes_def [of api _ t] loop_ends_row [OF Q_row r, symmetric])
  ultimately show ?thesis using assms Q_row r
    by (auto simp: run_thread_def thread_at_put quiet_put dest: thread_at_bound)
next
  case (Q_leave r)
  with assms quiet_leave [OF assms(2,1) Q_leave] have "w' = raise_flag tid t r w" by (simp add: run_thread_def)
  with assms(1,2) Q_leave show ?thesis
    by (auto simp: raise_flag_def thread_at_put quiet_put same_end_def completes_def dest: thread_at_bound)
qed (use assms in \<open>auto simp: run_thread_def wait_test_def thread_at_put quiet_put same_end_def completes_def loop_ends_def
  dest: thread_at_bound split: if_splits\<close>)

lemma own_step:
  assumes "thread_at w tid = Some t" and "quiet tid (qt_sync t) w"
    and "own_event tid e" and "sync_apply api e w = Some w'"
  shows "\<exists>t'. thread_at w' tid = Some t' \<and> qt_db t' = qt_db t \<and> quiet tid (qt_sync t) w' \<and> same_end api t w t' w'"
proof (cases e)
  case (Run k)
  with assms show ?thesis by (auto intro: run_thread_alone)
next
  case (Timeout k)
  with assms show ?thesis
    by (cases "qt_pc t") (auto simp: due_def wake_def thread_at_put quiet_put same_end_def completes_def loop_ends_def
      dest: thread_at_bound split: if_splits)
next
  case (Spurious k)
  with assms show ?thesis
    by (cases "qt_pc t") (auto simp: wake_def thread_at_put quiet_put same_end_def completes_def loop_ends_def
      dest: thread_at_bound split: if_splits)
qed (use assms in \<open>auto simp: same_end_def\<close>)

lemma own_run:
  assumes "sync_run api es w = Some w'" and "list_all (own_event tid) es"
    and "thread_at w tid = Some t" and "quiet tid (qt_sync t) w"
  shows "\<exists>t'. thread_at w' tid = Some t' \<and> qt_db t' = qt_db t \<and> quiet tid (qt_sync t) w' \<and> same_end api t w t' w'"
  using assms
proof (induction es arbitrary: w t)
  case Nil
  then show ?case by (auto simp: same_end_def)
next
  case (Cons e es)
  from Cons.prems obtain v where v: "sync_apply api e w = Some v" "sync_run api es v = Some w'"
    by (auto simp: bind_eq_Some_conv)
  from Cons.prems own_step [OF Cons.prems(3,4) _ v(1)] obtain u where u: "thread_at v tid = Some u"
      "qt_db u = qt_db t" "quiet tid (qt_sync u) v" "same_end api t w u v"
    by auto
  from Cons.IH [OF v(2) _ u(1,3)] Cons.prems(2) u(2,4) show ?case
    by (auto simp: same_end_def)
qed

section \<open>Waiting ends\<close>

lemma sync_run_append: "sync_run api (xs @ ys) w = Option.bind (sync_run api xs w) (sync_run api ys)"
  by (induction xs arbitrary: w) (auto split: Option.bind_split)

text \<open>The effect of a whole wait of one thread that ends at time \<open>now\<close>.\<close>

definition waited :: "nat \<Rightarrow> query_thread \<Rightarrow> 's sync_world \<Rightarrow> 's sync_world \<Rightarrow> bool" where
  "waited tid t w w' \<longleftrightarrow> thread_at w' tid = Some (t\<lparr>qt_pc := Q_restart\<rparr>) \<and> (\<forall>k. k \<noteq> tid \<longrightarrow> thread_at w' k = thread_at w k) \<and>
     sw_sq w' = sw_sq w \<and> sw_finished w' = (sw_finished w)(qt_sync t := False) \<and>
     sw_now w \<le> sw_now w' \<and> sw_now w' \<le> sw_now w + dd_retry_wait (qt_db t)"

lemma due_wait_ends:
  assumes "thread_at w tid = Some t" and "qt_pc t = Q_asleep d \<or> qt_pc t = Q_awake d b" and "thread_ok (sw_now w) t"
  shows "\<exists>w'. sync_run api [Clock (nat (d - sw_now w)), Timeout tid, Run tid] w = Some w' \<and> waited tid t w w'"
  using assms
  by (auto simp: due_def wake_def thread_at_put_same run_thread_def wait_test_def waited_def thread_ok_def)

lemma wait_ends:
  assumes "thread_at w tid = Some t" and "in_wait (qt_pc t)" and "thread_ok (sw_now w) t"
  shows "\<exists>es w'. length es \<le> 4 \<and> list_all (own_event tid) es \<and> sync_run api es w = Some w' \<and> waited tid t w w'"
proof (cases "qt_pc t")
  case Q_wait
  show ?thesis
  proof (cases "sw_finished w (qt_sync t)")
    case True
    have "sync_run api [Run tid] w = Some (wait_test tid t (sw_now w + dd_retry_wait (qt_db t)) False w)"
      using assms(1) Q_wait by (simp add: run_thread_def)
    moreover have "waited tid t w (wait_test tid t (sw_now w + dd_retry_wait (qt_db t)) False w)"
      using assms True Q_wait by (simp add: waited_def wait_test_def thread_at_put_same thread_ok_def)
    ultimately show ?thesis by (intro exI [of _ "[Run tid]"]) auto
  next
    case False
    let ?d = "sw_now w + dd_retry_wait (qt_db t)" let ?t = "t\<lparr>qt_pc := Q_asleep ?d\<rparr>"
    let ?v = "put_thread tid ?t w" let ?es = "[Clock (nat (?d - sw_now ?v)), Timeout tid, Run tid]"
    have first: "sync_apply api (Run tid) w = Some ?v"
      using assms(1) Q_wait False by (simp add: run_thread_def wait_test_def)
    have "thread_at ?v tid = Some ?t" using assms(1) by (rule thread_at_put_same)
    moreover have "thread_ok (sw_now ?v) ?t" using assms(3) Q_wait by (simp add: thread_ok_def)
    ultimately obtain w' where w': "sync_run api ?es ?v = Some w'" "waited tid ?t ?v w'"
      using due_wait_ends [of ?v tid ?t ?d False api] by fastforce
    have "waited tid t w w'" using w'(2) by (auto simp: waited_def)
    moreover have "sync_run api (Run tid # ?es) w = Some w'"
      using first w'(1) by (simp only: sync_run.simps bind.simps)
    ultimately show ?thesis by (intro exI [of _ "Run tid # ?es"] exI [of _ w']) simp
  qed
next
  case (Q_asleep d)
  with due_wait_ends [OF assms(1) _ assms(3), of d] show ?thesis
    by (intro exI [of _ "[Clock (nat (d - sw_now w)), Timeout tid, Run tid]"]) simp
next
  case (Q_awake d b)
  with due_wait_ends [OF assms(1) _ assms(3), of d b] show ?thesis
    by (intro exI [of _ "[Clock (nat (d - sw_now w)), Timeout tid, Run tid]"]) simp
qed (use assms(2) in auto)

section \<open>A call is a run\<close>

definition ended :: "nat \<Rightarrow> unit outcome \<Rightarrow> Row list \<Rightarrow> 's \<Rightarrow> (nat \<Rightarrow> bool) \<Rightarrow> 's sync_world \<Rightarrow> bool" where
  "ended tid r rows s f w \<longleftrightarrow>
     (case thread_at w tid of Some t \<Rightarrow> qt_pc t = Q_end r \<and> qt_rows t = rows | None \<Rightarrow> False) \<and>
     sw_sq w = s \<and> sw_finished w = f"

definition can_end :: "'s sqlite_api \<Rightarrow> nat \<Rightarrow> unit outcome \<Rightarrow> Row list \<Rightarrow> 's \<Rightarrow> (nat \<Rightarrow> bool) \<Rightarrow> 's sync_world \<Rightarrow> bool" where
  "can_end api tid r rows s f w \<longleftrightarrow>
     (\<exists>es w'. list_all (own_event tid) es \<and> sync_run api es w = Some w' \<and> ended tid r rows s f w')"

lemma can_end_after:
  "list_all (own_event tid) es \<Longrightarrow> sync_run api es w = Some v \<Longrightarrow> can_end api tid r rows s f v \<Longrightarrow>
    can_end api tid r rows s f w"
  unfolding can_end_def by (metis bind.bind_lunit list_all_append sync_run_append)

lemma can_end_run:
  "thread_at w tid = Some t \<Longrightarrow> run_thread api tid t w = Some v \<Longrightarrow> can_end api tid r rows s f v \<Longrightarrow>
    can_end api tid r rows s f w"
  by (rule can_end_after [of tid "[Run tid]"]) simp_all

lemma can_end_restart:
  assumes "thread_at w tid = Some t" and "qt_pc t = Q_restart"
    and "can_end api tid r rows s f
      (put_thread tid (t\<lparr>qt_pc := Q_row\<rparr>) (w\<lparr>sw_sq := sq_reset api (qy_stmt (qt_query t)) (sw_sq w)\<rparr>))"
  shows "can_end api tid r rows s f w"
  using assms(1) _ assms(3) by (rule can_end_run) (simp add: run_thread_def assms(2))

lemma can_end_leave:
  assumes "thread_at w tid = Some t" and "qt_pc t = Q_leave r" and "quiet tid (qt_sync t) w"
  shows "can_end api tid r (qt_rows t) (sw_sq w) ((sw_finished w)(qt_sync t := True)) w"
proof -
  have "run_thread api tid t w = Some (raise_flag tid t r w)"
    using assms(2) quiet_leave [OF assms(3,1,2)] by (simp add: run_thread_def)
  with assms(1) show ?thesis
    by (auto simp: can_end_def ended_def raise_flag_def thread_at_put_same intro!: exI [of _ "[Run tid]"])
qed

lemma quiet_waited: "waited tid t w w' \<Longrightarrow> quiet tid i w' \<longleftrightarrow> quiet tid i w"
  by (auto simp: waited_def quiet_iff sleeper_iff)

lemma loop_run:
  assumes "loop_ends api n t (sw_sq w) (sw_finished w) r rows s f" and "qt_pc t = Q_row"
    and "thread_at w tid = Some t" and "quiet tid (qt_sync t) w"
  shows "can_end api tid r rows s f w"
  using assms
proof (induction n arbitrary: t w)
  case 0
  then show ?case by (simp add: loop_ends_def)
next
  case (Suc n)
  obtain t1 s1 where rt: "row_turn api t (sw_sq w) = (t1, s1)" by fastforce
  let ?v = "put_thread tid t1 (w\<lparr>sw_sq := s1\<rparr>)"
  have run: "run_thread api tid t w = Some ?v" using Suc.prems(2) rt by (simp add: run_thread_def)
  have v: "thread_at ?v tid = Some t1" using Suc.prems(3) by (intro thread_at_put_same) simp
  have t1: "qt_sync t1 = qt_sync t" "thread_ok (sw_now ?v) t1"
    using row_turn_thread [OF rt Suc.prems(2)] by simp_all
  have q: "quiet tid (qt_sync t1) ?v" using Suc.prems(4) t1 by (simp add: quiet_put)
  have c: "completes api n t1 (sw_sq ?v) (sw_finished ?v) r rows s f"
    using Suc.prems(1) loop_ends_row [OF Suc.prems(2) rt] by simp
  have again: "can_end api tid r rows s f u"
    if "thread_at u tid = Some (t1\<lparr>qt_pc := Q_restart\<rparr>)" "quiet tid (qt_sync t1) u"
      "loop_ends api n t1 (sq_reset api (qy_stmt (qt_query t1)) (sw_sq u)) (sw_finished u) r rows s f" for u
    using that(1) _ Suc.IH [of "t1\<lparr>qt_pc := Q_row\<rparr>"]
    by (rule can_end_restart) (use that in \<open>simp_all add: thread_at_put_same quiet_put loop_ends_def\<close>)
  have "can_end api tid r rows s f ?v"
  proof (cases "qt_pc t1")
    case Q_row
    with c v q show ?thesis by (intro Suc.IH) (simp_all add: completes_def)
  next
    case Q_wait
    then obtain es w' where es: "list_all (own_event tid) es" "sync_run api es ?v = Some w'"
        and w': "waited tid t1 ?v w'"
      using wait_ends [OF v _ t1(2), of api] by auto
    have "can_end api tid r rows s f w'"
      by (rule again) (use w' c q Q_wait in \<open>simp_all add: quiet_waited [OF w'] waited_def completes_def\<close>)
    with es show ?thesis by (rule can_end_after)
  next
    case Q_restart
    with c v q show ?thesis by (intro again) (auto simp: completes_def)
  next
    case (Q_leave r0)
    with c can_end_leave [OF v Q_leave q] show ?thesis by (simp add: completes_def)
  qed (use row_turn_thread [OF rt Suc.prems(2)] in auto)
  with Suc.prems(3) run show ?case by (rule can_end_run)
qed

section \<open>Retries\<close>

definition releases_of :: "nat \<Rightarrow> sync_note list \<Rightarrow> nat" where
  "releases_of tid l = length (filter (\<lambda>n. case n of Released k _ _ \<Rightarrow> k = tid | _ \<Rightarrow> False) l)"

lemma releases_of_simps [simp]:
  "releases_of tid (l @ [Signalled i]) = releases_of tid l"
  "releases_of tid (l @ [Released k i b]) = releases_of tid l + (if k = tid then 1 else 0)"
  by (simp_all add: releases_of_def)

text \<open>The waits a thread has ended, the one it is in, and the retries it has left.\<close>

definition wait_account :: "nat \<Rightarrow> query_thread \<Rightarrow> 's sync_world \<Rightarrow> nat" where
  "wait_account tid t w = releases_of tid (sw_log w) + (if in_wait (qt_pc t) then 1 else 0) + unat (qt_retries t)"

lemma row_turn_account:
  assumes "row_turn api t s = (t', s')" and "qt_pc t = Q_row"
  shows "(if in_wait (qt_pc t') then 1 else 0) + unat (qt_retries t') \<le> unat (qt_retries t)"
proof (rule row_turn_cases [of api t s])
  fix u
  assume l: "0 < qt_retries t" "row_turn api t s = (t\<lparr>qt_retries := qt_retries t - 1,
       qt_pc := if 0 < dd_retry_wait (qt_db t) then Q_wait else Q_restart\<rparr>, u)"
  with assms unat_pred [OF l(1)] unat_pos [OF l(1)] show ?thesis by auto
qed (use assms in auto)

lemma account_step:
  assumes "thread_at w tid = Some t" and "sync_apply api e w = Some w'" and "\<forall>db q r. e \<noteq> Begin tid db q r"
  shows "\<exists>t'. thread_at w' tid = Some t' \<and> wait_account tid t' w' \<le> wait_account tid t w"
  using assms(2)
proof (cases rule: sync_apply_cases)
  case (move k u s)
  show ?thesis
  proof (cases "k = tid")
    case True
    with move assms have "\<not> is_end (qt_pc t)" by auto
    with move(1) True assms(1) have "qt_pc t = Q_row \<and> row_turn api t (sw_sq w) = (u, s) \<or>
        qt_pc t = Q_restart \<and> restart_turn api t (sw_sq w) = (u, s)"
      by (auto simp: moves_def)
    then have "(if in_wait (qt_pc u) then 1 else 0) + unat (qt_retries u) \<le> unat (qt_retries t)"
      using row_turn_account [of api t "sw_sq w" u s] by auto
    with move(2) True assms(1) thread_at_bound [OF assms(1)] show ?thesis
      by (auto simp: thread_at_put wait_account_def)
  qed (use move(2) assms(1) in \<open>simp add: wait_account_def\<close>)
qed (use assms(1) thread_at_bound [OF assms(1)] in
  \<open>auto simp: thread_at_put wait_account_def raise_flag_def\<close>)

lemma account_run:
  assumes "sync_run api es w = Some w'" and "thread_at w tid = Some t"
    and "list_all (\<lambda>e. \<forall>db q r. e \<noteq> Begin tid db q r) es"
  shows "\<exists>t'. thread_at w' tid = Some t' \<and> wait_account tid t' w' \<le> wait_account tid t w"
  using assms
proof (induction es arbitrary: w t)
  case (Cons e es)
  from Cons.prems obtain v where v: "sync_apply api e w = Some v" "sync_run api es v = Some w'"
    by (auto simp: bind_eq_Some_conv)
  from account_step [OF Cons.prems(2) v(1)] Cons.prems(3) obtain u
    where "thread_at v tid = Some u" "wait_account tid u v \<le> wait_account tid t w" by auto
  with Cons.IH [OF v(2), of u] Cons.prems(3) show ?case by fastforce
qed simp

section \<open>Example run\<close>

lemma sync_run_reach:
  "reach (sync_init n) (sync_step api) w \<Longrightarrow> sync_run api es w = Some w' \<Longrightarrow> reach (sync_init n) (sync_step api) w'"
proof (induction es arbitrary: w)
  case (Cons e es)
  then obtain v where v: "sync_apply api e w = Some v" "sync_run api es v = Some w'"
    by (auto simp: bind_eq_Some_conv)
  have "sync_step api w v" using v(1) by (auto simp: sync_step_def)
  with Cons.prems(1) have "reach (sync_init n) (sync_step api) v" by (rule reach_step)
  then show ?case using v(2) by (rule Cons.IH)
qed simp

text \<open>Three threads: two find the database locked and wait, the third completes its query.\<close>

definition demo_threads :: "int list sync_world" where
  "demo_threads = \<lparr>sw_sq = [5, 5, 101], sw_finished = (\<lambda>_. False), sw_now = 0, sw_threads = [None, None, None], sw_log = []\<rparr>"

definition demo_waiting :: "int list sync_event list" where
  "demo_waiting = [Begin 0 demo_db demo_query 1, Run 0, Run 0, Begin 1 demo_db demo_query 1, Run 1, Run 1]"

definition demo_notified :: "int list sync_event list" where
  "demo_notified = [Begin 2 demo_db demo_query 1, Run 2, Notify 2 0]"

definition demo_at :: "int list sync_event list \<Rightarrow> int list sync_world" where
  "demo_at es = (case sync_run scripted es demo_threads of Some w \<Rightarrow> w | None \<Rightarrow> demo_threads)"

lemma demo_threads_reach: "reach (sync_init 3) (sync_step scripted) (demo_at es)"
proof -
  have "reach (sync_init 3) (sync_step scripted) demo_threads"
    by (rule reach_init) (simp add: sync_init_def demo_threads_def numeral_3_eq_3)
  then show ?thesis by (auto simp: demo_at_def split: option.split intro: sync_run_reach)
qed

lemma demo_evaluated:
  "sw_finished (demo_at (demo_waiting @ demo_notified)) 0" "sleeper 0 (demo_at (demo_waiting @ demo_notified)) 1"
  "map_option qt_pc (thread_at (demo_at demo_waiting) 0) = Some (Q_asleep 5)"
  "releases 0 (sw_log (demo_at (demo_waiting @ demo_notified @ [Run 0]))) = 1"
  "quiet 0 0 demo_threads" "\<not> Option.is_none (sync_run scripted demo_waiting demo_threads)"
  by code_simp+

text \<open>
  A signal without a waiter stays: the first retry of a later query does not wait, here after
  an earlier query of the same thread, with nobody else in the database and no time passing.
\<close>

lemma stale_signal_skips_wait:
  "case sync_run scripted [Begin 0 demo_db demo_query 1, Run 0, Run 0, Begin 0 demo_db demo_query 1, Run 0, Run 0]
      (demo_threads\<lparr>sw_sq := [101, 5]\<rparr>) of
     Some w \<Rightarrow> map_option qt_pc (thread_at w 0) = Some Q_restart \<and> sw_now w = 0 \<and> 0 < dd_retry_wait demo_db
   | None \<Rightarrow> False"
  by code_simp

section \<open>Properties\<close>

text \<open>
  C17: \<open>execute_query\<close> as threads execute it step by step is the function of \<^verbatim>\<open>Db_Server\<close>. For a
  thread that enters the function while no other thread is blocked on the same database, the
  ways it can leave by its own steps, whatever the clock and the wake-ups do, are exactly the
  results of the call: the same outcome and rows, the same state of SQLite and the same flags.
\<close>

theorem execute_query_alone:
  assumes "sync_apply api (Begin tid db q retries) w = Some v" and "quiet tid (dd_sync db) w"
  shows "(\<exists>es w'. list_all (own_event tid) es \<and> sync_run api es v = Some w' \<and> ended tid r rows s f w') \<longleftrightarrow>
    (\<exists>fuel w'. execute_query api db q fuel retries \<lparr>w_sq = sw_sq w, w_finished = sw_finished w, w_waits = []\<rparr> =
        Some ((r, rows), w') \<and> w_sq w' = s \<and> w_finished w' = f)" (is "?run \<longleftrightarrow> ?call")
proof -
  let ?t = "enter_query api db q retries (sw_sq w)"
  from assms(1) have v: "v = put_thread tid ?t w" "thread_at v tid = Some ?t"
    by (auto simp: thread_at_put split: if_splits)
  have t: "qt_sync ?t = dd_sync db" "qt_pc ?t = Q_row" by (simp_all add: enter_query_def)
  have q: "quiet tid (qt_sync ?t) v" using assms(2) v(1) t by (simp add: quiet_put)
  have call: "?call \<longleftrightarrow> (\<exists>n. loop_ends api n ?t (sw_sq v) (sw_finished v) r rows s f)"
    by (auto simp: loop_ends_def execute_query_def enter_query_def v(1) signal_finished_def)
      (use loop_outcome in \<open>fastforce+\<close>)
  show ?thesis
  proof
    assume ?run
    then obtain es w' where es: "list_all (own_event tid) es" "sync_run api es v = Some w'" "ended tid r rows s f w'"
      by blast
    from own_run [OF es(2,1) v(2) q] obtain t' where t': "thread_at w' tid = Some t'" "same_end api ?t v t' w'"
      by blast
    from es(3) t'(1) have "completes api 0 t' (sw_sq w') (sw_finished w') r rows s f"
      by (simp add: ended_def completes_def)
    with t'(2) show ?call unfolding call by (simp add: same_end_def completes_def [of api _ ?t] t(2)) blast
  next
    assume ?call
    with call loop_run [OF _ t(2) v(2) q] show ?run by (auto simp: can_end_def)
  qed
qed

abbreviation demo_retried :: "int list sync_world" where "demo_retried \<equiv> demo_threads\<lparr>sw_sq := [5, 101]\<rparr>"

theorem execute_query_alone_witness:
  "\<exists>es w'. list_all (own_event 0) es \<and>
    sync_run scripted es (put_thread 0 (enter_query scripted demo_db demo_query 1 [5, 101]) demo_retried) = Some w' \<and>
    ended 0 (Ok ()) [] [] ((\<lambda>_. False)(0 := False, 0 := True)) w'"
proof -
  have "sync_apply scripted (Begin 0 demo_db demo_query 1) demo_retried =
      Some (put_thread 0 (enter_query scripted demo_db demo_query 1 [5, 101]) demo_retried)"
    by (simp add: demo_threads_def thread_at_def)
  moreover have "quiet 0 (dd_sync demo_db) demo_retried" using demo_evaluated(5) by (simp add: demo_db_def)
  moreover have "execute_query scripted demo_db demo_query 2 1
      \<lparr>w_sq = sw_sq demo_retried, w_finished = sw_finished demo_retried, w_waits = []\<rparr> =
    Some ((Ok (), []), \<lparr>w_sq = [], w_finished = (\<lambda>_. False)(0 := False, 0 := True), w_waits = [5]\<rparr>)"
    by (simp add: execute_query_def next_row_def numeral_2_eq_2 restart_eq retry_pause_def signal_finished_def
        demo_defs demo_threads_def signed_modulo_int_def signed_divide_int_def Let_def)
  ultimately show ?thesis
    using execute_query_alone [of scripted 0 demo_db demo_query 1 demo_retried
        "put_thread 0 (enter_query scripted demo_db demo_query 1 [5, 101]) demo_retried"
        "Ok ()" "[]" "[]" "(\<lambda>_. False)(0 := False, 0 := True)"]
    by fastforce
qed

text \<open>
  C18: no wake-up is lost. Whenever a query has ended and set the flag of its database while a
  thread is blocked on it, some thread of that database is already on its way to the mutex,
  and its next step takes the flag and lets it go on, however the threads, the time-outs and
  the spurious wake-ups interleave.
\<close>

theorem no_lost_signal:
  assumes "reach (sync_init n) (sync_step api) w" and "sw_finished w i" and "sleeper i w k"
  shows "\<exists>j t w'. thread_at w j = Some t \<and> is_awake (qt_pc t) \<and> qt_sync t = i \<and>
    run_thread api j t w = Some w' \<and> thread_at w' j = Some (t\<lparr>qt_pc := Q_restart\<rparr>) \<and>
    sw_finished w' = (sw_finished w)(i := False) \<and> sw_now w' = sw_now w"
proof -
  have "wakeful i w" using sync_threads.reachable_inv [OF assms(1)] by (simp add: sync_inv_def)
  with assms(2,3) obtain j t where t: "thread_at w j = Some t" "is_awake (qt_pc t)" "qt_sync t = i"
    by (auto simp: wakeful_def)
  then obtain d b where "qt_pc t = Q_awake d b" by (auto elim: is_awake.elims)
  with t assms(2) have "run_thread api j t w = Some (wait_test j t d b w)"
    "thread_at (wait_test j t d b w) j = Some (t\<lparr>qt_pc := Q_restart\<rparr>)"
    "sw_finished (wait_test j t d b w) = (sw_finished w)(i := False)" "sw_now (wait_test j t d b w) = sw_now w"
    by (simp_all add: run_thread_def wait_test_def thread_at_put_same)
  with t show ?thesis by blast
qed

theorem no_lost_signal_witness:
  "\<exists>j t w'. thread_at (demo_at (demo_waiting @ demo_notified)) j = Some t \<and> is_awake (qt_pc t) \<and> qt_sync t = 0 \<and>
    run_thread scripted j t (demo_at (demo_waiting @ demo_notified)) = Some w' \<and>
    thread_at w' j = Some (t\<lparr>qt_pc := Q_restart\<rparr>) \<and>
    sw_finished w' = (sw_finished (demo_at (demo_waiting @ demo_notified)))(0 := False) \<and>
    sw_now w' = sw_now (demo_at (demo_waiting @ demo_notified))"
  by (rule no_lost_signal [OF demo_threads_reach demo_evaluated(1,2)])

text \<open>
  C21: one query that ends lets at most one waiting thread go on early. In every interleaving,
  the waits on a database that ended because the flag was set, together with the flag itself,
  are at most the queries of that database that ended.
\<close>

theorem releases_within_signals:
  assumes "reach (sync_init n) (sync_step api) w"
  shows "releases i (sw_log w) + (if sw_finished w i then 1 else 0) \<le> signals i (sw_log w)"
  using sync_threads.reachable_inv [OF assms] by (simp add: sync_inv_def signals_ok_def)

theorem releases_within_signals_witness:
  "0 < signals 0 (sw_log (demo_at (demo_waiting @ demo_notified @ [Run 0])))"
  using releases_within_signals [OF demo_threads_reach [of "demo_waiting @ demo_notified @ [Run 0]"], of 0]
    demo_evaluated(4)
  by linarith

text \<open>
  C19: waiting for a lock always ends. In every reachable state, a thread that waits, at whatever
  point of the wait it is, needs at most four events, its own steps and the clock, to go on with
  the flag cleared and everything else unchanged, and the time this takes is at most the
  configured \<open>retry_wait\<close>.
\<close>

theorem retry_wait_ends:
  assumes "reach (sync_init n) (sync_step api) w" and "thread_at w tid = Some t" and "in_wait (qt_pc t)"
  shows "\<exists>es w'. length es \<le> 4 \<and> list_all (own_event tid) es \<and> sync_run api es w = Some w' \<and>
    thread_at w' tid = Some (t\<lparr>qt_pc := Q_restart\<rparr>) \<and> (\<forall>k. k \<noteq> tid \<longrightarrow> thread_at w' k = thread_at w k) \<and>
    sw_sq w' = sw_sq w \<and> sw_finished w' = (sw_finished w)(qt_sync t := False) \<and>
    sw_now w \<le> sw_now w' \<and> sw_now w' \<le> sw_now w + dd_retry_wait (qt_db t)"
proof -
  have "thread_ok (sw_now w) t"
    using sync_threads.reachable_inv [OF assms(1)] assms(2) by (simp add: sync_inv_def threads_ok_def)
  from wait_ends [OF assms(2,3) this, of api] show ?thesis by (simp add: waited_def)
qed

theorem retry_wait_ends_witness:
  "\<exists>es w' t. length es \<le> 4 \<and> list_all (own_event 0) es \<and> sync_run scripted es (demo_at demo_waiting) = Some w' \<and>
    thread_at w' 0 = Some (t\<lparr>qt_pc := Q_restart\<rparr>)"
proof -
  obtain t where t: "thread_at (demo_at demo_waiting) 0 = Some t" "qt_pc t = Q_asleep 5"
    using demo_evaluated(3) by auto
  then have "in_wait (qt_pc t)" by simp
  from retry_wait_ends [OF demo_threads_reach t(1) this] show ?thesis by blast
qed

text \<open>
  C20: a query waits at most once per retry it was given. From the moment a thread enters
  \<open>execute_query\<close> with a number of retries, and whatever the other threads and the database do
  meanwhile, the waits it has ended, the one it is in and the retries it has left never exceed
  that number.
\<close>

theorem waits_within_retries:
  assumes "sync_apply api (Begin tid db q retries) w = Some v"
    and "list_all (\<lambda>e. \<forall>db q r. e \<noteq> Begin tid db q r) es" and "sync_run api es v = Some w'"
  shows "\<exists>t. thread_at w' tid = Some t \<and>
    releases_of tid (sw_log w') + (if in_wait (qt_pc t) then 1 else 0) + unat (qt_retries t) \<le>
      releases_of tid (sw_log w) + unat retries"
proof -
  let ?t = "enter_query api db q retries (sw_sq w)"
  from assms(1) have v: "v = put_thread tid ?t w" "thread_at v tid = Some ?t"
    by (auto simp: thread_at_put split: if_splits)
  have "wait_account tid ?t v = releases_of tid (sw_log w) + unat retries"
    by (simp add: wait_account_def v(1)) (simp add: enter_query_def)
  with account_run [OF assms(3) v(2) assms(2)] show ?thesis by (auto simp: wait_account_def)
qed

theorem waits_within_retries_witness:
  "\<exists>t. thread_at (demo_at demo_waiting) 0 = Some t \<and>
    releases_of 0 (sw_log (demo_at demo_waiting)) + (if in_wait (qt_pc t) then 1 else 0) + unat (qt_retries t) \<le> 1"
proof -
  let ?v = "demo_at [Begin 0 demo_db demo_query 1]"
  have "sync_apply scripted (Begin 0 demo_db demo_query 1) demo_threads = Some ?v"
    by (simp add: demo_at_def demo_threads_def thread_at_def)
  moreover have "sync_run scripted (tl demo_waiting) ?v = Some (demo_at demo_waiting)"
    using demo_evaluated(6) calculation unfolding demo_at_def [of demo_waiting]
    by (auto simp: demo_waiting_def Option.is_none_def simp del: sync_apply.simps)
  ultimately show ?thesis
    using waits_within_retries [of scripted 0 demo_db demo_query 1 demo_threads ?v "tl demo_waiting" "demo_at demo_waiting"]
    by (simp add: demo_waiting_def demo_threads_def releases_of_def)
qed



end
