(* ===== verification/Scope_Guard.thy ===== *)
theory Scope_Guard
  imports Acpp_Prelude
begin

text \<open>
  \<^verbatim>\<open>src/finally.hpp\<close>: the class \<open>util::finally\<close>, an object that calls a function when its
  scope ends, normally or by an exception. The scope is a function of the state that gives
  an outcome and the new state. The destructor is implicitly \<open>noexcept\<close>, so an exception of
  the registered function ends the process; a failed assertion ends it without unwinding.
\<close>

section \<open>The class\<close>

record 's scope_finally =
  fin_f :: "'s \<Rightarrow> unit outcome \<times> 's"

definition finally_ctor :: "('s \<Rightarrow> unit outcome \<times> 's) \<Rightarrow> 's scope_finally" where
  "finally_ctor f = \<lparr>fin_f = f\<rparr>"

definition finally_dtor :: "'s scope_finally \<Rightarrow> 's \<Rightarrow> unit outcome \<times> 's" where
  "finally_dtor g s =
     (case fin_f g s of
        (Ok _, s) \<Rightarrow> (Ok (), s)
      | (Throw e, s) \<Rightarrow> (Abort, s)
      | (Abort, s) \<Rightarrow> (Abort, s))"

text \<open>A scope with a guard: the body, then the destructor unless the process has ended.\<close>

definition guarded :: "('s \<Rightarrow> unit outcome \<times> 's) \<Rightarrow> ('s \<Rightarrow> 'a outcome \<times> 's) \<Rightarrow> 's \<Rightarrow> 'a outcome \<times> 's" where
  "guarded f body s =
     (let g = finally_ctor f
      in case body s of
           (Abort, s) \<Rightarrow> (Abort, s)
         | (r, s) \<Rightarrow>
            (case finally_dtor g s of
               (Ok _, s) \<Rightarrow> (r, s)
             | (_, s) \<Rightarrow> (Abort, s)))"

section \<open>Contract\<close>

text \<open>
  What the users of a guard rely on: a guard whose function cannot fail keeps the outcome of
  the scope and is applied exactly once to the state the scope leaves.
\<close>

locale safe_guard =
  fixes f :: "'s \<Rightarrow> unit outcome \<times> 's"
    and eff :: "'s \<Rightarrow> 's"
  assumes f_ok: "f s = (Ok (), eff s)"
begin

lemma guarded_eq: "guarded f body s = (case body s of (r, s) \<Rightarrow> (r, if r = Abort then s else eff s))"
  by (cases "body s"; cases "fst (body s)")
    (auto simp: guarded_def finally_dtor_def finally_ctor_def f_ok Let_def)

lemma guarded_outcome: "fst (guarded f body s) = fst (body s)"
  by (simp add: guarded_eq split: prod.split)

lemma guarded_nested:
  "guarded f (guarded f body) s = (case body s of (r, s) \<Rightarrow> (r, if r = Abort then s else eff (eff s)))"
  by (auto simp: guarded_eq split: prod.split)

end

lemma guard_throws:
  "body s = (r, s1) \<Longrightarrow> r \<noteq> Abort \<Longrightarrow> fst (f s1) = Throw e \<Longrightarrow> guarded f body s = (Abort, snd (f s1))"
  by (cases r; cases "f s1") (auto simp: guarded_def finally_dtor_def finally_ctor_def Let_def)

end
