(* ===== verification/Db_Service.thy ===== *)
theory Db_Service
  imports Http_Server Scope_Guard
begin

text \<open>
  How connections and the database server work together: \<open>db_server::query\<close>
  (\<^verbatim>\<open>src/db_server_impl.hpp\<close>) and \<open>db::call_query\<close> (\<^verbatim>\<open>src/http_hnd_db.cpp\<close>). A coroutine
  that needs the database posts a task to the context of the database pool and is suspended;
  a thread of the pool runs the query and posts the response to the executor of the
  connection, which resumes the coroutine. All connections and all threads of the pool
  interleave. SQLite may be in any state when a query starts, so nothing is assumed about
  what the other threads do meanwhile.
\<close>

section \<open>State\<close>

text \<open>
  Connections, tasks posted to the database pool, queries the threads are running, responses
  posted to the executors, and everything the coroutines have done, in order.
\<close>

record service =
  se_conns :: "nat \<rightharpoonup> conn"
  se_stat :: stat_data
  se_tasks :: "(nat \<times> DbRequest) list"
  se_running :: "(nat \<times> nat \<times> DbRequest) list"
  se_replies :: "(nat \<times> DbResponse) list"
  se_trace :: "(nat \<times> effect) list"

section \<open>Operations\<close>

text \<open>
  A handler given to \<open>query\<close> is the one \<open>call_query\<close> builds; the connection whose executor
  it posts to identifies it.
\<close>

definition db_query :: "DbRequest \<Rightarrow> nat \<Rightarrow> service \<Rightarrow> service" where
  "db_query request handler s = s\<lparr>se_tasks := se_tasks s @ [(handler, request)]\<rparr>"

definition call_query_handler :: "nat \<Rightarrow> DbResponse \<Rightarrow> service \<Rightarrow> service" where
  "call_query_handler executor response s = s\<lparr>se_replies := se_replies s @ [(executor, response)]\<rparr>"

definition call_query :: "nat \<Rightarrow> DbRequest \<Rightarrow> service \<Rightarrow> service" where
  "call_query executor request s = db_query request executor s"

text \<open>The task on thread \<open>tid\<close>. An exception leaves it before the handler is called.\<close>

definition query_task :: "'s sqlite_api \<Rightarrow> databases \<Rightarrow> nat \<Rightarrow> nat \<Rightarrow> nat \<times> DbRequest \<Rightarrow> 's db_world \<Rightarrow>
    service \<Rightarrow> service outcome option" where
  "query_task api dbs fuel tid task w s =
     map_option (\<lambda>(res, _). case res of
         Ok response \<Rightarrow> Ok (call_query_handler (fst task) response s)
       | Throw e \<Rightarrow> Throw e
       | Abort \<Rightarrow> Abort) (run_query api dbs fuel tid (snd task) w)"

fun service_effect :: "nat \<Rightarrow> effect \<Rightarrow> service \<Rightarrow> service" where
  "service_effect cid (Eff_post_db rq) s = call_query cid rq s"
| "service_effect cid _ s = s"

text \<open>A turn of the coroutine of connection \<open>cid\<close>, up to its next suspension or its end.\<close>

definition conn_turn :: "nat \<Rightarrow> point \<Rightarrow> service \<Rightarrow> service" where
  "conn_turn cid p s =
     (case p of (c, d, es) \<Rightarrow>
        fold (service_effect cid) es
          (s\<lparr>se_stat := d,
             se_conns := (se_conns s)(cid := if co_pc c = Pc_done then None else Some c),
             se_trace := se_trace s @ map (Pair cid) es\<rparr>))"

definition at_db :: "conn \<Rightarrow> bool" where
  "at_db c \<longleftrightarrow> (case co_pc c of Pc_db _ \<Rightarrow> True | _ \<Rightarrow> False)"

inductive service_step :: "http_env \<Rightarrow> server_cfg \<Rightarrow> 's sqlite_api \<Rightarrow> databases \<Rightarrow> nat \<Rightarrow>
    service \<Rightarrow> service \<Rightarrow> bool" for env cfg api dbs workers where
  sv_start: "se_conns s cid = None \<Longrightarrow>
    service_step env cfg api dbs workers s (conn_turn cid (conn_start cfg (se_stat s)) s)"
| sv_conn: "se_conns s cid = Some c \<Longrightarrow> \<not> at_db c \<Longrightarrow> conn_step env cfg c (se_stat s) io = Some p \<Longrightarrow>
    service_step env cfg api dbs workers s (conn_turn cid p s)"
| sv_take: "se_tasks s = q1 @ (cid, rq) # q2 \<Longrightarrow> tid < workers \<Longrightarrow> tid \<notin> fst ` set (se_running s) \<Longrightarrow>
    service_step env cfg api dbs workers s
      (s\<lparr>se_tasks := q1 @ q2, se_running := (tid, cid, rq) # se_running s\<rparr>)"
| sv_finish: "se_running s = r1 @ (tid, cid, rq) # r2 \<Longrightarrow>
    query_task api dbs fuel tid (cid, rq) w (s\<lparr>se_running := r1 @ r2\<rparr>) = Some (Ok s') \<Longrightarrow>
    service_step env cfg api dbs workers s s'"
| sv_lost: "se_running s = r1 @ (tid, cid, rq) # r2 \<Longrightarrow>
    query_task api dbs fuel tid (cid, rq) w (s\<lparr>se_running := r1 @ r2\<rparr>) = Some (Throw e) \<Longrightarrow>
    service_step env cfg api dbs workers s (s\<lparr>se_running := r1 @ r2\<rparr>)"
| sv_reply: "se_replies s = q1 @ (cid, rp) # q2 \<Longrightarrow> se_conns s cid = Some c \<Longrightarrow>
    conn_step env cfg c (se_stat s) (Io_db rp) = Some p \<Longrightarrow>
    service_step env cfg api dbs workers s (conn_turn cid p (s\<lparr>se_replies := q1 @ q2\<rparr>))"

definition service_init :: "service \<Rightarrow> bool" where
  "service_init s \<longleftrightarrow> s = \<lparr>se_conns = Map.empty, se_stat = stat_init, se_tasks = [], se_running = [],
     se_replies = [], se_trace = []\<rparr>"

section \<open>Invariant\<close>

definition in_flight :: "service \<Rightarrow> nat list" where
  "in_flight s = map fst (se_tasks s) @ map (fst \<circ> snd) (se_running s) @ map fst (se_replies s)"

definition waiting :: "service \<Rightarrow> nat set" where
  "waiting s = {cid. \<exists>c. se_conns s cid = Some c \<and> at_db c}"

definition service_inv :: "nat \<Rightarrow> service \<Rightarrow> bool" where
  "service_inv workers s \<longleftrightarrow> distinct (in_flight s) \<and> set (in_flight s) = waiting s \<and>
     distinct (map fst (se_running s)) \<and> list_all (\<lambda>r. fst r < workers) (se_running s) \<and>
     (\<forall>cid c. se_conns s cid = Some c \<longrightarrow> co_pc c \<noteq> Pc_done)"

section \<open>Lemmas\<close>

lemma at_db_phase: "at_db c \<longleftrightarrow> phase_of (co_pc c) = Ph_db"
  by (cases "co_pc c") (simp_all add: at_db_def)

lemma at_db_iff: "at_db c \<longleftrightarrow> (\<exists>resp. co_pc c = Pc_db resp)"
  by (cases "co_pc c") (simp_all add: at_db_def)

text \<open>A turn that suspends at the database posts exactly one task, any other turn none.\<close>

lemma protocol_posts:
  assumes "protocol cfg a es b"
  shows "(if fst b = Ph_db then \<exists>rq. es = [Eff_post_db rq] else \<forall>rq. Eff_post_db rq \<notin> set es)"
  using assms by cases auto

lemma no_post_effect: "(\<And>rq. Eff_post_db rq \<notin> set es) \<Longrightarrow> fold (service_effect cid) es s = s"
proof (induction es arbitrary: s)
  case (Cons e es)
  then show ?case by (cases e) auto
qed simp

lemma conn_turn_step:
  assumes "conn_step env cfg c d io = Some (c', d', es)"
  shows "conn_turn cid (c', d', es) s =
    s\<lparr>se_stat := d', se_conns := (se_conns s)(cid := if co_pc c' = Pc_done then None else Some c'),
      se_tasks := se_tasks s @ (if at_db c' then [(cid, SOME rq. es = [Eff_post_db rq])] else []),
      se_trace := se_trace s @ map (Pair cid) es\<rparr>"
proof (cases "at_db c'")
  case True
  with protocol_posts [OF conn_step_protocol [OF assms]] obtain rq where "es = [Eff_post_db rq]"
    by (auto simp: at_db_phase abs_conn_def)
  with True show ?thesis by (simp add: conn_turn_def call_query_def db_query_def)
next
  case False
  with protocol_posts [OF conn_step_protocol [OF assms]] have "\<And>rq. Eff_post_db rq \<notin> set es"
    by (auto simp: at_db_phase abs_conn_def)
  with False show ?thesis by (simp add: conn_turn_def no_post_effect)
qed

lemma conn_turn_start:
  "conn_turn cid (conn_start cfg d) s =
    s\<lparr>se_stat := fst (snd (conn_start cfg d)), se_conns := (se_conns s)(cid \<mapsto> fst (conn_start cfg d)),
      se_trace := se_trace s @ map (Pair cid) (snd (snd (conn_start cfg d)))\<rparr>"
  by (simp add: conn_turn_def conn_start_def loop_head_def before_request_timeout_def)

lemma service_inv_turn:
  assumes fl: "distinct (in_flight s)" "set (in_flight s) = waiting s - {cid}"
    and rest: "distinct (map fst (se_running s))" "list_all (\<lambda>r. fst r < workers) (se_running s)"
      "\<And>cid c. se_conns s cid = Some c \<Longrightarrow> co_pc c \<noteq> Pc_done"
    and step: "conn_step env cfg c d io = Some (c', d', es)"
  shows "service_inv workers (conn_turn cid (c', d', es) s)"
proof -
  let ?t = "conn_turn cid (c', d', es) s"
  note t = conn_turn_step [OF step, of cid s]
  have w: "waiting ?t = (if at_db c' then insert cid (waiting s) else waiting s - {cid})"
    unfolding t by (auto simp: waiting_def at_db_def)
  have f: "set (in_flight ?t) = (if at_db c' then insert cid (set (in_flight s)) else set (in_flight s))"
    "distinct (in_flight ?t)"
    using fl unfolding t by (auto simp: in_flight_def)
  have "se_running ?t = se_running s" "\<And>k c. se_conns ?t k = Some c \<Longrightarrow> co_pc c \<noteq> Pc_done"
    using rest(3) unfolding t by (auto split: if_splits)
  with f w rest(1,2) fl(2) show ?thesis by (auto simp: service_inv_def)
qed

lemma reply_not_at_db:
  assumes "conn_step env cfg c d (Io_db rp) = Some (c', d', es)"
  shows "at_db c" and "\<not> at_db c'"
  using assms by (auto simp: conn_step_def at_db_def send_response_final split: pc.splits)

text \<open>A thread of the pool always answers.\<close>

lemma query_task_ok:
  assumes "tid < length dbs" and "query_task api dbs fuel tid (cid, rq) w s = Some res"
  obtains rp where "res = Ok (call_query_handler cid rp s)" and "rp_ok rp \<or> rp_rows rp = []"
proof -
  obtain r w' where r: "run_query api dbs fuel tid rq w = Some (r, w')"
    using assms(2) by (auto simp: query_task_def)
  from run_query_outcome [OF assms(1) r] obtain rp where "r = Ok rp" "rp_ok rp \<or> rp_rows rp = []"
    by (auto simp: response_ok_def split: if_splits)
  with r assms(2) that show thesis by (auto simp: query_task_def)
qed

lemma service_inv_step:
  assumes inv: "service_inv workers s" and "workers \<le> length dbs" and step: "service_step env cfg api dbs workers s t"
  shows "service_inv workers t"
proof -
  have thr: "tid < length dbs" if "se_running s = r1 @ (tid, cid, rq) # r2" for tid cid rq r1 r2
    using inv assms(2) that by (simp add: service_inv_def)
  from step show ?thesis
  proof cases
    case (sv_start cid)
    with inv show ?thesis
      unfolding sv_start(1) conn_turn_start
      by (auto simp: service_inv_def in_flight_def waiting_def conn_start_def loop_head_def at_db_def)
  next
    case (sv_conn cid c io p)
    obtain c' d' es where p: "p = (c', d', es)" by (cases p)
    have "cid \<notin> waiting s" using sv_conn by (simp add: waiting_def)
    with inv have "distinct (in_flight s)" "set (in_flight s) = waiting s - {cid}" by (auto simp: service_inv_def)
    then show ?thesis unfolding sv_conn(1) p
      by (rule service_inv_turn [OF _ _ _ _ _ sv_conn(4) [unfolded p]])
        (use inv in \<open>auto simp: service_inv_def\<close>)
  next
    case (sv_take q1 cid rq q2 tid)
    then show ?thesis using inv by (auto simp: service_inv_def in_flight_def waiting_def)
  next
    case (sv_finish r1 tid cid rq r2 fuel w)
    obtain rp where "t = call_query_handler cid rp (s\<lparr>se_running := r1 @ r2\<rparr>)"
      using query_task_ok [OF thr [OF sv_finish(1)] sv_finish(2)] by auto
    then show ?thesis using inv sv_finish(1)
      by (auto simp: service_inv_def in_flight_def call_query_handler_def waiting_def)
  next
    case (sv_lost r1 tid cid rq r2 fuel w e)
    then show ?thesis using query_task_ok [OF thr [OF sv_lost(2)] sv_lost(3)] by blast
  next
    case (sv_reply q1 cid rp q2 c p)
    obtain c' d' es where p: "p = (c', d', es)" by (cases p)
    let ?s = "s\<lparr>se_replies := q1 @ q2\<rparr>"
    have w: "waiting ?s = waiting s" by (simp add: waiting_def)
    have "distinct (in_flight ?s)" "set (in_flight ?s) = waiting ?s - {cid}"
      using inv sv_reply(2) unfolding w by (auto simp: service_inv_def in_flight_def)
    then show ?thesis unfolding sv_reply(1) p
      by (rule service_inv_turn [OF _ _ _ _ _ sv_reply(4) [unfolded p]])
        (use inv in \<open>auto simp: service_inv_def\<close>)
  qed
qed

lemma service_inv_init: "service_init s \<Longrightarrow> service_inv workers s"
  by (simp add: service_init_def service_inv_def in_flight_def waiting_def)

interpretation database_service: invariant_system service_init "service_step env cfg api dbs workers"
    "\<lambda>s. workers \<le> length dbs \<longrightarrow> service_inv workers s" for env cfg api dbs workers
  by unfold_locales (auto intro: service_inv_init service_inv_step)

section \<open>Progress\<close>

abbreviation service_steps :: "http_env \<Rightarrow> server_cfg \<Rightarrow> 's sqlite_api \<Rightarrow> databases \<Rightarrow> nat \<Rightarrow>
    service \<Rightarrow> service \<Rightarrow> bool" where
  "service_steps env cfg api dbs workers \<equiv> (service_step env cfg api dbs workers)\<^sup>*\<^sup>*"

text \<open>The steps of the database alone: a thread takes or finishes a task, a response arrives.\<close>

inductive db_step :: "http_env \<Rightarrow> server_cfg \<Rightarrow> 's sqlite_api \<Rightarrow> databases \<Rightarrow> nat \<Rightarrow> service \<Rightarrow> service \<Rightarrow> bool"
  for env cfg api dbs workers where
  db_take: "se_tasks s = q1 @ (cid, rq) # q2 \<Longrightarrow> tid < workers \<Longrightarrow> tid \<notin> fst ` set (se_running s) \<Longrightarrow>
    db_step env cfg api dbs workers s
      (s\<lparr>se_tasks := q1 @ q2, se_running := (tid, cid, rq) # se_running s\<rparr>)"
| db_finish: "se_running s = r1 @ (tid, cid, rq) # r2 \<Longrightarrow>
    query_task api dbs fuel tid (cid, rq) w (s\<lparr>se_running := r1 @ r2\<rparr>) = Some (Ok s') \<Longrightarrow>
    db_step env cfg api dbs workers s s'"
| db_reply: "se_replies s = q1 @ (cid, rp) # q2 \<Longrightarrow> se_conns s cid = Some c \<Longrightarrow>
    conn_step env cfg c (se_stat s) (Io_db rp) = Some p \<Longrightarrow>
    db_step env cfg api dbs workers s (conn_turn cid p (s\<lparr>se_replies := q1 @ q2\<rparr>))"

lemma db_step_service: "db_step env cfg api dbs workers s t \<Longrightarrow> service_step env cfg api dbs workers s t"
  by (induction rule: db_step.induct) (blast intro: sv_take sv_finish sv_reply)+

text \<open>SQLite ends every statement: enough rounds of the row loop give a result.\<close>

definition queries_end :: "'s sqlite_api \<Rightarrow> databases \<Rightarrow> bool" where
  "queries_end api dbs \<longleftrightarrow> (\<forall>tid < length dbs. \<forall>rq w. \<exists>fuel. run_query api dbs fuel tid rq w \<noteq> None)"

definition sent :: "nat \<Rightarrow> http_response \<Rightarrow> (nat \<times> effect) list" where
  "sent cid r = [(cid, Eff_expires None), (cid, Eff_write r)]"

definition can_answer :: "http_env \<Rightarrow> server_cfg \<Rightarrow> 's sqlite_api \<Rightarrow> databases \<Rightarrow> nat \<Rightarrow> nat \<Rightarrow> service \<Rightarrow> bool" where
  "can_answer env cfg api dbs workers cid s \<longleftrightarrow>
     (\<exists>s' r. (db_step env cfg api dbs workers)\<^sup>*\<^sup>* s s' \<and> se_trace s' = se_trace s @ sent cid r)"

lemma can_answer_step:
  "db_step env cfg api dbs workers s t \<Longrightarrow> se_trace t = se_trace s \<Longrightarrow>
    can_answer env cfg api dbs workers cid t \<Longrightarrow> can_answer env cfg api dbs workers cid s"
  by (auto simp: can_answer_def intro: converse_rtranclp_into_rtranclp)

lemma resume_db:
  "co_pc c = Pc_db resp \<Longrightarrow> conn_step env cfg c d (Io_db rp) =
    Some (send_response env cfg (db_handle_end (he_beast env) (he_db_en env) (co_request c) resp rp) (c, d, []))"
  by (simp add: conn_step_def)

lemma reply_progress:
  assumes "service_inv workers s" and "(cid, rp) \<in> set (se_replies s)"
  shows "can_answer env cfg api dbs workers cid s"
proof -
  from assms(2) obtain q1 q2 where q: "se_replies s = q1 @ (cid, rp) # q2" by (meson split_list)
  then have "cid \<in> waiting s" using assms(1) by (auto simp: service_inv_def in_flight_def)
  then obtain c resp where c: "se_conns s cid = Some c" "co_pc c = Pc_db resp"
    by (auto simp: waiting_def at_db_iff)
  let ?r = "db_handle_end (he_beast env) (he_db_en env) (co_request c) resp rp"
  obtain c' d' where sr: "send_response env cfg ?r (c, se_stat s, []) =
      (c', d', [Eff_expires None, Eff_write (final_response env cfg c ?r)])"
    by (simp add: send_response_final)
  with resume_db [OF c(2), of env cfg "se_stat s" rp]
  have st: "conn_step env cfg c (se_stat s) (Io_db rp) =
      Some (c', d', [Eff_expires None, Eff_write (final_response env cfg c ?r)])" by simp
  have "se_trace (conn_turn cid (c', d', [Eff_expires None, Eff_write (final_response env cfg c ?r)])
      (s\<lparr>se_replies := q1 @ q2\<rparr>)) = se_trace s @ sent cid (final_response env cfg c ?r)"
    by (simp add: conn_turn_step [OF st] sent_def)
  then show ?thesis 
    unfolding can_answer_def using db_reply [OF q c(1) st, of api dbs workers] by blast
qed

lemma running_progress:
  assumes "queries_end api dbs" and "tid < length dbs" and "(tid, cid, rq) \<in> set (se_running s)"
  obtains rp r1 r2 where "se_running s = r1 @ (tid, cid, rq) # r2"
    and "db_step env cfg api dbs workers s
      (s\<lparr>se_running := r1 @ r2, se_replies := se_replies s @ [(cid, rp)]\<rparr>)"
proof -
  from assms(3) obtain r1 r2 where r: "se_running s = r1 @ (tid, cid, rq) # r2" by (meson split_list)
  obtain fuel where "run_query api dbs fuel tid rq undefined \<noteq> None"
    using assms(1,2) unfolding queries_end_def by blast
  then obtain res where res: "query_task api dbs fuel tid (cid, rq) undefined (s\<lparr>se_running := r1 @ r2\<rparr>) = Some res"
    by (auto simp: query_task_def)
  with query_task_ok [OF assms(2) res] obtain rp
    where "res = Ok (call_query_handler cid rp (s\<lparr>se_running := r1 @ r2\<rparr>))" by blast
  with res have "query_task api dbs fuel tid (cid, rq) undefined (s\<lparr>se_running := r1 @ r2\<rparr>) =
      Some (Ok (s\<lparr>se_running := r1 @ r2, se_replies := se_replies s @ [(cid, rp)]\<rparr>))"
    by (simp add: call_query_handler_def)
  from that [OF r db_finish [OF r this]] show thesis .
qed

lemma answered_if_running:
  assumes "service_inv workers s" and "queries_end api dbs" and "workers \<le> length dbs"
    and "(tid, cid, rq) \<in> set (se_running s)"
  shows "can_answer env cfg api dbs workers cid s"
proof -
  have "tid < length dbs" using assms(1,3,4) by (auto simp: service_inv_def list_all_iff)
  from running_progress [OF assms(2) this assms(4)] obtain rp r1 r2
    where st: "db_step env cfg api dbs workers s
      (s\<lparr>se_running := r1 @ r2, se_replies := se_replies s @ [(cid, rp)]\<rparr>)" (is "db_step _ _ _ _ _ _ ?s1")
    by metis
  have "service_inv workers ?s1" by (rule service_inv_step [OF assms(1,3) db_step_service [OF st]])
  then have "can_answer env cfg api dbs workers cid ?s1" by (rule reply_progress [where rp = rp]) simp
  then show ?thesis by (rule can_answer_step [OF st, rotated]) simp
qed

lemma answered_if_idle:
  assumes "service_inv workers s" and "queries_end api dbs" and "workers \<le> length dbs"
    and "tid < workers" and "tid \<notin> fst ` set (se_running s)" and "(cid, rq) \<in> set (se_tasks s)"
  shows "can_answer env cfg api dbs workers cid s"
proof -
  from assms(6) obtain q1 q2 where "se_tasks s = q1 @ (cid, rq) # q2" by (meson split_list)
  note st = db_take [OF this assms(4,5), of env cfg api dbs]
  show ?thesis
    by (rule can_answer_step [OF st _ answered_if_running [OF service_inv_step [OF assms(1,3) db_step_service [OF st]] assms(2,3),
          where tid = tid and rq = rq]]) simp_all
qed

lemma answered_if_posted:
  assumes inv: "service_inv workers s" and q: "queries_end api dbs" and w: "workers \<le> length dbs"
    and "0 < workers" and task: "(cid, rq) \<in> set (se_tasks s)"
  shows "can_answer env cfg api dbs workers cid s"
proof (cases "0 \<in> fst ` set (se_running s)")
  case True
  then obtain k rk where "(0, k, rk) \<in> set (se_running s)" by auto
  with running_progress [OF q _ this] w assms(4) obtain rp r1 r2
    where r: "se_running s = r1 @ (0, k, rk) # r2" and st: "db_step env cfg api dbs workers s
      (s\<lparr>se_running := r1 @ r2, se_replies := se_replies s @ [(k, rp)]\<rparr>)" (is "db_step _ _ _ _ _ _ ?s1")
    by (metis order.strict_trans2)
  have "0 \<notin> fst ` set (se_running ?s1)" using inv r by (auto simp: service_inv_def)
  with task show ?thesis
    by (intro can_answer_step [OF st _ answered_if_idle [OF service_inv_step [OF inv w db_step_service [OF st]] q w assms(4)]]) simp_all
next
  case False
  with answered_if_idle [OF inv q w assms(4) _ task] show ?thesis by simp
qed

lemma waiting_answered:
  assumes "service_inv workers s" and "queries_end api dbs" and "workers \<le> length dbs" and "0 < workers"
    and "se_conns s cid = Some c" and "co_pc c = Pc_db resp"
  shows "can_answer env cfg api dbs workers cid s"
proof -
  have "cid \<in> waiting s" using assms(5,6) by (auto simp: waiting_def at_db_iff)
  then have "cid \<in> set (in_flight s)" using assms(1) by (simp add: service_inv_def)
  then consider rq where "(cid, rq) \<in> set (se_tasks s)" | tid rq where "(tid, cid, rq) \<in> set (se_running s)"
    | rp where "(cid, rp) \<in> set (se_replies s)"
    by (auto simp: in_flight_def)
  then show ?thesis
    by cases (blast intro: answered_if_posted [OF assms(1-4)] answered_if_running [OF assms(1-3)]
        reply_progress [OF assms(1)])+
qed

section \<open>A server for the witnesses\<close>

definition demo_db_env :: http_env where
  "demo_db_env = demo_env\<lparr>he_db_de := \<lparr>de_json = (\<lambda>b. Inr demo_request), de_proto = (\<lambda>b. None)\<rparr>,
     he_db_en := \<lparr>en_json = (\<lambda>m b. (if rp_ok m then ''yes'' else ''no'', None)), en_proto = (\<lambda>m b. ([], False))\<rparr>\<rparr>"

definition demo_post :: http_request where
  "demo_post = \<lparr>req_method = V_other ''POST'', req_target = ''/db'',
     req_fields = [Fd_content_type \<mapsto> ''application/json''], req_body = ''{}'', req_keep_alive = True\<rparr>"

abbreviation demo_dbs :: databases where "demo_dbs \<equiv> [[(''d'', demo_db)]]"

definition demo_quiet :: service where
  "demo_quiet = \<lparr>se_conns = Map.empty, se_stat = stat_init, se_tasks = [], se_running = [], se_replies = [], se_trace = []\<rparr>"

definition demo_open :: service where
  "demo_open = conn_turn 0 (conn_start demo_sv stat_init) demo_quiet"

lemma demo_db_beast: "iequals_ok (he_beast demo_db_env)" "payload_ok (he_beast demo_db_env)"
  by (simp_all add: demo_db_env_def demo_env_def demo_beast_ok payload_ok_def) (simp add: demo_beast_def)

lemma demo_open_reach:
  "reach service_init (service_step demo_db_env demo_sv scripted dbs n) demo_open"
proof (rule reach_step)
  show "reach service_init (service_step demo_db_env demo_sv scripted dbs n) demo_quiet"
    by (rule reach_init) (simp add: service_init_def demo_quiet_def)
  show "service_step demo_db_env demo_sv scripted dbs n demo_quiet demo_open"
    using sv_start [of demo_quiet 0 demo_db_env demo_sv scripted dbs n]
    by (simp add: demo_open_def) (simp add: demo_quiet_def)
qed

lemma scripted_step:
  "next_row scripted q n cs = (fst (next_row scripted q n cs), tl cs)"
  "next_row scripted q n [] = (Ok St_done, [])"
  by (cases cs) (simp_all add: next_row_def scripted_def Let_def signed_modulo_int_def signed_divide_int_def)

lemma scripted_loop_ends:
  "length (w_sq w) < fuel \<Longrightarrow> execute_loop scripted db q cols fuel n rows w \<noteq> None"
proof (induction fuel arbitrary: w n rows)
  case (Suc fuel)
  have st: "query_start scripted q True u = (Ok (), u)" "w_sq (retry_pause db v) = w_sq v" for u v
    by (simp_all add: query_start_def scripted_def retry_pause_def)
  show ?case
  proof (cases "w_sq w")
    case Nil
    then show ?thesis by (simp add: scripted_step(2))
  next
    case (Cons c cs)
    with Suc.prems have l: "length cs < fuel" by simp
    have n: "next_row scripted q n (c # cs) = (fst (next_row scripted q n (c # cs)), cs)"
      using scripted_step(1) [of q n "c # cs"] by simp
    have ih: "execute_loop scripted db q cols fuel m rs v \<noteq> None" if "w_sq v = cs" for m rs v
      using Suc.IH l that by simp
    show ?thesis
      unfolding execute_loop.simps Cons
      by (subst n) (simp add: ih st Let_def del: not_None_eq split: outcome.split status.split)
  qed
qed simp

lemma scripted_ends: "queries_end scripted dbs"
  unfolding queries_end_def
proof (intro allI impI exI)
  fix tid rq and w :: "int list db_world"
  assume "tid < length dbs"
  have st: "query_start scripted q False u = (Ok (), u)" for q u by (simp add: query_start_def scripted_def)
  have ba: "bind_args scripted q i as u = (Ok (), u)" for q i as u
    by (induction as arbitrary: i) (simp_all add: db_bind_eq bind_arg_at_def scripted_def)
  show "run_query scripted dbs (Suc (length (w_sq w))) tid rq w \<noteq> None"
    using scripted_loop_ends [of w "Suc (length (w_sq w))"]
    by (simp add: run_query_def bind_and_execute_def st ba execute_query_def del: execute_loop.simps not_None_eq
        split: option.split)
qed

lemma demo_expect_db:
  "\<not> bt_iequals (he_beast demo_db_env) (req_field demo_post Fd_expect) ''100-continue''"
  by (simp add: demo_db_env_def demo_env_def demo_beast_def demo_post_def req_field_def same_nocase_def)

definition demo_waiting :: service where
  "demo_waiting = conn_turn 0 (the (conn_step demo_db_env demo_sv (fst (conn_start demo_sv stat_init))
     (se_stat demo_open) (Io_header Ec_none demo_post True))) demo_open"

lemma db_request_posted:
  assumes "iequals_ok (he_beast env)" and "co_pc c = Pc_header" and "req_target rq = ''/db''"
    and "\<not> bt_iequals (he_beast env) (req_field rq Fd_expect) ''100-continue''"
    and "same_nocase (req_field rq Fd_content_type) ''application/json''"
    and "de_json (he_db_de env) (req_body rq) = Inr dbrq"
  shows "conn_step env cfg c d (Io_header Ec_none rq True) =
    Some (c\<lparr>co_ec := Ec_none, co_stage := ''read_request_headers'', co_request := rq, co_body_done := True,
            co_req_n := co_req_n c + 1, co_pc := Pc_db base_handle_sync\<rparr>,
          d\<lparr>st_requests := st_requests d + 1, st_data_req := st_data_req d + of_nat (length (req_body rq))\<rparr>,
          [Eff_post_db dbrq])"
proof -
  have "fst (json_body (he_beast env) rq True)"
    using assms(1,5) by (simp add: json_body_def content_type_json_def iequals_ok_def Let_def)
  with assms(6) have "db_handle_begin (he_beast env) (he_db_de env) rq = Inr (dbrq, base_handle_sync)"
    by (simp add: db_handle_begin_def parse_def)
  with assms(2-4) show ?thesis
    by (simp add: conn_step_def after_header_def body_loop_def make_response_def handlers_def Let_def)
qed

lemma demo_post_type: "same_nocase (req_field demo_post Fd_content_type) ''application/json''"
  by (simp add: demo_post_def req_field_def same_nocase_def)

lemmas demo_posted = db_request_posted [OF demo_db_beast(1) _ _ demo_expect_db demo_post_type,
    of "fst (conn_start demo_sv stat_init)" demo_request demo_sv "se_stat demo_open"]

lemma demo_start: "co_pc (fst (conn_start demo_sv stat_init)) = Pc_header" "req_target demo_post = ''/db''"
  "de_json (he_db_de demo_db_env) (req_body demo_post) = Inr demo_request"
  "se_conns demo_open 0 = Some (fst (conn_start demo_sv stat_init))"
  by (simp_all add: conn_start_def loop_head_def demo_post_def demo_db_env_def demo_open_def conn_turn_def
      before_request_timeout_def)

lemma demo_waiting_reach:
  "reach service_init (service_step demo_db_env demo_sv scripted dbs n) demo_waiting"
  unfolding demo_waiting_def
  by (rule reach_step [OF demo_open_reach], rule sv_conn [where io = "Io_header Ec_none demo_post True", OF demo_start(4)])
    (simp_all add: at_db_def demo_start(1) demo_posted [OF demo_start(1-3)])

lemma demo_waiting_conn: "\<exists>c. se_conns demo_waiting 0 = Some c \<and> co_pc c = Pc_db base_handle_sync"
  by (simp add: demo_waiting_def demo_posted [OF demo_start(1-3)] conn_turn_def call_query_def db_query_def)

definition demo_taken :: service where
  "demo_taken = demo_waiting\<lparr>se_tasks := [], se_running := [(1, 0, demo_request)]\<rparr>"

lemma demo_taken_reach: "reach service_init (service_step demo_db_env demo_sv scripted dbs 2) demo_taken"
proof -
  have "se_tasks demo_open = []" "se_running demo_open = []"
    by (simp_all add: demo_open_def conn_turn_start demo_quiet_def)
  then have w: "se_tasks demo_waiting = [] @ (0, demo_request) # []" "se_running demo_waiting = []"
    by (simp_all add: demo_waiting_def demo_posted [OF demo_start(1-3)] conn_turn_def call_query_def db_query_def)
  have "service_step demo_db_env demo_sv scripted dbs 2 demo_waiting demo_taken"
    using sv_take [OF w(1), of 1 2] by (simp add: demo_taken_def w(2))
  then show ?thesis by (rule reach_step [OF demo_waiting_reach])
qed

lemma db_resume_json:
  assumes "iequals_ok (he_beast env)" and "payload_ok (he_beast env)"
    and "co_pc c = Pc_db base_handle_sync" and "same_nocase (req_field (co_request c) Fd_content_type) ''application/json''"
    and "req_field (co_request c) Fd_accept \<in> {[], ''*'', ''*/*''}" and "en_json (he_db_en env) rp [] = (body, None)"
  defines "out \<equiv> if req_method (co_request c) = V_head then [] else body"
  obtains c' r where "conn_step env cfg c d (Io_db rp) =
      Some (c', d\<lparr>st_data_resp := st_data_resp d + of_nat (length out)\<rparr>, [Eff_expires None, Eff_write r])"
    and "res_status r = 200" and "res_body r = out" and "res_content_length r = Some (length body)"
proof -
  have "fst (json_body (he_beast env) (co_request c) False)"
    using assms(1,4,5) by (auto simp: json_body_def content_type_json_def iequals_ok_def Let_def)
  then have "db_handle_end (he_beast env) (he_db_en env) (co_request c) base_handle_sync rp =
      base_handle_sync\<lparr>res_body := body\<rparr>"
    using assms(6) by (simp add: db_handle_end_def serialize_def base_handle_sync_def mk_response_def)
  with resume_db [OF assms(3), of env cfg d rp] assms(2) show thesis
    by (intro that) (auto simp: send_response_final final_response_def payload_ok_def base_handle_sync_def
        mk_response_def Let_def out_def)
qed

text \<open>A queued task taken and finished by an idle thread.\<close>

lemma task_served:
  assumes "se_tasks s = q1 @ (cid, rq) # q2" and "tid < workers" and "tid \<notin> fst ` set (se_running s)"
    and "run_query api dbs fuel tid rq w = Some (Ok rp, w')"
  shows "service_steps env cfg api dbs workers s
    (s\<lparr>se_tasks := q1 @ q2, se_replies := se_replies s @ [(cid, rp)]\<rparr>)"
proof -
  let ?s1 = "s\<lparr>se_tasks := q1 @ q2, se_running := (tid, cid, rq) # se_running s\<rparr>"
  have "service_step env cfg api dbs workers s ?s1" by (rule sv_take [OF assms(1-3)])
  moreover have "service_step env cfg api dbs workers ?s1
      (s\<lparr>se_tasks := q1 @ q2, se_replies := se_replies s @ [(cid, rp)]\<rparr>)"
    by (rule sv_finish [of _ "[]" tid cid rq "se_running s" _ _ fuel w])
      (simp_all add: query_task_def assms(4) call_query_handler_def)
  ultimately show ?thesis by (blast intro: converse_rtranclp_into_rtranclp)
qed

text \<open>The guard of \<open>execute_query\<close> cannot fail.\<close>

interpretation signal_guard: safe_guard "\<lambda>w. (Ok (), signal_finished db w)" "signal_finished db" for db
  by unfold_locales simp

section \<open>Properties\<close>

text \<open>
  C15: no database request is lost, duplicated or answered to the wrong connection. In every
  reachable state, with any number of connections and any interleaving of the threads of the
  pool, the connections that are suspended in the database handler are exactly those with
  something on the way, each with exactly one of: a task in the queue, a query being run by
  a thread, or a response that waits for its executor; and every thread runs at most one.
\<close>

theorem db_requests_tracked:
  assumes "reach service_init (service_step env cfg api dbs workers) s" and "workers \<le> length dbs"
  shows "distinct (map fst (se_tasks s) @ map (fst \<circ> snd) (se_running s) @ map fst (se_replies s)) \<and>
    set (map fst (se_tasks s) @ map (fst \<circ> snd) (se_running s) @ map fst (se_replies s)) =
      {cid. \<exists>c resp. se_conns s cid = Some c \<and> co_pc c = Pc_db resp} \<and>
    distinct (map fst (se_running s)) \<and> length (se_running s) \<le> workers"
proof -
  have inv: "service_inv workers s" using database_service.reachable_inv [OF assms(1)] assms(2) by blast
  have "set (map fst (se_running s)) \<subseteq> {0..<workers}" using inv by (auto simp: service_inv_def list_all_iff)
  from card_mono [OF _ this] inv have "length (se_running s) \<le> workers"
    by (metis card_atLeastLessThan diff_zero distinct_card finite_atLeastLessThan length_map service_inv_def)
  moreover have "waiting s = {cid. \<exists>c resp. se_conns s cid = Some c \<and> co_pc c = Pc_db resp}"
    by (auto simp: waiting_def at_db_iff)
  ultimately show ?thesis using inv unfolding service_inv_def in_flight_def by blast
qed

theorem db_requests_tracked_witness:
  "distinct (map fst (se_tasks demo_waiting) @ map (fst \<circ> snd) (se_running demo_waiting) @ map fst (se_replies demo_waiting)) \<and>
   0 \<in> set (map fst (se_tasks demo_waiting) @ map (fst \<circ> snd) (se_running demo_waiting) @ map fst (se_replies demo_waiting))"
  using db_requests_tracked [OF demo_waiting_reach [of demo_dbs 1]] demo_waiting_conn by auto

text \<open>
  A suspended database request can always be answered. From every reachable state in
  which a connection waits for the database, however many requests are queued and whatever
  the threads are doing, the service can reach the point where that connection writes its
  response, provided the pool has a thread and SQLite ends every statement.
\<close>

lemma db_request_never_stuck:
  assumes "reach service_init (service_step env cfg api dbs workers) s" and "workers \<le> length dbs"
    and "0 < workers" and "queries_end api dbs" and "se_conns s cid = Some c" and "co_pc c = Pc_db resp"
  shows "\<exists>s' r. (service_step env cfg api dbs workers)\<^sup>*\<^sup>* s s' \<and>
    se_trace s' = se_trace s @ [(cid, Eff_expires None), (cid, Eff_write r)]"
proof -
  have inv: "service_inv workers s" using database_service.reachable_inv [OF assms(1)] assms(2) by blast
  from waiting_answered [OF inv assms(4,2,3,5,6), of env cfg] obtain s' r
    where s': "(db_step env cfg api dbs workers)\<^sup>*\<^sup>* s s'" "se_trace s' = se_trace s @ sent cid r"
    by (auto simp: can_answer_def)
  have "(service_step env cfg api dbs workers)\<^sup>*\<^sup>* s s'"
    using s'(1) by (rule rtranclp_mono [THEN predicate2D, rotated]) (auto intro: db_step_service)
  with s'(2) show ?thesis by (auto simp: sent_def)
qed

theorem db_request_never_stuck_witness:
  "\<exists>s' r. (service_step demo_db_env demo_sv scripted demo_dbs 1)\<^sup>*\<^sup>* demo_waiting s' \<and>
     se_trace s' = se_trace demo_waiting @ [(0, Eff_expires None), (0, Eff_write r)]"
proof -
  obtain c where "se_conns demo_waiting 0 = Some c" "co_pc c = Pc_db base_handle_sync" using demo_waiting_conn by blast
  from db_request_never_stuck [OF demo_waiting_reach [of demo_dbs 1] _ _ scripted_ends this] show ?thesis by simp
qed

text \<open>
  C14: a database request, end to end. A complete JSON request to \<open>/db\<close> makes the connection
  post the decoded request; when an idle thread of the pool runs it and \<open>run_query\<close> answers
  \<open>rp\<close>, the connection is resumed with that answer and writes, without a deadline, status
  200 and the JSON text of \<open>rp\<close> (no body for \<open>HEAD\<close>, but the same length), and the
  statistics count the request and the bytes of both bodies.
\<close>

theorem db_request_answered:
  assumes "iequals_ok (he_beast env)" and "payload_ok (he_beast env)"
    and "se_conns s cid = Some c" and "co_pc c = Pc_header" and "req_target rq = ''/db''"
    and "\<not> bt_iequals (he_beast env) (req_field rq Fd_expect) ''100-continue''"
    and "same_nocase (req_field rq Fd_content_type) ''application/json''"
    and "req_field rq Fd_accept \<in> {[], ''*'', ''*/*''}"
    and "de_json (he_db_de env) (req_body rq) = Inr dbrq"
    and "tid < workers" and "tid \<notin> fst ` set (se_running s)"
    and "run_query api dbs fuel tid dbrq w = Some (Ok rp, w')"
    and "en_json (he_db_en env) rp [] = (body, None)"
    and "out = (if req_method rq = V_head then [] else body)"
  shows "\<exists>s' r. (service_step env cfg api dbs workers)\<^sup>*\<^sup>* s s' \<and>
    se_trace s' = se_trace s @ map (Pair cid) [Eff_post_db dbrq, Eff_expires None, Eff_write r] \<and>
    res_status r = 200 \<and> res_body r = out \<and> res_content_length r = Some (length body) \<and>
    se_stat s' = (se_stat s)\<lparr>st_requests := st_requests (se_stat s) + 1,
      st_data_req := st_data_req (se_stat s) + of_nat (length (req_body rq)),
      st_data_resp := st_data_resp (se_stat s) + of_nat (length out)\<rparr>"
proof -
  obtain c1 d1 where c1: "conn_step env cfg c (se_stat s) (Io_header Ec_none rq True) = Some (c1, d1, [Eff_post_db dbrq])"
    "co_pc c1 = Pc_db base_handle_sync" "co_request c1 = rq"
    "d1 = (se_stat s)\<lparr>st_requests := st_requests (se_stat s) + 1,
      st_data_req := st_data_req (se_stat s) + of_nat (length (req_body rq))\<rparr>"
    using db_request_posted [OF assms(1,4-7,9), of cfg "se_stat s"] by simp
  let ?s1 = "s\<lparr>se_stat := d1, se_conns := (se_conns s)(cid \<mapsto> c1), se_tasks := se_tasks s @ [(cid, dbrq)],
    se_trace := se_trace s @ [(cid, Eff_post_db dbrq)]\<rparr>"
  let ?s2 = "?s1\<lparr>se_tasks := se_tasks s, se_replies := se_replies s @ [(cid, rp)]\<rparr>"
  have "\<not> at_db c" using assms(4) by (simp add: at_db_def)
  from sv_conn [OF assms(3) this c1(1), of api dbs workers] conn_turn_step [OF c1(1), of cid s] c1(2)
  have a: "service_step env cfg api dbs workers s ?s1" by (simp add: at_db_iff)
  have b: "service_steps env cfg api dbs workers ?s1 ?s2"
    using task_served [of ?s1 "se_tasks s" cid dbrq "[]" tid workers api dbs fuel w rp w' env cfg] assms(10-12) by simp
  obtain c2 r where c2: "conn_step env cfg c1 d1 (Io_db rp) = Some (c2,
      d1\<lparr>st_data_resp := st_data_resp d1 + of_nat (length out)\<rparr>, [Eff_expires None, Eff_write r])"
    and r: "res_status r = 200" "res_body r = out" "res_content_length r = Some (length body)"
    by (rule db_resume_json [OF assms(1,2) c1(2) _ _ assms(13), of cfg d1]) 
      (use assms(7,8) c1(3) in \<open>simp_all add: assms(14)\<close>)
  let ?s3 = "conn_turn cid (c2, d1\<lparr>st_data_resp := st_data_resp d1 + of_nat (length out)\<rparr>,
    [Eff_expires None, Eff_write r]) (?s2\<lparr>se_replies := se_replies s @ []\<rparr>)"
  have "service_step env cfg api dbs workers ?s2 ?s3"
    by (rule sv_reply [where c = c1]) (use c2 in \<open>simp_all\<close>)
  with a b have "service_steps env cfg api dbs workers s ?s3"
    by (blast intro: converse_rtranclp_into_rtranclp rtranclp.rtrancl_into_rtrancl)
  moreover have "se_trace ?s3 = se_trace s @ map (Pair cid) [Eff_post_db dbrq, Eff_expires None, Eff_write r]"
    "se_stat ?s3 = d1\<lparr>st_data_resp := st_data_resp d1 + of_nat (length out)\<rparr>"
    by (simp_all add: conn_turn_step [OF c2])
  ultimately show ?thesis using r c1(4) by (intro exI [of _ ?s3] exI [of _ r]) simp
qed

theorem db_request_answered_witness:
  "\<exists>s' r. (service_step demo_db_env demo_sv scripted demo_dbs 1)\<^sup>*\<^sup>* demo_open s' \<and>
     se_trace s' = se_trace demo_open @ [(0, Eff_post_db demo_request), (0, Eff_expires None), (0, Eff_write r)] \<and>
     res_status r = 200 \<and> res_body r = ''yes''"
proof -
  have q: "run_query scripted demo_dbs 1 0 demo_request (demo_world []) =
      Some (Ok \<lparr>rp_ok = True, rp_msg = ''ok'', rp_rows = []\<rparr>, signal_finished demo_db (demo_world []))"
    by (simp add: run_query_def bind_and_execute_def demo_defs query_start_def db_bind_eq bind_arg_at_def
        execute_query_def column_count_def next_row_def signed_modulo_int_def signed_divide_int_def
        finish_query_def)
  have e: "en_json (he_db_en demo_db_env) \<lparr>rp_ok = True, rp_msg = ''ok'', rp_rows = []\<rparr> [] = (''yes'', None)"
    by (simp add: demo_db_env_def)
  have a: "req_field demo_post Fd_accept \<in> {[], ''*'', ''*/*''}" "req_method demo_post \<noteq> V_head"
    "(0 :: nat) \<notin> fst ` set (se_running demo_open)"
    by (simp_all add: demo_post_def req_field_def demo_open_def conn_turn_start demo_quiet_def)
  have "''yes'' = (if req_method demo_post = V_head then [] else ''yes'')" using a(2) by simp
  from db_request_answered [OF demo_db_beast demo_start(4,1,2) demo_expect_db demo_post_type a(1) demo_start(3) _ a(3) q e this,
      of 1 demo_sv]
  show ?thesis by auto
qed

text \<open>
  \<open>execute_query\<close> is its row loop inside the scope of the guard \<open>signal_finished\<close>: for
  every end of the loop the waiting threads are signalled once, after the loop, and its
  outcome is kept; only a failed assertion skips the signal.
\<close>

lemma execute_query_guarded:
  "execute_query api db q fuel retries w = Some ((r, rows), w') \<longleftrightarrow>
    (\<exists>w1. execute_loop api db q (column_count api q (w_sq w)) fuel retries [] w = Some ((r, rows), w1) \<and>
      guarded (\<lambda>w. (Ok (), signal_finished db w)) (\<lambda>_. (r, w1)) w = (r, w'))"
  unfolding execute_query_def signal_guard.guarded_eq by auto

end
