(* ===== verification/Whole_Server.thy ===== *)
theory Whole_Server
  imports Db_Service
begin

text \<open>
  The running server as one system: the acceptor and the connections of \<open>Http_Server\<close>
  together with the database pool of \<open>Db_Service\<close>. A turn of a connection happens in both at
  once; the acceptor moves alone, and so do the threads of the database pool. A connection is
  known to the database by its session number. Unlike in \<open>Http_Server\<close>, a response of the
  database arrives only when a thread has posted it.
\<close>

section \<open>The composed system\<close>

record whole =
  wh_server :: server
  wh_db :: service

text \<open>A turn of the connection \<open>k\<close>, from its start or resumption to the next suspension.\<close>

definition whole_turn :: "server_cfg \<Rightarrow> connection_task list \<Rightarrow> connection_task \<Rightarrow> connection_task list \<Rightarrow>
    point \<Rightarrow> whole \<Rightarrow> whole" where
  "whole_turn cfg ks k ls p w =
     \<lparr>wh_server = conn_task_step cfg ks k ls p (wh_server w), wh_db = conn_turn (unat (cn_sid k)) p (wh_db w)\<rparr>"

inductive whole_step :: "http_env \<Rightarrow> server_cfg \<Rightarrow> 's sqlite_api \<Rightarrow> databases \<Rightarrow> nat \<Rightarrow> whole \<Rightarrow> whole \<Rightarrow> bool"
  for env cfg api dbs workers where
  wl_limit: "sr_acc (wh_server w) = Acc_limit \<Longrightarrow>
    whole_step env cfg api dbs workers w (w\<lparr>wh_server := conn_limit cfg (wh_server w)\<rparr>)"
| wl_resume: "sr_acc (wh_server w) = Acc_wait \<Longrightarrow> sr_posted (wh_server w) \<Longrightarrow>
    whole_step env cfg api dbs workers w
      (w\<lparr>wh_server := (wh_server w)\<lparr>sr_posted := False, sr_acc := Acc_accept\<rparr>\<rparr>)"
| wl_accept: "sr_acc (wh_server w) = Acc_accept \<Longrightarrow>
    whole_step env cfg api dbs workers w (w\<lparr>wh_server := accept_done cfg r (wh_server w)\<rparr>)"
| wl_start: "sr_conns (wh_server w) = ks @ k # ls \<Longrightarrow> cn_run k = None \<Longrightarrow>
    whole_step env cfg api dbs workers w (whole_turn cfg ks k ls (conn_start cfg (sr_stat (wh_server w))) w)"
| wl_conn: "sr_conns (wh_server w) = ks @ k # ls \<Longrightarrow> cn_run k = Some c \<Longrightarrow> \<not> at_db c \<Longrightarrow>
    conn_step env cfg c (sr_stat (wh_server w)) io = Some p \<Longrightarrow>
    whole_step env cfg api dbs workers w (whole_turn cfg ks k ls p w)"
| wl_reply: "se_replies (wh_db w) = q1 @ (unat (cn_sid k), rp) # q2 \<Longrightarrow>
    sr_conns (wh_server w) = ks @ k # ls \<Longrightarrow> cn_run k = Some c \<Longrightarrow>
    conn_step env cfg c (sr_stat (wh_server w)) (Io_db rp) = Some p \<Longrightarrow>
    whole_step env cfg api dbs workers w
      (whole_turn cfg ks k ls p (w\<lparr>wh_db := (wh_db w)\<lparr>se_replies := q1 @ q2\<rparr>\<rparr>))"
| wl_take: "se_tasks (wh_db w) = q1 @ (cid, rq) # q2 \<Longrightarrow> tid < workers \<Longrightarrow> tid \<notin> fst ` set (se_running (wh_db w)) \<Longrightarrow>
    whole_step env cfg api dbs workers w
      (w\<lparr>wh_db := (wh_db w)\<lparr>se_tasks := q1 @ q2, se_running := (tid, cid, rq) # se_running (wh_db w)\<rparr>\<rparr>)"
| wl_finish: "se_running (wh_db w) = r1 @ (tid, cid, rq) # r2 \<Longrightarrow>
    query_task api dbs fuel tid (cid, rq) dw ((wh_db w)\<lparr>se_running := r1 @ r2\<rparr>) = Some (Ok v) \<Longrightarrow>
    whole_step env cfg api dbs workers w (w\<lparr>wh_db := v\<rparr>)"
| wl_lost: "se_running (wh_db w) = r1 @ (tid, cid, rq) # r2 \<Longrightarrow>
    query_task api dbs fuel tid (cid, rq) dw ((wh_db w)\<lparr>se_running := r1 @ r2\<rparr>) = Some (Throw e) \<Longrightarrow>
    whole_step env cfg api dbs workers w (w\<lparr>wh_db := (wh_db w)\<lparr>se_running := r1 @ r2\<rparr>\<rparr>)"

definition whole_init :: "whole \<Rightarrow> bool" where
  "whole_init w \<longleftrightarrow> server_init (wh_server w) \<and> service_init (wh_db w)"

text \<open>As long as the counter of sessions does not come round to zero.\<close>

definition whole_unwrapped :: "http_env \<Rightarrow> server_cfg \<Rightarrow> 's sqlite_api \<Rightarrow> databases \<Rightarrow> nat \<Rightarrow> whole \<Rightarrow> whole \<Rightarrow> bool" where
  "whole_unwrapped env cfg api dbs workers w w' \<longleftrightarrow>
     whole_step env cfg api dbs workers w w' \<and> sr_session (wh_server w) + 1 \<noteq> 0"

section \<open>Both parts see the same connections\<close>

definition linked :: "server \<Rightarrow> service \<Rightarrow> bool" where
  "linked s v \<longleftrightarrow> se_stat v = sr_stat s \<and> (\<forall>k \<in> set (sr_conns s). se_conns v (unat (cn_sid k)) = cn_run k) \<and>
     dom (se_conns v) \<subseteq> (\<lambda>k. unat (cn_sid k)) ` set (sr_conns s)"

definition whole_inv :: "whole \<Rightarrow> bool" where
  "whole_inv w \<longleftrightarrow> session_inv (wh_server w) \<and> linked (wh_server w) (wh_db w)"

lemma server_effects_frame:
  "sr_conns (fold (server_effect cfg) es s) = sr_conns s \<and> sr_stat (fold (server_effect cfg) es s) = sr_stat s"
proof (induction es arbitrary: s)
  case (Cons e es)
  then show ?case by (cases e) (simp_all add: active_connection_end_def Let_def)
qed simp

lemma service_effects_frame:
  "se_conns (fold (service_effect cid) es v) = se_conns v \<and> se_stat (fold (service_effect cid) es v) = se_stat v"
proof (induction es arbitrary: v)
  case (Cons e es)
  then show ?case by (cases e) (simp_all add: call_query_def db_query_def)
qed simp

lemma linked_turn:
  assumes "session_inv s" and "linked s v" and "sr_conns s = ks @ k # ls"
  shows "linked (conn_task_step cfg ks k ls p s) (conn_turn (unat (cn_sid k)) p v)"
proof -
  obtain c d es where p: "p = (c, d, es)" by (cases p)
  have other: "cn_sid k' \<noteq> cn_sid k" if "k' \<in> set ks \<union> set ls" for k'
    using assms(1,3) that by (auto simp: session_inv_def) (metis imageI)+
  have s: "sr_conns (conn_task_step cfg ks k ls p s) = ks @ (if co_pc c = Pc_done then [] else [k\<lparr>cn_run := Some c\<rparr>]) @ ls"
    "sr_stat (conn_task_step cfg ks k ls p s) = d"
    by (simp_all add: p conn_task_step_def server_effects_frame)
  have v: "se_conns (conn_turn (unat (cn_sid k)) p v) =
      (se_conns v)(unat (cn_sid k) := if co_pc c = Pc_done then None else Some c)"
    "se_stat (conn_turn (unat (cn_sid k)) p v) = d"
    by (simp_all add: p conn_turn_def service_effects_frame)
  show ?thesis
    using assms(2,3) other unfolding linked_def s v by (auto simp: word_unat_eq_iff split: if_splits)
qed

lemma linked_accept:
  assumes "session_inv s" and "linked s v"
  shows "linked (accept_done cfg r s) v"
proof -
  have "se_conns v (unat (sr_session s)) = None"
  proof (rule ccontr)
    assume "se_conns v (unat (sr_session s)) \<noteq> None"
    then have "unat (sr_session s) \<in> (\<lambda>k. unat (cn_sid k)) ` set (sr_conns s)"
      using assms(2) unfolding linked_def by blast
    then obtain k where "k \<in> set (sr_conns s)" "cn_sid k = sr_session s" by (auto simp: word_unat_eq_iff)
    with assms(1) show False by (auto simp: session_inv_def list_all_iff)
  qed
  with assms(2) show ?thesis by (cases r) (auto simp: linked_def)
qed

lemma linked_frame:
  "linked (conn_limit cfg s) v = linked s v" "linked (s\<lparr>sr_posted := b, sr_acc := a\<rparr>) v = linked s v"
  "linked s (v\<lparr>se_tasks := q\<rparr>) = linked s v" "linked s (v\<lparr>se_running := r\<rparr>) = linked s v"
  "linked s (v\<lparr>se_replies := y\<rparr>) = linked s v" "linked s (call_query_handler cid rp v) = linked s v"
  by (simp_all add: linked_def conn_limit_def call_query_handler_def)

lemma query_task_posts:
  "query_task api dbs fuel tid task dw v = Some (Ok v') \<Longrightarrow> \<exists>rp. v' = call_query_handler (fst task) rp v"
  by (cases "run_query api dbs fuel tid (snd task) dw") (auto simp: query_task_def split: outcome.splits)

text \<open>A step of the whole is a step of each part, or leaves it alone.\<close>

lemma whole_step_server:
  assumes "whole_step env cfg api dbs workers w w'"
  shows "wh_server w' = wh_server w \<or> server_step env cfg (wh_server w) (wh_server w')"
  using assms by cases (auto simp: whole_turn_def intro: server_step.intros)

lemma whole_step_db:
  assumes "whole_step env cfg api dbs workers w w'" and "linked (wh_server w) (wh_db w)"
  shows "wh_db w' = wh_db w \<or> service_step env cfg api dbs workers (wh_db w) (wh_db w')"
proof -
  have st: "se_stat (wh_db w) = sr_stat (wh_server w)" using assms(2) by (simp add: linked_def)
  have conn: "se_conns (wh_db w) (unat (cn_sid k)) = cn_run k" if "sr_conns (wh_server w) = ks @ k # ls" for ks k ls
    using assms(2) that by (simp add: linked_def)
  from assms(1) show ?thesis
  proof cases
    case (wl_start ks k ls)
    with sv_start [of "wh_db w" "unat (cn_sid k)" env cfg api dbs workers] conn st show ?thesis
      by (simp add: whole_turn_def)
  next
    case (wl_conn ks k ls c io p)
    with sv_conn [of "wh_db w" "unat (cn_sid k)" c env cfg io p api dbs workers] conn st show ?thesis
      by (simp add: whole_turn_def)
  next
    case (wl_reply q1 k rp q2 ks ls c p)
    with sv_reply [OF wl_reply(2), of c env cfg p api dbs workers] conn st show ?thesis
      by (simp add: whole_turn_def)
  qed (auto intro: sv_take sv_finish sv_lost)
qed

lemma whole_step_linked:
  assumes "whole_step env cfg api dbs workers w w'" and "session_inv (wh_server w)" and "linked (wh_server w) (wh_db w)"
  shows "linked (wh_server w') (wh_db w')"
  using assms(1)
  by cases (use assms(2,3) in \<open>auto simp: whole_turn_def linked_frame linked_accept intro!: linked_turn dest!: query_task_posts\<close>)

lemma whole_unwrapped_server:
  assumes "whole_unwrapped env cfg api dbs workers w w'"
  shows "wh_server w' = wh_server w \<or> unwrapped_step env cfg (wh_server w) (wh_server w')"
  using assms whole_step_server [of env cfg api dbs workers w w'] by (auto simp: whole_unwrapped_def unwrapped_step_def)

interpretation whole_system: invariant_system whole_init "whole_unwrapped env cfg api dbs workers" whole_inv
  for env cfg api dbs workers
proof
  fix w assume "whole_init w"
  then show "whole_inv w"
    by (simp add: whole_init_def whole_inv_def server_init_def service_init_def session_inv_def linked_def)
next
  fix w w' assume inv: "whole_inv w" and step: "whole_unwrapped env cfg api dbs workers w w'"
  from whole_unwrapped_server [OF step] have "session_inv (wh_server w')" using inv sessions.inv_step by (auto simp: whole_inv_def)
  with inv step show "whole_inv w'" by (auto simp: whole_inv_def whole_unwrapped_def intro: whole_step_linked)
qed

lemma whole_reach:
  assumes "reach whole_init (whole_unwrapped env cfg api dbs workers) w"
  shows "reach server_init (unwrapped_step env cfg) (wh_server w)"
    and "reach service_init (service_step env cfg api dbs workers) (wh_db w)"
proof -
  have "reach server_init (unwrapped_step env cfg) (wh_server w) \<and>
      reach service_init (service_step env cfg api dbs workers) (wh_db w)"
    using assms
  proof induction
    case (reach_init w)
    then show ?case by (simp add: whole_init_def reach.reach_init)
  next
    case (reach_step w w')
    have l: "linked (wh_server w) (wh_db w)" using whole_system.reachable_inv [OF reach_step(1)] by (simp add: whole_inv_def)
    have s: "whole_step env cfg api dbs workers w w'" using reach_step(2) by (simp add: whole_unwrapped_def)
    have "reach server_init (unwrapped_step env cfg) (wh_server w')"
      using whole_unwrapped_server [OF reach_step(2)] reach_step.IH by (auto intro: reach.reach_step)
    moreover have "reach service_init (service_step env cfg api dbs workers) (wh_db w')"
      using whole_step_db [OF s l] reach_step.IH by (auto intro: reach.reach_step)
    ultimately show ?case by blast
  qed
  then show "reach server_init (unwrapped_step env cfg) (wh_server w)"
    "reach service_init (service_step env cfg api dbs workers) (wh_db w)" by simp_all
qed

text \<open>The steps of the database are steps of the whole.\<close>

lemma whole_db_step:
  assumes "whole_inv w" and "db_step env cfg api dbs workers (wh_db w) v"
  shows "\<exists>w'. whole_step env cfg api dbs workers w w' \<and> whole_inv w' \<and> wh_db w' = v"
proof -
  have s: "session_inv (wh_server w)" and l: "linked (wh_server w) (wh_db w)" using assms(1) by (simp_all add: whole_inv_def)
  have inv: "whole_inv w'" if "whole_step env cfg api dbs workers w w'" "session_inv (wh_server w')" for w'
    using whole_step_linked [OF that(1) s l] that(2) by (simp add: whole_inv_def)
  from assms(2) show ?thesis
  proof cases
    case (db_take q1 cid rq q2 tid)
    from wl_take [OF db_take(2-4), of env cfg api dbs] inv s show ?thesis by (fastforce simp: db_take(1))
  next
    case (db_finish r1 tid cid rq r2 fuel dw)
    from wl_finish [OF db_finish, of env cfg workers] inv s show ?thesis by fastforce
  next
    case (db_reply q1 cid rp q2 c p)
    then have "cid \<in> (\<lambda>k. unat (cn_sid k)) ` set (sr_conns (wh_server w))" using l by (auto simp: linked_def)
    then obtain k where "k \<in> set (sr_conns (wh_server w))" and cid: "cid = unat (cn_sid k)" by blast
    then obtain ks ls where ks: "sr_conns (wh_server w) = ks @ k # ls" by (meson split_list)
    then have k: "cn_run k = Some c" "se_stat (wh_db w) = sr_stat (wh_server w)"
      using l db_reply(3) cid by (simp_all add: linked_def)
    note st = wl_reply [OF db_reply(2) [unfolded cid] ks k(1) db_reply(4) [unfolded k(2)], of api dbs workers]
    have "session_inv (conn_task_step cfg ks k ls p (wh_server w))" by (rule session_inv_task [OF s ks])
    with inv [OF st] st show ?thesis by (fastforce simp: whole_turn_def db_reply(1) cid)
  qed
qed

lemma whole_db_steps:
  assumes "(db_step env cfg api dbs workers)\<^sup>*\<^sup>* v v'" and "whole_inv w" and "wh_db w = v"
  shows "\<exists>w'. (whole_step env cfg api dbs workers)\<^sup>*\<^sup>* w w' \<and> wh_db w' = v'"
  using assms
proof (induction arbitrary: w rule: converse_rtranclp_induct)
  case (step v u)
  from whole_db_step [OF step.prems(1) step.hyps(1) [folded step.prems(2)]] obtain w1
    where w1: "whole_step env cfg api dbs workers w w1" "whole_inv w1" "wh_db w1 = u" by blast
  with step.IH [OF w1(2,3)] show ?case by (blast intro: converse_rtranclp_into_rtranclp)
qed blast

text \<open>A server with one connection, for the witnesses.\<close>

definition demo_whole :: whole where
  "demo_whole = \<lparr>wh_server = demo_accept demo_idle, wh_db = demo_quiet\<rparr>"

lemma demo_whole_reach: "reach whole_init (whole_unwrapped demo_db_env demo_sv scripted dbs n) demo_whole"
proof -
  let ?R = "reach whole_init (whole_unwrapped demo_db_env demo_sv scripted dbs n)"
  let ?w = "\<lparr>wh_server = demo_idle, wh_db = demo_quiet\<rparr>" and ?w1 = "\<lparr>wh_server = conn_limit demo_sv demo_idle, wh_db = demo_quiet\<rparr>"
  have "?R ?w" by (rule reach_init) (simp add: whole_init_def server_init_def service_init_def demo_idle_def demo_quiet_def)
  moreover have "whole_unwrapped demo_db_env demo_sv scripted dbs n ?w ?w1"
    using wl_limit [of ?w demo_db_env demo_sv scripted dbs n] by (simp add: whole_unwrapped_def demo_idle_def)
  ultimately have "?R ?w1" by (rule reach_step)
  moreover have "whole_unwrapped demo_db_env demo_sv scripted dbs n ?w1 demo_whole"
    using wl_accept [of ?w1 demo_db_env demo_sv scripted dbs n Accepted]
    by (simp add: whole_unwrapped_def demo_whole_def demo_accept_def conn_limit_def at_limit_def demo_idle_def demo_sv_def)
  ultimately show ?thesis by (rule reach_step)
qed

section \<open>Properties\<close>



text \<open>
  C13: the load of the database is bounded by the limit of connections. However many requests
  the clients send, the tasks in the queue of the pool, the queries being run and the
  responses under way are together never more than the open connections, and never more than
  \<open>max_connections\<close> where that is set.
\<close>

theorem database_load_bounded:
  assumes "reach whole_init (whole_unwrapped env cfg api dbs workers) w" and "server_cfg_ok cfg"
    and "workers \<le> length dbs"
    and "load = length (se_tasks (wh_db w)) + length (se_running (wh_db w)) + length (se_replies (wh_db w))"
  shows "load \<le> length (sr_conns (wh_server w)) \<and>
    (\<forall>m. sv_max_connections cfg = Some m \<longrightarrow> load \<le> unat m)"
proof -
  let ?s = "wh_server w" and ?v = "wh_db w"
  have l: "linked ?s ?v" using whole_system.reachable_inv [OF assms(1)] by (simp add: whole_inv_def)
  have v: "service_inv workers ?v"
    using database_service.reachable_inv [OF whole_reach(2) [OF assms(1)]] assms(3) by blast
  then have "length (in_flight ?v) = card (waiting ?v)" by (metis distinct_card service_inv_def)
  also have "\<dots> \<le> card ((\<lambda>k. unat (cn_sid k)) ` set (sr_conns ?s))"
    using l by (intro card_mono) (auto simp: linked_def waiting_def)
  also have "\<dots> \<le> length (sr_conns ?s)" by (rule order.trans [OF card_image_le card_length]) simp
  finally have a: "load \<le> length (sr_conns ?s)" by (simp add: assms(4) in_flight_def)
  have "server_inv cfg ?s"
    using accepting.reachable_inv [OF unwrapped_reach [OF whole_reach(1) [OF assms(1)]]] assms(2) by blast
  then have "below_limit cfg (counted ?s + (if sr_acc ?s = Acc_accept then 1 else 0))" by (simp only: server_inv_def)
  then have "below_limit cfg (counted ?s)" by (rule below_limit_mono) simp
  with a show ?thesis by (auto simp: below_limit_def counted_def)
qed

theorem database_load_bounded_witness:
  "length (se_tasks (wh_db demo_whole)) + length (se_running (wh_db demo_whole)) + length (se_replies (wh_db demo_whole)) \<le> 2 \<and>
   length (sr_conns (wh_server demo_whole)) = 1"
proof -
  have "sv_max_connections demo_sv = Some 2" by (simp add: demo_sv_def)
  with database_load_bounded [OF demo_whole_reach [of demo_dbs 1] demo_server_cfg_ok _ refl] show ?thesis
    by (simp add: demo_whole_def demo_server_simps)
qed



end
