(* ===== verification/Http_Log.thy ===== *)
theory Http_Log
  imports Http_Server Logging Scope_Guard
begin

text \<open>
  What the HTTP server logs about connections, and the end of a connection as a whole: the
  scope guard of \<open>handle_connection\<close> calls \<open>active_connection_end\<close>, which updates the
  counter, wakes the acceptor and writes a message. Limits are inserted as variants, with
  the overload of \<open>operator<<\<close> that does not catch exceptions of the stream.
\<close>

section \<open>Messages\<close>

text \<open>\<open>std::variant<std::string_view, T>\<close>, and how it is printed.\<close>

definition log_limit :: "u32 option \<Rightarrow> string + u32" where
  "log_limit limit = (case limit of Some n \<Rightarrow> Inr n | None \<Rightarrow> Inl ''unlimited'')"

fun variant_text :: "string + u32 \<Rightarrow> string" where
  "variant_text (Inl s) = s"
| "variant_text (Inr n) = dec (unat n)"

datatype operand = Op_text string | Op_variant "string + u32"

text \<open>A chain of insertions; the flag is false when an exception leaves the chain.\<close>

fun log_chain :: "log_env \<Rightarrow> log_msg \<times> string \<Rightarrow> operand list \<Rightarrow> bool \<times> log_msg \<times> string" where
  "log_chain env mc [] = (True, mc)"
| "log_chain env mc (Op_text v # ops) = log_chain env (log_put env mc v) ops"
| "log_chain env mc (Op_variant v # ops) =
     (case log_put_variant env mc (variant_text v) of
        None \<Rightarrow> (False, mc)
      | Some mc \<Rightarrow> log_chain env mc ops)"

text \<open>A message about a new connection, and the operands of the message about its end.\<close>

definition accepted_ops :: "server_cfg \<Rightarrow> string \<Rightarrow> u64 \<Rightarrow> nat \<Rightarrow> operand list" where
  "accepted_ops cfg client ac worker_i =
     [Op_text ''Accepted connection client='', Op_text client, Op_text '' active='', Op_text (dec (unat ac)),
      Op_text '' maximum='', Op_variant (log_limit (sv_max_connections cfg)), Op_text '' pool='',
      Op_text (dec (worker_i + 1)), Op_text ''/'', Op_text (dec (sv_use_workers cfg))]"

definition finished_ops :: "server_cfg \<Rightarrow> string \<Rightarrow> u64 \<Rightarrow> u64 \<Rightarrow> operand list" where
  "finished_ops cfg client ac requests =
     [Op_text ''Finished handling connection client='', Op_text client, Op_text '' active_connections='',
      Op_text (dec (unat ac)), Op_text ''/'', Op_variant (log_limit (sv_max_connections cfg)),
      Op_text '' requests='', Op_text (dec (unat requests))]"

text \<open>A whole statement with such operands; an exception destroys the message on its way.\<close>

definition log_ops_statement :: "log_env \<Rightarrow> logger \<Rightarrow> log_level \<Rightarrow> session \<Rightarrow> operand list \<Rightarrow> string \<Rightarrow>
    unit outcome \<times> string" where
  "log_ops_statement env lg level ses ops cerr =
     (case log_msg_ctor env lg level ses cerr of
        None \<Rightarrow> (Abort, cerr)
      | Some mc \<Rightarrow>
         (case log_chain env mc ops of
            (ok, mc) \<Rightarrow> (if ok then Ok () else Throw (Other_exn ''ostream''), log_msg_dtor env mc)))"

text \<open>
  The message at the end of a connection is moved into a local variable, to which stage and
  error are added when there is an error. \<open>msg ec\<close> is the text of an error code.
\<close>

definition log_finished :: "log_env \<Rightarrow> logger \<Rightarrow> (error_code \<Rightarrow> string) \<Rightarrow> server_cfg \<Rightarrow> string \<Rightarrow> u64 \<Rightarrow> u64 \<Rightarrow>
    u64 \<Rightarrow> error_code \<Rightarrow> string \<Rightarrow> string \<Rightarrow> unit outcome \<times> string" where
  "log_finished env lg msg cfg client sid ac requests ec stage cerr =
     (case log_msg_ctor env lg (if ec \<noteq> Ec_none then ll_err else ll_info) (Some sid, None) cerr of
        None \<Rightarrow> (Abort, cerr)
      | Some mc \<Rightarrow>
         (case log_chain env mc (finished_ops cfg client ac requests) of
            (False, mc) \<Rightarrow> (Throw (Other_exn ''ostream''), log_msg_dtor env mc)
          | (True, mc) \<Rightarrow>
             (let (m, old) = log_msg_move (fst mc);
                  cerr = log_msg_dtor env (old, snd mc);
                  mc = (m, cerr);
                  mc = (if ec \<noteq> Ec_none then foldl (log_put env) mc ['' stage='', stage, '' error='', msg ec] else mc)
              in (Ok (), log_msg_dtor env mc))))"

section \<open>The end of a connection\<close>

text \<open>\<open>active_connection_end\<close> with its message, on the server and standard error.\<close>

definition connection_finished :: "log_env \<Rightarrow> logger \<Rightarrow> (error_code \<Rightarrow> string) \<Rightarrow> server_cfg \<Rightarrow> string \<Rightarrow> u64 \<Rightarrow>
    u64 \<Rightarrow> error_code \<Rightarrow> string \<Rightarrow> server \<times> string \<Rightarrow> unit outcome \<times> server \<times> string" where
  "connection_finished env lg msg cfg client sid requests ec stage st =
     (let s = active_connection_end cfg (fst st)
      in case log_finished env lg msg cfg client sid (sr_active s) requests ec stage (snd st) of
           (r, cerr) \<Rightarrow> (r, s, cerr))"

text \<open>The coroutine as the scope of the guard \<open>at_end\<close>.\<close>

definition handle_connection_scope :: "log_env \<Rightarrow> logger \<Rightarrow> (error_code \<Rightarrow> string) \<Rightarrow> server_cfg \<Rightarrow> string \<Rightarrow> u64 \<Rightarrow>
    u64 \<Rightarrow> error_code \<Rightarrow> string \<Rightarrow> unit outcome \<Rightarrow> server \<times> string \<Rightarrow> unit outcome \<times> server \<times> string" where
  "handle_connection_scope env lg msg cfg client sid requests ec stage r =
     guarded (connection_finished env lg msg cfg client sid requests ec stage) (\<lambda>st. (r, st))"

text \<open>The completion handler of a coroutine hands its exception to the thread.\<close>

definition co_spawn_handler :: "exn option \<Rightarrow> unit outcome" where
  "co_spawn_handler e = (case e of Some x \<Rightarrow> Throw x | None \<Rightarrow> Ok ())"

section \<open>Lemmas\<close>

fun op_text :: "operand \<Rightarrow> string" where
  "op_text (Op_text v) = v"
| "op_text (Op_variant v) = variant_text v"

lemma log_chain_quiet:
  assumes "quiet_env env" and "lm_os m = Some os"
  shows "log_chain env (m, cerr) ops =
    (True, m\<lparr>lm_os := Some (os\<lparr>os_buf := os_buf os @ concat (map op_text ops)\<rparr>)\<rparr>, cerr)"
  using assms(2)
proof (induction ops arbitrary: m os)
  case (Cons a ops)
  with assms(1) show ?case
    by (cases a) (simp_all add: log_put_quiet log_put_variant_def quiet_env_def)
qed simp

lemma log_chain_none: "lm_os m = None \<Longrightarrow> log_chain env (m, cerr) ops = (True, m, cerr)"
proof (induction ops)
  case (Cons a ops)
  then show ?case by (cases a) (simp_all add: log_put_none log_put_variant_def)
qed simp

lemma log_msg_ctor_quiet:
  assumes "quiet_env env" and "ll_off < level" and "level \<le> lg_level lg" and "time_stamp env = Some ts"
  shows "log_msg_ctor env lg level ses cerr =
    Some (\<lparr>lm_level = level, lm_os = Some \<lparr>os_buf = concat (prefix_parts env level ses ts), os_wrapped = True\<rparr>,
      lm_session = ses\<rparr>, cerr)"
  using assms by (simp add: log_msg_ctor_def foldl_log_put_quiet)

lemma log_finished_quiet:
  assumes "quiet_env env" and "time_stamp env = Some ts"
    and "level = (if ec \<noteq> Ec_none then ll_err else ll_info)" and "level \<le> lg_level lg"
  shows "log_finished env lg msg cfg client sid ac requests ec stage cerr =
    (Ok (), cerr @ concat (prefix_parts env level (Some sid, None) ts) @
       concat (map op_text (finished_ops cfg client ac requests)) @
       (if ec \<noteq> Ec_none then '' stage='' @ stage @ '' error='' @ msg ec else []) @ [CHR 0x0A])"
proof -
  have l: "ll_off < level" by (simp add: assms(3) ll_defs)
  have put: "le_put env b v = Some (b @ v)" for b v using assms(1) by (simp add: quiet_env_def)
  show ?thesis
    unfolding log_finished_def assms(3) [symmetric] log_msg_ctor_quiet [OF assms(1) l assms(4,2)]
    by (auto simp: log_chain_quiet [OF assms(1)] log_msg_move_def Let_def log_msg_dtor_def os_emit_def
        log_put_quiet [OF assms(1)] put)
qed

lemma guarded_return: "r \<noteq> Abort \<Longrightarrow> f st = (Ok (), st') \<Longrightarrow> guarded f (\<lambda>st. (r, st)) st = (r, st')"
  by (cases r) (simp_all add: guarded_def finally_ctor_def finally_dtor_def)

text \<open>A stream that refuses one word, as a full buffer might.\<close>

definition refusing :: "string \<Rightarrow> string \<Rightarrow> string \<Rightarrow> string option" where
  "refusing word b v = (if v = word then None else Some (b @ v))"

lemma log_put_refusing:
  "le_put env = refusing word \<Longrightarrow> v \<noteq> word \<Longrightarrow> lm_os m = Some os \<Longrightarrow>
    log_put env (m, cerr) v = (m\<lparr>lm_os := Some (os\<lparr>os_buf := os_buf os @ v\<rparr>)\<rparr>, cerr)"
  by (simp add: log_put_def refusing_def)

lemma foldl_log_put_refusing:
  assumes "le_put env = refusing word" and "word \<notin> set ps" and "lm_os m = Some os"
  shows "foldl (log_put env) (m, cerr) ps = (m\<lparr>lm_os := Some (os\<lparr>os_buf := os_buf os @ concat ps\<rparr>)\<rparr>, cerr)"
  using assms(2,3)
proof (induction ps arbitrary: m os)
  case (Cons p ps)
  then have "p \<noteq> word" by auto
  with Cons show ?case by (simp add: log_put_refusing [OF assms(1)])
qed simp

lemma dec_not_unlimited: "''unlimited'' \<noteq> dec n"
proof
  assume "''unlimited'' = dec n"
  then have "list_all is_digit ''unlimited''" by (metis dec_digits)
  then show False by (simp add: is_digit_def)
qed

lemma session_text_words: "v \<in> set (session_text ses) \<Longrightarrow> v = ''.'' \<or> (\<exists>n. v = dec n)"
  by (auto simp: session_text_def split: option.splits)

lemma to_string_short: "''unlimited'' \<noteq> to_string l"
  by (simp add: to_string_def)

definition demo_log_env :: "(string \<Rightarrow> string \<Rightarrow> string option) \<Rightarrow> log_env" where
  "demo_log_env put = \<lparr>le_now = 1000007, le_strftime = (\<lambda>_. ''2024-01-02 03:04:05.000000+0000''), le_pid = 12,
     le_tid = ''7f'', le_put = put\<rparr>"

lemma demo_log_time: "time_stamp (demo_log_env put) = Some ''2024-01-02 03:04:05.000007+0000''"
proof -
  have "dec 7 = ''7''" by code_simp
  then show ?thesis
    by (simp add: time_stamp_def demo_log_env_def signed_modulo_int_def signed_divide_int_def dec_int_def
        overwrite_def time_end_def c_str_def replicate_eqI numeral_eq_Suc)
qed

section \<open>Properties\<close>



text \<open>
  The message at the end of a connection can end the process. Exceptions of the stream are
  caught for ordinary operands, but not for the limit, which is inserted as a variant; there
  the exception leaves \<open>active_connection_end\<close> and meets the destructor of the scope guard.
\<close>

lemma end_message_terminates:
  assumes "le_put env = refusing ''unlimited''" and "sv_max_connections cfg = None"
    and "time_stamp env = Some ts" and "ll_info \<le> lg_level lg"
    and "''unlimited'' \<notin> {ts, le_tid env, client}" and "r \<noteq> Abort"
  shows "\<exists>cerr'. handle_connection_scope env lg msg cfg client sid requests Ec_none stage r (s, cerr) =
    (Abort, active_connection_end cfg s, cerr')"
proof -
  let ?ses = "(Some sid, None) :: u64 option \<times> u64 option"
  have "''unlimited'' \<notin> set (prefix_parts env ll_info ?ses ts)"
    using assms(5) session_text_words [of "''unlimited''" ?ses]
    by (simp add: prefix_parts_def to_string_short dec_not_unlimited) blast
  from foldl_log_put_refusing [OF assms(1) this] assms(3,4)
  have c: "log_msg_ctor env lg ll_info ?ses cerr = Some (\<lparr>lm_level = ll_info,
      lm_os = Some \<lparr>os_buf = concat (prefix_parts env ll_info ?ses ts), os_wrapped = True\<rparr>, lm_session = ?ses\<rparr>, cerr)"
    by (simp add: log_msg_ctor_def ll_defs)
  have cl: "client \<noteq> ''unlimited''" using assms(5) by auto
  have "fst (log_finished env lg msg cfg client sid ac requests Ec_none stage cerr) = Throw (Other_exn ''ostream'')" for ac
    using assms(2) cl dec_not_unlimited [of "unat ac", symmetric]
    by (simp add: log_finished_def c finished_ops_def log_put_refusing [OF assms(1)] log_put_variant_def assms(1)
        refusing_def log_limit_def)
  then have "fst (connection_finished env lg msg cfg client sid requests Ec_none stage (s, cerr)) = Throw (Other_exn ''ostream'')"
    "fst (snd (connection_finished env lg msg cfg client sid requests Ec_none stage (s, cerr))) = active_connection_end cfg s"
    by (simp_all add: connection_finished_def Let_def split: prod.split)
      (metis fst_conv)
  then show ?thesis
    unfolding handle_connection_scope_def
    by (subst guard_throws [of "\<lambda>st. (r, st)" "(s, cerr)", OF refl assms(6)]) (auto, metis prod.collapse)
qed

theorem end_message_terminates_witness:
  "\<exists>cerr'. handle_connection_scope (demo_log_env (refusing ''unlimited'')) gl_logger (\<lambda>_. []) (demo_sv\<lparr>sv_max_connections := None\<rparr>)
      ''[::1]:5'' 0 2 Ec_none [] (Ok ()) (demo_full, []) =
    (Abort, active_connection_end (demo_sv\<lparr>sv_max_connections := None\<rparr>) demo_full, cerr')"
  by (rule end_message_terminates [OF _ _ demo_log_time])
    (simp_all add: demo_log_env_def gl_logger_def ll_defs)

end
