(* ===== verification/Http_Access.thy ===== *)
theory Http_Access
  imports Http_Log
begin

text \<open>
  What the coroutine of a connection logs on its way (\<^verbatim>\<open>src/http_server.cpp\<close>,
  \<open>handle_connection\<close>): the requests it waits for, the headers and body it received, one
  access line per answered request, and a failure to send status 413. The messages are added
  to the steps of \<open>Http_Connection\<close>, which they do not change.
\<close>

section \<open>Messages\<close>

text \<open>
  \<open>method_string\<close> and \<open>payload_size\<close> of Beast: the name of the verb as it was received, and
  the size of a string body.
\<close>

type_synonym message = "log_level \<times> session \<times> operand list"

fun method_string :: "verb \<Rightarrow> string" where
  "method_string V_head = ''HEAD''"
| "method_string (V_other s) = s"

record access_env =
  ac_client :: string
  ac_sid :: u64
  ac_version :: "http_request \<Rightarrow> nat"
  ac_message :: "error_code \<Rightarrow> string"

definition waiting_message :: "access_env \<Rightarrow> server_cfg \<Rightarrow> u64 \<Rightarrow> message" where
  "waiting_message ae cfg req_n =
     (ll_debug, (Some (ac_sid ae), Some (req_n + 1)),
      [Op_text ''Waiting for request '', Op_text (dec (unat (req_n + 1))), Op_text ''/'',
       Op_variant (log_limit (sv_keepalive_requests cfg))])"

definition headers_message :: "access_env \<Rightarrow> u64 \<Rightarrow> http_request \<Rightarrow> message" where
  "headers_message ae req_n request =
     (ll_debug, (Some (ac_sid ae), Some req_n),
      [Op_text ''Request headers'', Op_text '' method='', Op_text (method_string (req_method request)),
       Op_text '' uri='', Op_text (req_target request),
       Op_text '' version='', Op_text (dec (ac_version ae request div 10)), Op_text ''.'',
       Op_text (dec (ac_version ae request mod 10))])"

definition body_message :: "access_env \<Rightarrow> u64 \<Rightarrow> http_request \<Rightarrow> message" where
  "body_message ae req_n request =
     (ll_debug, (Some (ac_sid ae), Some req_n),
      [Op_text ''Request body content_length='', Op_text (dec (length (req_body request)))])"

definition access_message :: "access_env \<Rightarrow> server_cfg \<Rightarrow> u64 \<Rightarrow> http_request \<Rightarrow> http_response \<Rightarrow> message" where
  "access_message ae cfg req_n request response =
     (ll_info, (Some (ac_sid ae), Some req_n),
      [Op_text ''Request finished '', Op_text (dec (unat req_n)), Op_text ''/'',
       Op_variant (log_limit (sv_keepalive_requests cfg)),
       Op_text '' client='', Op_text (ac_client ae),
       Op_text '' method='', Op_text (method_string (req_method request)),
       Op_text '' uri='', Op_text (req_target request),
       Op_text '' status='', Op_text (dec (res_status response)),
       Op_text '' request_body='', Op_text (dec (length (req_body request))),
       Op_text '' response_body='', Op_text (dec (length (res_body response)))])"

definition send_failed_message :: "access_env \<Rightarrow> error_code \<Rightarrow> message" where
  "send_failed_message ae ec =
     (ll_err, (Some (ac_sid ae), None), [Op_text ''Failed sending error message: '', Op_text (ac_message ae ec)])"

section \<open>The coroutine with its messages\<close>

text \<open>The response that is being written, once the effects have happened.\<close>

definition written :: "http_response \<Rightarrow> effect list \<Rightarrow> http_response" where
  "written response es = last (response # responses es)"

text \<open>The body is complete when the step goes on to a handler or its response.\<close>

definition body_done_messages :: "access_env \<Rightarrow> conn \<Rightarrow> message list" where
  "body_done_messages ae c =
     (case co_pc c of
        Pc_db r \<Rightarrow> [body_message ae (co_req_n c) (co_request c)]
      | Pc_write k \<Rightarrow> [body_message ae (co_req_n c) (co_request c)]
      | _ \<Rightarrow> [])"

text \<open>The messages of a step from \<open>c\<close> to \<open>c'\<close>, in order.\<close>

definition step_messages :: "access_env \<Rightarrow> server_cfg \<Rightarrow> conn \<Rightarrow> http_response \<Rightarrow> completion \<Rightarrow> conn \<Rightarrow> message list" where
  "step_messages ae cfg c response io c' =
     (case (co_pc c, io) of
        (Pc_header, Io_header ec request fin) \<Rightarrow>
          if ec \<noteq> Ec_none then []
          else headers_message ae (co_req_n c') (co_request c') # body_done_messages ae c'
      | (Pc_continue, Io_continue ec) \<Rightarrow> if ec \<noteq> Ec_none then [] else body_done_messages ae c'
      | (Pc_body, Io_body ec request fin) \<Rightarrow> if ec \<noteq> Ec_none then [] else body_done_messages ae c'
      | (Pc_write keepalive, Io_write ec) \<Rightarrow>
          if ec \<noteq> Ec_none then []
          else access_message ae cfg (co_req_n c) (co_request c) response #
            (if keepalive then [waiting_message ae cfg (co_req_n c)] else [])
      | (Pc_error, Io_error_write ece) \<Rightarrow> if ece \<noteq> Ec_none then [send_failed_message ae (co_ec c)] else []
      | _ \<Rightarrow> [])"

definition start_messages :: "access_env \<Rightarrow> server_cfg \<Rightarrow> message list" where
  "start_messages ae cfg =
     [(ll_debug, (Some (ac_sid ae), None), [Op_text ''Waiting for data from client'']), waiting_message ae cfg 0]"

text \<open>A run with its messages.\<close>

type_synonym logged = "point \<times> http_response \<times> message list"

definition logged_start :: "access_env \<Rightarrow> server_cfg \<Rightarrow> stat_data \<Rightarrow> logged" where
  "logged_start ae cfg d = (conn_start cfg d, mk_response status_ok 11, start_messages ae cfg)"

fun logged_run :: "http_env \<Rightarrow> server_cfg \<Rightarrow> access_env \<Rightarrow> logged \<Rightarrow> completion list \<Rightarrow> logged option" where
  "logged_run env cfg ae l [] = Some l"
| "logged_run env cfg ae ((c, d, xs), response, ms) (io # ios) =
     (case conn_step env cfg c d io of
        None \<Rightarrow> None
      | Some (c', d', ys) \<Rightarrow>
          logged_run env cfg ae
            ((c', d', xs @ ys), written response ys, ms @ step_messages ae cfg c response io c') ios)"

section \<open>Lemmas\<close>

text \<open>The messages do not change the run.\<close>

lemma logged_run_conn: "map_option fst (logged_run env cfg ae (p, response, ms) ios) = conn_run env cfg p ios"
proof (induction ios arbitrary: p response ms)
  case (Cons io ios)
  then show ?case by (cases p) (simp split: option.split)
qed simp

definition access_lines :: "message list \<Rightarrow> message list" where
  "access_lines ms = filter (\<lambda>m. fst m = ll_info) ms"

lemma access_lines_simps [simp]:
  "access_lines [] = []" "access_lines (ms @ ms') = access_lines ms @ access_lines ms'"
  "access_lines (access_message ae cfg n rq r # ms) = access_message ae cfg n rq r # access_lines ms"
  "access_lines (waiting_message ae cfg n # ms) = access_lines ms"
  "access_lines (headers_message ae n rq # ms) = access_lines ms"
  "access_lines (send_failed_message ae ec # ms) = access_lines ms"
  "access_lines (body_done_messages ae c) = []" "access_lines (start_messages ae cfg) = []"
  by (simp_all add: access_lines_def access_message_def waiting_message_def headers_message_def send_failed_message_def
      body_done_messages_def body_message_def start_messages_def ll_defs split: pc.split)

lemma step_access:
  "access_lines (step_messages ae cfg c r io c') =
     (if (\<exists>k. co_pc c = Pc_write k) \<and> io = Io_write Ec_none
      then [access_message ae cfg (co_req_n c) (co_request c) r] else [])"
  by (auto simp: step_messages_def split: pc.split completion.split)

text \<open>Where a step leads, and what it writes.\<close>

lemma phase_of_iff:
  "phase_of pc = Ph_sent k \<longleftrightarrow> pc = Pc_write k" "phase_of pc = Ph_header \<longleftrightarrow> pc = Pc_header"
  "phase_of pc = Ph_failed \<longleftrightarrow> pc = Pc_error" "phase_of pc = Ph_closed \<longleftrightarrow> pc = Pc_done"
  by (cases pc; simp)+

lemma protocol_writes:
  assumes "protocol cfg (ph, n) ys (ph', n')"
  shows "(\<exists>k r. ph' = Ph_sent k \<and> responses ys = [r] \<and> ph \<notin> {Ph_failed, Ph_closed} \<and> (\<forall>k. ph \<noteq> Ph_sent k)) \<or>
    (\<forall>k. ph' \<noteq> Ph_sent k) \<and> responses ys = [] \<and>
    ((\<exists>k. ph = Ph_sent k) \<longrightarrow> ph' \<in> {Ph_header, Ph_failed, Ph_closed}) \<and>
    (ph' = Ph_header \<longrightarrow> ph = Ph_sent True) \<and> (ph = Ph_failed \<longrightarrow> ph' = Ph_closed) \<and> ph \<noteq> Ph_closed"
  using assms by cases (auto simp: receiving_def)

lemma next_header_io:
  assumes "conn_step env cfg c d io = Some (c', d', ys)" and "co_pc c = Pc_write True" and "co_pc c' = Pc_header"
  shows "io = Io_write Ec_none"
  using assms
  by (auto simp: conn_step_def emit_def conn_end_def abort_connection_def Let_def split: completion.splits if_splits)

lemma final_write_io:
  assumes "conn_step env cfg c d (Io_write Ec_none) = Some (c', d', ys)" and "co_pc c = Pc_write k"
  shows "co_pc c' = (if k then Pc_header else Pc_done)"
  using assms by (auto simp: conn_step_def loop_head_def conn_end_def abort_connection_def Let_def)

text \<open>
  What the log knows at every point: the access lines so far are those of the first
  responses, in order, and only a response that is being written, or was the last before a
  failure, may still be missing.
\<close>

definition logged_inv :: "access_env \<Rightarrow> server_cfg \<Rightarrow> logged \<Rightarrow> bool" where
  "logged_inv ae cfg l \<longleftrightarrow>
     (case l of ((c, d, xs), response, ms) \<Rightarrow>
       let lines = access_lines ms; rs = responses xs
       in (case co_pc c of
             Pc_write k \<Rightarrow> length rs = Suc (length lines) \<and> last rs = response
           | Pc_error \<Rightarrow> length rs = length lines \<or> length rs = Suc (length lines)
           | Pc_done \<Rightarrow> length rs = length lines \<or> length rs = Suc (length lines)
           | _ \<Rightarrow> length rs = length lines) \<and>
          (\<forall>k < length lines. \<exists>request.
             lines ! k = access_message ae cfg (of_nat (k + 1)) request (rs ! k)))"

lemma logged_inv_step:
  assumes "conn_step env cfg c d io = Some (c', d', ys)" and "exchange_inv (abs_conn c, xs)"
    and "logged_inv ae cfg ((c, d, xs), response, ms)"
  shows "logged_inv ae cfg ((c', d', xs @ ys), written response ys, ms @ step_messages ae cfg c response io c')"
proof -
  let ?lines = "access_lines ms" and ?rs = "responses xs"
  note inv = assms(3) [unfolded logged_inv_def Let_def prod.case]
  have old: "\<forall>k < length ?lines. \<exists>request. ?lines ! k = access_message ae cfg (of_nat (k + 1)) request ((?rs @ zs) ! k)" for zs
    using inv by (auto simp: nth_append split: pc.splits)
  from conn_step_protocol [OF assms(1)]
  have pr: "protocol cfg (phase_of (co_pc c), co_req_n c) ys (phase_of (co_pc c'), co_req_n c')" by (simp add: abs_conn_def)
  show ?thesis
  proof (cases "(\<exists>k. co_pc c = Pc_write k) \<and> io = Io_write Ec_none")
    case True
    then obtain k where k: "co_pc c = Pc_write k" "io = Io_write Ec_none" by blast
    have ys: "responses ys = []" using protocol_writes [OF pr] k by auto
    have c': "co_pc c' = (if k then Pc_header else Pc_done)" using final_write_io assms(1) k by blast
    have l: "length ?rs = Suc (length ?lines)" "last ?rs = response" using inv k by simp_all
    then have "?rs ! length ?lines = response" by (metis diff_Suc_1 last_conv_nth length_greater_0_conv zero_less_Suc)
    moreover have "co_req_n c = of_nat (length ?lines + 1)" using assms(2) k l by (simp add: abs_conn_def Let_def)
    ultimately have new: "[access_message ae cfg (co_req_n c) (co_request c) response] ! 0 =
        access_message ae cfg (of_nat (length ?lines + 1)) (co_request c) (?rs ! length ?lines)" by simp
    have "\<forall>j < length ?lines + 1. \<exists>request. (?lines @ [access_message ae cfg (co_req_n c) (co_request c) response]) ! j =
        access_message ae cfg (of_nat (j + 1)) request (?rs ! j)"
      using old [of "[]"] new by (auto simp: nth_append less_Suc_eq)
    moreover have "access_lines (step_messages ae cfg c response io c') =
        [access_message ae cfg (co_req_n c) (co_request c) response]"
      by (rule trans [OF step_access if_P [OF True]])
    ultimately show ?thesis
      using l ys c' unfolding logged_inv_def Let_def prod.case by (cases k) simp_all
  next
    case False
    then have no: "access_lines (step_messages ae cfg c response io c') = []" by (simp add: step_access)
    have "co_pc c' = Pc_header \<Longrightarrow> False"
      using False protocol_writes [OF pr] next_header_io [OF assms(1)] by (auto simp: phase_of_iff)
    with protocol_writes [OF pr] inv old show ?thesis
      unfolding logged_inv_def Let_def prod.case
      by (auto simp: no written_def phase_of_iff split: pc.splits)
  qed
qed

lemma logged_run_inv:
  assumes "logged_run env cfg ae ((c, d, xs), response, ms) ios = Some ((c', d', ys), response', ms')"
    and "reach proto_init (proto_step cfg) (abs_conn c, xs)" and "logged_inv ae cfg ((c, d, xs), response, ms)"
  shows "logged_inv ae cfg ((c', d', ys), response', ms')"
  using assms
proof (induction ios arbitrary: c d xs response ms)
  case (Cons io ios)
  from Cons.prems(1) obtain c1 d1 zs where step: "conn_step env cfg c d io = Some (c1, d1, zs)"
    and rest: "logged_run env cfg ae ((c1, d1, xs @ zs), written response zs,
      ms @ step_messages ae cfg c response io c1) ios = Some ((c', d', ys), response', ms')"
    by (auto split: option.splits)
  have "proto_step cfg (abs_conn c, xs) (abs_conn c1, xs @ zs)"
    using conn_step_protocol [OF step] by (auto simp: proto_step_def)
  with Cons.prems(2) have "reach proto_init (proto_step cfg) (abs_conn c1, xs @ zs)" by (rule reach_step)
  moreover have "exchange_inv (abs_conn c, xs)" using Cons.prems(2) by (rule exchange.reachable_inv)
  ultimately show ?case using Cons.IH [OF rest] logged_inv_step [OF step _ Cons.prems(3)] by blast
qed simp

lemma logged_inv_start: "logged_inv ae cfg (logged_start ae cfg d)"
  by (simp add: logged_start_def logged_inv_def conn_start_def loop_head_def before_request_timeout_def)

section \<open>Properties\<close>



end
