(* ===== verification/Handler_Log.thy ===== *)
theory Handler_Log
  imports Http_Access
begin

text \<open>
  What the handlers log about a request (\<^verbatim>\<open>src/http_server.cpp\<close>, \<^verbatim>\<open>src/http_server_impl.hpp\<close>,
  \<^verbatim>\<open>src/http_hnd_stat.cpp\<close>, \<^verbatim>\<open>src/http_hnd_db.cpp\<close>): every error response at level debug, failures
  to parse, to print and of the database at level error, and a reset of the statistics. The
  functions follow the operations of \<open>Http_Handler\<close>.
\<close>

section \<open>Messages\<close>

definition error_response_message :: "session \<Rightarrow> nat \<Rightarrow> message" where
  "error_response_message ses status =
     (ll_debug, ses, [Op_text ''Returning error response status='', Op_text (dec status)])"

abbreviation failure_message :: "session \<Rightarrow> string \<Rightarrow> message" where
  "failure_message ses msg \<equiv> (ll_err, ses, [Op_text msg])"

definition parse_messages :: "beast \<Rightarrow> 'm decoder \<Rightarrow> http_request \<Rightarrow> session \<Rightarrow> message list" where
  "parse_messages bt de request ses =
     (if fst (json_body bt request True) then
        (case de_json de (req_body request) of
           Inl (code, text) \<Rightarrow>
             [failure_message ses (''Cannot parse JSON request: ('' @ dec_int code @ '') '' @ text),
              error_response_message ses status_bad_request]
         | Inr _ \<Rightarrow> [])
      else if fst (protobuf_body bt request True) then
        (case de_proto de (req_body request) of
           None \<Rightarrow> [failure_message ses ''Cannot parse protobuf request'', error_response_message ses status_bad_request]
         | Some _ \<Rightarrow> [])
      else [error_response_message ses status_unsupported_media_type])"

text \<open>A printer that fails gives the code and text of its status.\<close>

definition status_internal_server_error :: nat where "status_internal_server_error = 500"

definition serialize_messages :: "beast \<Rightarrow> 'm encoder \<Rightarrow> http_request \<Rightarrow> 'm \<Rightarrow> http_response \<Rightarrow> session \<Rightarrow> message list" where
  "serialize_messages bt en request data response ses =
     (if fst (json_body bt request False) then
        (case en_json en data (res_body response) of
           (_, Some (code, text)) \<Rightarrow>
             [failure_message ses (''Cannot serialize response to JSON: ('' @ dec_int code @ '') '' @ text),
              error_response_message ses status_internal_server_error]
         | (_, None) \<Rightarrow> [])
      else if fst (protobuf_body bt request False) then
        (case en_proto en data (res_body response) of
           (_, False) \<Rightarrow>
             [failure_message ses ''Cannot serialze response to protobuf'',
              error_response_message ses status_internal_server_error]
         | (_, True) \<Rightarrow> [])
      else [error_response_message ses status_not_acceptable])"

definition stat_messages :: "beast \<Rightarrow> bool decoder \<Rightarrow> stat_data encoder \<Rightarrow> http_request \<Rightarrow> stat_data \<Rightarrow> session \<Rightarrow> message list" where
  "stat_messages bt de en request data ses =
     parse_messages bt de request ses @
     (case parse bt de request of
        (None, _) \<Rightarrow> []
      | (Some reset, response) \<Rightarrow>
          (if reset then [(ll_notice, ses, [Op_text ''Reset statistics''])] else []) @
          serialize_messages bt en request data response ses)"

text \<open>The database handler reports a failed query without the session.\<close>

definition db_begin_messages :: "beast \<Rightarrow> DbRequest decoder \<Rightarrow> http_request \<Rightarrow> session \<Rightarrow> message list" where
  "db_begin_messages bt de request ses = parse_messages bt de request ses"

definition db_end_messages :: "beast \<Rightarrow> DbResponse encoder \<Rightarrow> http_request \<Rightarrow> http_response \<Rightarrow> DbResponse \<Rightarrow> session \<Rightarrow> message list" where
  "db_end_messages bt en request response out ses =
     (if rp_ok out then [] else [(ll_err, (None, None), [Op_text ''Database query failed: '', Op_text (rp_msg out)])]) @
     serialize_messages bt en request out response ses"

section \<open>Error responses and the log\<close>

text \<open>The statuses of the error responses built while a request is handled, in order.\<close>

definition announced :: "message list \<Rightarrow> nat list" where
  "announced ms = map (\<lambda>m. undec (op_text (snd (snd m) ! 1))) (filter (\<lambda>m. fst m = ll_debug) ms)"

lemma announced_simps [simp]:
  "announced [] = []" "announced (xs @ ys) = announced xs @ announced ys"
  "announced (error_response_message ses st # ms) = st # announced ms"
  "announced ((ll_err, ses, ops) # ms) = announced ms" "announced ((ll_notice, ses, ops) # ms) = announced ms"
  by (simp_all add: announced_def error_response_message_def ll_defs)

lemma parse_announced:
  "announced (parse_messages bt de request ses) =
    (if fst (parse bt de request) = None then [res_status (snd (parse bt de request))] else [])"
  by (auto simp: parse_messages_def parse_def error_response_def mk_response_def set_field_def split: sum.split option.split)

lemma parse_ok_status: "parse bt de request = (Some m, response) \<Longrightarrow> res_status response = status_ok"
  by (auto simp: parse_def base_handle_sync_def mk_response_def split: if_splits sum.splits option.splits)

text \<open>A failed printer announces status 500, but the response keeps the status it had.\<close>

lemma serialize_announced:
  "announced (serialize_messages bt en request data response ses) =
    (case serialize bt en request data response of
       (ok, r) \<Rightarrow> if ok then []
         else if fst (json_body bt request False) \<or> fst (protobuf_body bt request False)
           then [status_internal_server_error] else [res_status r])"
  by (auto simp: serialize_messages_def serialize_def error_response_def mk_response_def set_field_def
      split: prod.split option.split bool.split)

text \<open>
  Every error status of a handler is in the log: if the statistics or the database handler
  answers with a status other than 200, the log announces exactly that error response; and if
  it announces none, the status is 200.
\<close>

lemma serialize_status:
  "serialize bt en request data response = (ok, r) \<Longrightarrow>
    (if fst (json_body bt request False) \<or> fst (protobuf_body bt request False)
     then res_status r = res_status response else \<not> ok)"
  by (auto simp: serialize_def split: if_splits prod.splits option.splits bool.splits)

definition traced :: "nat \<Rightarrow> nat list \<Rightarrow> bool" where
  "traced status sts \<longleftrightarrow> (status \<noteq> status_ok \<longrightarrow> sts = [status]) \<and> (sts = [] \<longrightarrow> status = status_ok)"

lemma serialize_traced:
  assumes "parse bt de request = (Some m, response)" and "serialize bt en request data response = (ok, r)"
  shows "traced (res_status r) (announced (serialize_messages bt en request data response ses))"
  using serialize_status [OF assms(2)] parse_ok_status [OF assms(1)] serialize_announced [of bt en request data response ses] assms(2)
  by (auto simp: traced_def split: if_splits)

lemma stat_status_logged:
  assumes "stat_handle_sync bt de en request data = (response, data')"
  shows "traced (res_status response) (announced (stat_messages bt de en request data ses))"
proof -
  obtain m r where p: "parse bt de request = (m, r)" by fastforce
  have a: "announced (parse_messages bt de request ses) = (if m = None then [res_status r] else [])"
    by (simp add: parse_announced p)
  show ?thesis
  proof (cases m)
    case None
    with assms p a show ?thesis by (simp add: stat_handle_sync_def stat_messages_def traced_def)
  next
    case (Some reset)
    obtain ok u where z: "serialize bt en request data r = (ok, u)" by fastforce
    have "response = u" using assms p Some z by (simp add: stat_handle_sync_def Let_def)
    moreover have "announced (stat_messages bt de en request data ses) = announced (serialize_messages bt en request data r ses)"
      using a p Some by (simp add: stat_messages_def)
    ultimately show ?thesis using serialize_traced [OF p [unfolded Some] z] by simp
  qed
qed

lemma db_status_logged:
  assumes "ms = (case db_handle_begin bt de request of
      Inl _ \<Rightarrow> db_begin_messages bt de request ses
    | Inr (rq, response) \<Rightarrow> db_begin_messages bt de request ses @ db_end_messages bt en request response (answer rq) ses)"
  shows "traced (res_status (db_handle bt de en request answer)) (announced ms)"
proof -
  obtain m u where p: "parse bt de request = (m, u)" by fastforce
  have a: "announced (parse_messages bt de request ses) = (if m = None then [res_status u] else [])"
    by (simp add: parse_announced p)
  show ?thesis
  proof (cases m)
    case None
    with assms p a show ?thesis by (simp add: db_handle_def db_handle_begin_def db_begin_messages_def traced_def)
  next
    case (Some rq)
    obtain ok v where z: "serialize bt en request (answer rq) u = (ok, v)" by fastforce
    have "db_handle bt de en request answer = v" using p Some z by (simp add: db_handle_def db_handle_begin_def db_handle_end_def)
    moreover have "announced ms = announced (serialize_messages bt en request (answer rq) u ses)"
      using assms p Some a by (simp add: db_handle_begin_def db_begin_messages_def db_end_messages_def)
    ultimately show ?thesis using serialize_traced [OF p [unfolded Some] z] by simp
  qed
qed

end
