(* ===== verification/Bench_Records.thy ===== *)
theory Bench_Records
  imports Sqlite
begin

text \<open>
  The data of the benchmark program (\<^verbatim>\<open>benchmark/benchmark.cpp\<close>): how a key selects a
  partition and its hash, the records derived from a chain of SHA-256 values, the names of the
  files of a partition, and the file of keys, which \<open>create\<close> writes and \<open>requests\<close> maps. A
  byte is a \<open>char\<close>; the host is little-endian.
\<close>

section \<open>Constants\<close>

definition partitions_min :: u32 where "partitions_min = 1"
definition partitions_max :: u32 where "partitions_max = 256"
definition key_sz :: nat where "key_sz = 32"
definition value_sz_min :: u64 where "value_sz_min = 1"
definition request_queue_max :: u64 where "request_queue_max = 1000"
definition transaction_sz :: u32 where "transaction_sz = 100"

section \<open>Bytes of numbers\<close>

fun le_bytes :: "nat \<Rightarrow> nat \<Rightarrow> string" where
  "le_bytes 0 n = []"
| "le_bytes (Suc k) n = char_of (n mod 256) # le_bytes k (n div 256)"

fun le_nat :: "string \<Rightarrow> nat" where
  "le_nat [] = 0"
| "le_nat (c # cs) = of_char c + 256 * le_nat cs"

section \<open>Keys\<close>

definition partition_key :: "string \<Rightarrow> u32" where
  "partition_key key = (if key \<noteq> [] then of_char (key ! 0) else 0)"

definition hash_key :: "string \<Rightarrow> u32" where
  "hash_key key = (if 5 \<le> length key then of_nat (le_nat (take 4 (drop 1 key))) else 0)"

section \<open>Records\<close>

record db_record =
  dr_partition :: u32
  dr_hash :: u32
  dr_counter :: int
  dr_key :: string
  dr_value :: string

text \<open>\<open>std::string::resize\<close> cuts or fills with NUL.\<close>

definition resize :: "nat \<Rightarrow> string \<Rightarrow> string" where
  "resize n s = take n s @ replicate (n - length s) nul"

definition db_record_thread_init :: "u32 \<Rightarrow> u64 \<Rightarrow> db_record" where
  "db_record_thread_init pid tid =
     \<lparr>dr_partition = 0, dr_hash = 0, dr_counter = 0,
      dr_key = overwrite 4 (le_bytes 8 (unat tid))
        (overwrite 0 (le_bytes 4 (unat pid)) (resize key_sz [])),
      dr_value = []\<rparr>"

lemma length_overwrite_fill:
  assumes "i < length v div key_sz"
  shows "length (overwrite (i * key_sz) (take key_sz key) v) = length v"
proof -
  have "i * key_sz + key_sz \<le> length v"
    using assms by (metis Suc_leI add.commute div_times_less_eq_dividend le_trans mult_Suc mult_le_mono1)
  then show ?thesis by (intro length_overwrite) simp
qed

text \<open>The loop that fills the value with copies of the key, from copy \<open>i\<close> on.\<close>

function fill_value :: "string \<Rightarrow> nat \<Rightarrow> string \<Rightarrow> string" where
  "fill_value key i v =
     (if i < length v div key_sz then fill_value key (i + 1) (overwrite (i * key_sz) (take key_sz key) v)
      else v)"
  by pat_completeness auto

termination
  by (relation "measure (\<lambda>(key, i, v). length v div key_sz - i)") (auto simp: length_overwrite_fill)

declare fill_value.simps [simp del]

text \<open>\<open>sha\<close> is SHA-256 of the library: a digest of 32 bytes.\<close>

definition db_record_update :: "(string \<Rightarrow> string) \<Rightarrow> u64 \<Rightarrow> u64 \<Rightarrow> db_record \<Rightarrow> db_record" where
  "db_record_update sha partitions value_sz r =
     (let buf = sha (dr_key r);
          key = overwrite 0 (take key_sz buf) (resize key_sz (dr_key r))
      in r\<lparr>dr_key := key, dr_partition := ucast (ucast (partition_key key) mod partitions),
           dr_hash := hash_key key,
           dr_value := fill_value key 0 (resize (unat value_sz) (dr_value r))\<rparr>)"

section \<open>Files of a partition\<close>

definition path_idx :: "string \<Rightarrow> u32 \<Rightarrow> string" where
  "path_idx path idx = path @ pad_left 3 (CHR ''0'') (dec (unat idx))"

definition path_data_file :: "string \<Rightarrow> u32 \<Rightarrow> string" where
  "path_data_file path idx = path_idx path idx @ ''_data.sqlite''"

definition path_idx_file :: "string \<Rightarrow> u32 \<Rightarrow> string" where
  "path_idx_file path idx = path_idx path idx @ ''_idx.sqlite''"

definition path_keys_file :: "string \<Rightarrow> u32 \<Rightarrow> string" where
  "path_keys_file path idx = path_idx path idx @ ''_keys.bin''"

definition page_size :: "u64 \<Rightarrow> int" where
  "page_size value_sz =
     (let p = 4096;
          p = (if value_sz < 3900 then 2048 else p);
          p = (if value_sz < 1900 then 1024 else p)
      in if value_sz < 400 then 512 else p)"

section \<open>The file of keys\<close>

text \<open>What \<open>handle_create\<close> appends: the partition as one byte, the hash as four.\<close>

definition keys_entry :: "db_record \<Rightarrow> string" where
  "keys_entry rec = char_of (unat (ucast (dr_partition rec) :: u8)) # le_bytes 4 (unat (dr_hash rec))"

record known_key =
  kk_partition :: u32
  kk_hash :: u64

record known_key_generator =
  kg_data :: string
  kg_sz :: nat
  kg_added :: "known_key list"

text \<open>Mapping fails for a file that cannot be opened and for an empty one; \<open>None\<close> is that exception.\<close>

definition known_key_generator_ctor :: "string option \<Rightarrow> known_key_generator option" where
  "known_key_generator_ctor file =
     (case file of
        None \<Rightarrow> None
      | Some data \<Rightarrow>
          if data = [] then None else Some \<lparr>kg_data = data, kg_sz = length data div 5, kg_added = []\<rparr>)"

definition add_known_key :: "known_key \<Rightarrow> known_key_generator \<Rightarrow> known_key_generator" where
  "add_known_key k g = g\<lparr>kg_added := kg_added g @ [k]\<rparr>"

text \<open>\<open>rnd\<close> is the next random number; \<open>None\<close> is the division by zero.\<close>

definition get_key :: "u64 \<Rightarrow> known_key_generator \<Rightarrow> known_key option" where
  "get_key rnd g =
     (let n = kg_sz g + length (kg_added g); i = unat rnd mod n
      in if n = 0 then None
         else if kg_sz g \<le> i then Some (kg_added g ! (i - kg_sz g))
         else Some \<lparr>kk_partition = of_char (kg_data g ! (i * 5)),
                    kk_hash = of_nat (le_nat (take 4 (drop (i * 5 + 1) (kg_data g))))\<rparr>)"

section \<open>Lemmas\<close>

lemma length_le_bytes [simp]: "length (le_bytes k n) = k"
  by (induction k arbitrary: n) simp_all

lemma le_nat_bytes: "le_nat (le_bytes k n) = n mod 256 ^ k"
proof (induction k arbitrary: n)
  case (Suc k)
  have "n mod 256 + 256 * (n div 256 mod 256 ^ k) = n mod (256 * 256 ^ k)"
    by (simp add: mod_mult2_eq add.commute)
  with Suc show ?case by (simp add: of_char_of)
qed simp

lemma le_nat_less: "le_nat cs < 256 ^ length cs"
proof (induction cs)
  case (Cons c cs)
  define a x y where "a = (of_char c :: nat)" and "x = le_nat cs" and "y = (256 :: nat) ^ length cs"
  have "a < 256" unfolding a_def by (rule nat_of_char_less_256)
  moreover have "x < y" using Cons by (simp add: x_def y_def)
  ultimately have "a + 256 * x < 256 * y" by linarith
  then show ?case by (simp add: a_def x_def y_def)
qed simp

lemma length_resize [simp]: "length (resize n s) = n"
  by (simp add: resize_def)

lemma length_fill_value: "length (fill_value key i v) = length v"
proof (induction key i v rule: fill_value.induct)
  case (1 key i v)
  then show ?case by (subst fill_value.simps) (simp add: length_overwrite_fill)
qed

text \<open>One entry of the file as an encoding: what is written for a key is read back.\<close>

definition write_entry :: "known_key \<Rightarrow> string" where
  "write_entry k = char_of (unat (ucast (kk_partition k) :: u8)) # le_bytes 4 (unat (kk_hash k))"

definition read_entry :: "string \<Rightarrow> known_key option" where
  "read_entry s =
     (if length s = 5 then Some \<lparr>kk_partition = of_char (s ! 0), kk_hash = of_nat (le_nat (take 4 (drop 1 s)))\<rparr>
      else None)"

definition entry_fits :: "known_key \<Rightarrow> bool" where
  "entry_fits k \<longleftrightarrow> unat (kk_partition k) < 256 \<and> unat (kk_hash k) < 2 ^ 32"

lemma of_char_word: "(of_char c :: u32) = of_nat (of_char c)"
  by (metis of_nat_of_char)

lemma unat_of_char: "unat (of_char c :: u32) = of_char c"
proof -
  have "(of_char c :: nat) < 2 ^ 32" by (rule less_trans [of _ 256]) simp_all
  then show ?thesis unfolding of_char_word by (simp add: unsigned_of_nat take_bit_nat_eq_self_iff)
qed

lemma read_write_entry: "entry_fits k \<Longrightarrow> read_entry (write_entry k) = Some k"
proof -
  assume fits: "entry_fits k"
  have "unat (ucast (kk_partition k) :: u8) = unat (kk_partition k)"
    using fits by (simp add: entry_fits_def unsigned_ucast_eq take_bit_nat_eq_self_iff)
  then have "(of_char (char_of (unat (ucast (kk_partition k) :: u8))) :: u32) = kk_partition k"
    using fits unfolding of_char_word by (simp add: entry_fits_def of_char_of)
  moreover have "(of_nat (le_nat (le_bytes 4 (unat (kk_hash k)))) :: u64) = kk_hash k"
    using fits by (simp add: entry_fits_def le_nat_bytes)
  ultimately show ?thesis by (cases k) (simp add: read_entry_def write_entry_def)
qed

lemma read_entry_fits: "read_entry s = Some k \<Longrightarrow> entry_fits k"
proof -
  assume "read_entry s = Some k"
  then have l: "length s = 5" and k: "kk_partition k = of_char (s ! 0)"
    "kk_hash k = of_nat (le_nat (take 4 (drop 1 s)))"
    by (auto simp: read_entry_def split: if_splits)
  have "le_nat (take 4 (drop 1 s)) < 256 ^ length (take 4 (drop 1 s))" by (rule le_nat_less)
  then have "le_nat (take 4 (drop 1 s)) < 2 ^ 32" using l by simp
  with k show ?thesis by (simp add: entry_fits_def unat_of_char unat_of_nat_64)
qed

interpretation keys_codec: print_parse write_entry read_entry entry_fits
  by unfold_locales (auto intro: read_write_entry read_entry_fits)

lemma drop_concat_const:
  "\<forall>x \<in> set xs. length x = k \<Longrightarrow> i \<le> length xs \<Longrightarrow> drop (i * k) (concat xs) = concat (drop i xs)"
proof (induction xs arbitrary: i)
  case (Cons x xs)
  then show ?case by (cases i) simp_all
qed simp

lemma length_concat_const: "\<forall>x \<in> set xs. length x = k \<Longrightarrow> length (concat xs) = length xs * k"
  by (induction xs) simp_all

definition key_of :: "db_record \<Rightarrow> known_key" where
  "key_of rec = \<lparr>kk_partition = dr_partition rec, kk_hash = ucast (dr_hash rec)\<rparr>"

lemma keys_entry_write: "keys_entry rec = write_entry (key_of rec)"
  by (simp add: keys_entry_def write_entry_def key_of_def)

lemma key_of_fits: "unat (dr_partition rec) < 256 \<Longrightarrow> entry_fits (key_of rec)"
  using unsigned_less [of "dr_hash rec", where ?'a = nat]
  by (simp add: entry_fits_def key_of_def)

lemma get_key_entry:
  assumes "kg_added g = []" and "unat rnd mod kg_sz g = i" and "i < kg_sz g" and "i * 5 + 5 \<le> length (kg_data g)"
  shows "get_key rnd g = read_entry (take 5 (drop (i * 5) (kg_data g)))"
proof -
  have "take 4 (drop 1 (take 5 (drop (i * 5) (kg_data g)))) = take 4 (drop (i * 5 + 1) (kg_data g))"
    by (simp add: drop_take add.commute)
  with assms show ?thesis by (simp add: get_key_def read_entry_def Let_def)
qed

lemma fill_value_spec:
  assumes "length key = key_sz" and "take (i * key_sz) v = concat (replicate i key)" and "i \<le> length v div key_sz"
  shows "fill_value key i v =
    concat (replicate (length v div key_sz) key) @ drop (length v div key_sz * key_sz) v"
  using assms(2,3)
proof (induction "length v div key_sz - i" arbitrary: i v)
  case 0
  then have "i = length v div key_sz" by simp
  with 0 show ?case by (subst fill_value.simps) (metis append_take_drop_id less_irrefl)
next
  case (Suc k)
  then have i: "i < length v div key_sz" by simp
  let ?v = "overwrite (i * key_sz) (take key_sz key) v"
  have len: "length ?v = length v" using i by (rule length_overwrite_fill)
  have le: "Suc i * key_sz \<le> length v div key_sz * key_sz" "length v div key_sz * key_sz \<le> length v"
    using i by (intro mult_le_mono1, simp) simp
  have le2: "i * key_sz \<le> length v" using le unfolding mult_Suc by linarith
  have "take (Suc i * key_sz) ?v = concat (replicate i key) @ key"
    using assms(1) Suc.prems(1) le le2 length_concat_const [of "replicate i key" key_sz]
    by (simp add: overwrite_def add.commute)
  then have "take (Suc i * key_sz) ?v = concat (replicate (Suc i) key)"
    by (metis append_Nil2 concat.simps concat_append replicate_Suc replicate_append_same)
  moreover have "drop (length v div key_sz * key_sz) ?v = drop (length v div key_sz * key_sz) v"
    using assms(1) le le2 i by (simp add: overwrite_def)
  moreover have "fill_value key i v = fill_value key (Suc i) ?v" using i by (subst fill_value.simps) simp
  ultimately show ?case using Suc.hyps(1) [of ?v "Suc i"] Suc.hyps(2) i len by simp
qed

section \<open>Properties\<close>

text \<open>
  C39: the keys that \<open>create\<close> writes are the keys that \<open>requests\<close> reads. Mapping the file of
  any number of created records gives one known key per record, and the random number picks
  exactly the partition and the hash of a record.
\<close>

theorem keys_file_roundtrip:
  assumes "rs \<noteq> []" and "list_all (\<lambda>r. unat (dr_partition r) < 256) rs"
    and "known_key_generator_ctor (Some (concat (map keys_entry rs))) = Some g"
  shows "kg_sz g = length rs \<and>
    get_key rnd g = Some (let r = rs ! (unat rnd mod length rs)
      in \<lparr>kk_partition = dr_partition r, kk_hash = ucast (dr_hash r)\<rparr>)"
proof -
  let ?es = "map keys_entry rs" and ?i = "unat rnd mod length rs"
  have len: "\<forall>x \<in> set ?es. length x = 5" by (auto simp: keys_entry_def)
  then have lc: "length (concat ?es) = length rs * 5" using length_concat_const [of ?es 5] by simp
  with assms(3) have g: "kg_data g = concat ?es" "kg_sz g = length rs" "kg_added g = []"
    by (auto simp: known_key_generator_ctor_def split: if_splits)
  have i: "?i < length rs" using assms(1) by simp
  have "drop (?i * 5) (concat ?es) = concat (drop ?i ?es)" using len i by (intro drop_concat_const) simp_all
  also have "drop ?i ?es = keys_entry (rs ! ?i) # drop (Suc ?i) ?es" using i by (simp add: Cons_nth_drop_Suc [symmetric] drop_map)
  finally have "take 5 (drop (?i * 5) (kg_data g)) = write_entry (key_of (rs ! ?i))"
    using g len i by (simp add: keys_entry_write [symmetric])
  moreover have "entry_fits (key_of (rs ! ?i))" using assms(2) i by (intro key_of_fits) (simp add: list_all_iff)
  moreover have "get_key rnd g = read_entry (take 5 (drop (?i * 5) (kg_data g)))"
    using g i lc by (intro get_key_entry) simp_all
  ultimately show ?thesis using g(2) by (simp add: keys_codec.rd_pr key_of_def Let_def)
qed

theorem keys_file_roundtrip_witness:
  "\<exists>g. known_key_generator_ctor (Some (concat (map keys_entry
       [\<lparr>dr_partition = 3, dr_hash = 70000, dr_counter = 0, dr_key = [], dr_value = []\<rparr>,
        \<lparr>dr_partition = 255, dr_hash = 4000000000, dr_counter = 0, dr_key = [], dr_value = []\<rparr>]))) = Some g \<and>
     get_key 5 g = Some \<lparr>kk_partition = 255, kk_hash = 4000000000\<rparr>"
proof -
  let ?rs = "[\<lparr>dr_partition = 3, dr_hash = 70000, dr_counter = 0, dr_key = [], dr_value = []\<rparr>,
    \<lparr>dr_partition = 255, dr_hash = 4000000000, dr_counter = 0, dr_key = [], dr_value = []\<rparr>]"
  obtain g where g: "known_key_generator_ctor (Some (concat (map keys_entry ?rs))) = Some g"
    by (simp add: known_key_generator_ctor_def keys_entry_def)
  have "5 mod Suc (Suc 0) = (1 :: nat)" by presburger
  with keys_file_roundtrip [OF _ _ g, of 5] g show ?thesis by (auto simp: Let_def)
qed

text \<open>
  What a new record contains. Its key is the digest of the previous key, it belongs to
  one of the partitions, its hash is bytes 2 to 5 of the key, and its value has the requested
  size and consists of copies of the key as far as whole copies fit.
\<close>

lemma db_record_update_spec:
  assumes "length (sha (dr_key r)) = 32" and "partitions \<noteq> 0" and "r' = db_record_update sha partitions value_sz r"
  shows "dr_key r' = sha (dr_key r) \<and> unat (dr_partition r') = of_char (dr_key r' ! 0) mod unat partitions \<and>
    unat (dr_partition r') < unat partitions \<and>
    unat (dr_hash r') = le_nat (take 4 (drop 1 (dr_key r'))) \<and>
    length (dr_value r') = unat value_sz \<and>
    take (unat value_sz div 32 * 32) (dr_value r') = concat (replicate (unat value_sz div 32) (dr_key r'))"
proof -
  let ?k = "sha (dr_key r)" and ?n = "unat value_sz div 32"
  have key: "overwrite 0 (take key_sz ?k) (resize key_sz (dr_key r)) = ?k"
    using assms(1) by (simp add: overwrite_def key_sz_def)
  then have r': "dr_key r' = ?k" "dr_partition r' = ucast (ucast (partition_key ?k) mod partitions :: u64)"
    "dr_hash r' = hash_key ?k" "dr_value r' = fill_value ?k 0 (resize (unat value_sz) (dr_value r))"
    by (simp_all add: assms(3) db_record_update_def Let_def)
  have ne: "?k \<noteq> []" using assms(1) by auto
  have m: "(of_char (?k ! 0) :: nat) mod unat partitions < 256"
    by (rule le_less_trans [OF mod_less_eq_dividend]) simp
  have "unat (ucast (partition_key ?k) mod partitions :: u64) = of_char (?k ! 0) mod unat partitions"
    using ne by (simp add: unat_mod_distrib partition_key_def unat_of_char)
  with m have p: "unat (dr_partition r') = of_char (?k ! 0) mod unat partitions"
    by (simp add: r'(2) unsigned_ucast_eq take_bit_nat_eq_self_iff)
  have "le_nat (take 4 (drop 1 ?k)) < 256 ^ length (take 4 (drop 1 ?k))" by (rule le_nat_less)
  then have "le_nat (take 4 (drop 1 ?k)) < 2 ^ 32" using assms(1) by simp
  then have h: "unat (dr_hash r') = le_nat (take 4 (drop 1 ?k))"
    using assms(1) by (simp add: r'(3) hash_key_def unsigned_of_nat take_bit_nat_eq_self_iff)
  have v: "dr_value r' = concat (replicate ?n ?k) @ drop (?n * 32) (resize (unat value_sz) (dr_value r))"
    using fill_value_spec [of ?k 0 "resize (unat value_sz) (dr_value r)"] assms(1)
    by (simp add: r'(4) key_sz_def)
  have "length (concat (replicate ?n ?k)) = ?n * 32" using length_concat_const [of "replicate ?n ?k" 32] assms(1) by simp
  with v have "take (?n * 32) (dr_value r') = concat (replicate ?n ?k)" by simp
  moreover have "length (dr_value r') = unat value_sz" by (simp add: r'(4) length_fill_value)
  moreover have "0 < unat partitions" using assms(2) by (simp add: unat_gt_0)
  ultimately show ?thesis using r'(1) p h by simp
qed

theorem db_record_update_spec_witness:
  "unat (dr_partition (db_record_update (\<lambda>_. replicate 32 (CHR ''A'')) 4 40 (db_record_thread_init 1 2))) = 1 \<and>
   length (dr_value (db_record_update (\<lambda>_. replicate 32 (CHR ''A'')) 4 40 (db_record_thread_init 1 2))) = 40"
  using db_record_update_spec [of "\<lambda>_. replicate 32 (CHR ''A'')" "db_record_thread_init 1 2" 4 _ 40, OF _ _ refl]
  by simp

text \<open>
  Partitions do not share files: the name of a file determines the number of its
  partition, and the data, index and key files of all partitions are different.
\<close>

lemma partition_files_distinct:
  "(path_data_file path i = path_data_file path j \<longleftrightarrow> i = j) \<and>
   (path_idx_file path i = path_idx_file path j \<longleftrightarrow> i = j) \<and>
   (path_keys_file path i = path_keys_file path j \<longleftrightarrow> i = j) \<and>
   path_data_file path i \<noteq> path_idx_file path j \<and> path_data_file path i \<noteq> path_keys_file path j \<and>
   path_idx_file path i \<noteq> path_keys_file path j"
proof -
  have inj: "path_idx path i = path_idx path j \<longleftrightarrow> i = j"
  proof
    assume "path_idx path i = path_idx path j"
    then have "undec (pad_left 3 (CHR ''0'') (dec (unat i))) = undec (pad_left 3 (CHR ''0'') (dec (unat j)))"
      by (simp add: path_idx_def)
    then show "i = j" by (simp add: word_unat_eq_iff)
  qed simp
  have last: "p @ ''_data.sqlite'' \<noteq> q @ ''_idx.sqlite''" "p @ ''_data.sqlite'' \<noteq> q @ ''_keys.bin''"
    "p @ ''_idx.sqlite'' \<noteq> q @ ''_keys.bin''" for p q :: string
    by (auto dest!: arg_cong [where f = "take 9 \<circ> rev"])
  show ?thesis by (simp add: path_data_file_def path_idx_file_def path_keys_file_def inj last)
qed

end
