(* ===== verification/Float64.thy ===== *)
theory Float64
  imports Float32
begin

text \<open>
  The double-precision arithmetic of the benchmark program: the fractions read from the
  command line by \<open>std::from_chars\<close>, their sum and comparisons, and the size of a page cache.
  Values are represented as in \<open>Float32\<close>; every operation computes an exact fraction and
  rounds it once, to nearest even.
\<close>

type_synonym dbl = ieee

section \<open>Rounding\<close>

text \<open>The exponent of the leading bit of a positive fraction.\<close>

definition frac_log :: "int \<Rightarrow> int \<Rightarrow> int" where
  "frac_log n d =
     (let k = int (blen n) - int (blen d)
      in if d * 2 ^ nat k \<le> n * 2 ^ nat (- k) then k else k - 1)"

definition round_div :: "int \<Rightarrow> int \<Rightarrow> int" where
  "round_div n d =
     (let q = n div d; r = n mod d
      in if 2 * r < d \<or> (2 * r = d \<and> even q) then q else q + 1)"

definition round_pos :: "int \<Rightarrow> int \<Rightarrow> int \<times> int" where
  "round_pos n d =
     (let e = max (frac_log n d - 52) (- 1074)
      in (round_div (n * 2 ^ nat (- e)) (d * 2 ^ nat e), e))"

text \<open>\<open>n / d\<close> for \<open>d > 0\<close>, rounded to a double; \<open>2 ^ 1024\<close> and more overflow.\<close>

definition round64 :: "int \<Rightarrow> int \<Rightarrow> dbl" where
  "round64 n d =
     (if n = 0 then F_fin 0 0
      else let (m, e) = round_pos \<bar>n\<bar> d
           in if 0 \<le> e \<and> 2 ^ 1024 \<le> m * 2 ^ nat e then F_inf (n < 0) else F_fin (sgn n * m) e)"

section \<open>Arithmetic\<close>

text \<open>A finite value as a fraction.\<close>

definition fnum :: "int \<Rightarrow> int \<Rightarrow> int" where "fnum m e = m * 2 ^ nat e"
definition fden :: "int \<Rightarrow> int" where "fden e = 2 ^ nat (- e)"

fun dadd :: "dbl \<Rightarrow> dbl \<Rightarrow> dbl" where
  "dadd (F_fin a x) (F_fin b y) = round64 (fnum a x * fden y + fnum b y * fden x) (fden x * fden y)"
| "dadd F_nan _ = F_nan"
| "dadd _ F_nan = F_nan"
| "dadd (F_inf s) (F_inf t) = (if s = t then F_inf s else F_nan)"
| "dadd (F_inf s) (F_fin b y) = F_inf s"
| "dadd (F_fin a x) (F_inf s) = F_inf s"

fun dneg :: "dbl \<Rightarrow> dbl" where
  "dneg (F_fin a x) = F_fin (- a) x"
| "dneg (F_inf s) = F_inf (\<not> s)"
| "dneg F_nan = F_nan"

fun dmul :: "dbl \<Rightarrow> dbl \<Rightarrow> dbl" where
  "dmul (F_fin a x) (F_fin b y) = round64 (fnum a x * fnum b y) (fden x * fden y)"
| "dmul (F_inf s) (F_fin b y) = (if b = 0 then F_nan else F_inf (s \<noteq> (b < 0)))"
| "dmul (F_fin a x) (F_inf s) = (if a = 0 then F_nan else F_inf (s \<noteq> (a < 0)))"
| "dmul (F_inf s) (F_inf t) = F_inf (s \<noteq> t)"
| "dmul F_nan _ = F_nan"
| "dmul _ F_nan = F_nan"

text \<open>Division, for a divisor that is positive, as all divisors of the program are.\<close>

fun ddiv :: "dbl \<Rightarrow> dbl \<Rightarrow> dbl" where
  "ddiv (F_fin a x) (F_fin b y) =
     (if b = 0 then (if a = 0 then F_nan else F_inf (a < 0))
      else round64 (sgn b * (fnum a x * fden y)) (\<bar>fnum b y\<bar> * fden x))"
| "ddiv (F_inf s) (F_fin b y) = F_inf (s \<noteq> (b < 0))"
| "ddiv (F_fin a x) (F_inf s) = F_fin 0 0"
| "ddiv (F_inf s) (F_inf t) = F_nan"
| "ddiv F_nan _ = F_nan"
| "ddiv _ F_nan = F_nan"

definition dbl_of :: "int \<Rightarrow> dbl" where
  "dbl_of n = round64 n 1"

text \<open>As \<open>f32_to_int64\<close>: truncation, undefined when the result does not fit.\<close>

definition dbl_to_int64 :: "dbl \<Rightarrow> int option" where
  "dbl_to_int64 t = f32_to_int64 t"

section \<open>Reading a decimal number\<close>

definition starts_nocase :: "string \<Rightarrow> string \<Rightarrow> bool" where
  "starts_nocase p s \<longleftrightarrow> map ascii_lower (take (length p) s) = p"

text \<open>The exponent part, if there is one; without digits it does not belong to the number.\<close>

definition read_exponent :: "string \<Rightarrow> int" where
  "read_exponent s =
     (case s of
        c # cs \<Rightarrow>
          if ascii_lower c \<noteq> CHR ''e'' then 0
          else let neg = (cs \<noteq> [] \<and> hd cs = CHR ''-'');
                   cs = (if cs \<noteq> [] \<and> (hd cs = CHR ''-'' \<or> hd cs = CHR ''+'') then tl cs else cs);
                   e = int (undec (takeWhile is_digit cs))
               in if neg then - e else e
      | [] \<Rightarrow> 0)"

text \<open>
  \<open>std::from_chars\<close> for a double: \<open>None\<close> when there is no number, or its value is out of
  range (too large, or not zero but rounded to zero).
\<close>

definition read_decimal :: "string \<Rightarrow> dbl option" where
  "read_decimal s =
     (let ip = takeWhile is_digit s; rest = drop (length ip) s;
          frac = (case rest of c # cs \<Rightarrow> if c = CHR ''.'' then takeWhile is_digit cs else [] | [] \<Rightarrow> []);
          rest = (case rest of c # cs \<Rightarrow> if c = CHR ''.'' then drop (length frac) cs else rest | [] \<Rightarrow> [])
      in if ip = [] \<and> frac = [] then None
         else let n = int (undec (ip @ frac)); x = read_exponent rest - int (length frac);
                  v = round64 (n * 10 ^ nat x) (10 ^ nat (- x))
              in case v of
                   F_fin m e \<Rightarrow> if m = 0 \<and> n \<noteq> 0 then None else Some v
                 | _ \<Rightarrow> None)"

definition from_chars_dbl :: "string \<Rightarrow> dbl option" where
  "from_chars_dbl s =
     (let neg = (s \<noteq> [] \<and> hd s = CHR ''-''); s = (if neg then tl s else s);
          sign = (\<lambda>v. if neg then dneg v else v)
      in if starts_nocase ''inf'' s then Some (sign (F_inf False))
         else if starts_nocase ''nan'' s then Some F_nan
         else map_option sign (read_decimal s))"

section \<open>Lemmas\<close>

lemma frac_log_le:
  assumes "0 < n" and "0 < d"
  shows "(2 :: real) powi frac_log n d \<le> of_int n / of_int d"
proof -
  define k where "k = int (blen n) - int (blen d)"
  show ?thesis
  proof (cases "d * 2 ^ nat k \<le> n * 2 ^ nat (- k)")
    case True
    then have "of_int (d * 2 ^ nat k) \<le> (of_int (n * 2 ^ nat (- k)) :: real)" by (simp only: of_int_le_iff)
    moreover have "(2 :: real) powi k = 2 ^ nat k / 2 ^ nat (- k)"
      by (cases "0 \<le> k") (simp_all add: power_int_def field_simps)
    moreover have "(2 :: real) ^ nat k / 2 ^ nat (- k) \<le> of_int n / of_int d"
      using calculation(1) assms by (simp add: divide_simps mult.commute)
    ultimately have "(2 :: real) powi k \<le> of_int n / of_int d" by simp
    with True show ?thesis by (simp add: frac_log_def k_def [symmetric] Let_def)
  next
    case False
    have n: "2 ^ (blen n - 1) \<le> n" "0 < blen n" and d: "d < 2 ^ blen d"
      using blen_bounds assms by blast+
    have "(2 :: real) powi (k - 1) = 2 powi int (blen n - 1) / 2 powi int (blen d)"
      using n(2) by (subst power_int_diff [symmetric]) (simp_all add: k_def of_nat_diff algebra_simps)
    also have "\<dots> = 2 ^ (blen n - 1) / 2 ^ blen d" by (simp add: power_int_def)
    also have "\<dots> \<le> of_int n / of_int d"
    proof (rule frac_le)
      show "(2 :: real) ^ (blen n - 1) \<le> of_int n" using n(1) by (metis of_int_le_iff of_int_numeral of_int_power)
      show "of_int d \<le> (2 :: real) ^ blen d" using d by (metis less_imp_le of_int_le_iff of_int_numeral of_int_power)
    qed (use assms in auto)
    finally show ?thesis using False by (simp add: frac_log_def k_def [symmetric] Let_def)
  qed
qed

lemma round_div_near:
  assumes "0 < d"
  shows "\<bar>of_int (round_div n d) - of_int n / of_int d\<bar> \<le> (1 / 2 :: real)" and "0 \<le> n \<Longrightarrow> 0 \<le> round_div n d"
proof -
  define q r where "q = n div d" and "r = n mod d"
  have n: "n = q * d + r" and r: "0 \<le> r" "r < d" using assms by (simp_all add: q_def r_def)
  then have f: "of_int n / of_int d = of_int q + of_int r / (of_int d :: real)"
    using assms by (simp add: field_simps)
  have "(0 :: real) \<le> of_int r / of_int d" "of_int r / of_int d < (1 :: real)"
    using r assms by (simp_all add: divide_less_eq)
  moreover have "of_int r / of_int d \<le> (1 / 2 :: real)" if "2 * r \<le> d"
    using that assms by (simp add: divide_le_eq)
  moreover have "(1 / 2 :: real) \<le> of_int r / of_int d" if "d \<le> 2 * r"
    using that assms by (simp add: le_divide_eq)
  ultimately show "\<bar>of_int (round_div n d) - of_int n / of_int d\<bar> \<le> (1 / 2 :: real)"
    unfolding f round_div_def Let_def q_def [symmetric] r_def [symmetric] by (auto split: if_splits)
  show "0 \<le> n \<Longrightarrow> 0 \<le> round_div n d"
    using assms by (auto simp: round_div_def Let_def pos_imp_zdiv_nonneg_iff)
qed

text \<open>A normal value is changed by at most one part in \<open>2 ^ 53\<close>.\<close>

lemma round_pos_near:
  assumes "0 < n" and "0 < d" and "2 powi (- 1022) \<le> (of_int n / of_int d :: real)" and "round_pos n d = (m, e)"
  shows "\<bar>fval m e - of_int n / of_int d\<bar> \<le> of_int n / of_int d / 2 ^ 53" and "0 \<le> m"
proof -
  let ?x = "of_int n / of_int d :: real"
  have e: "e = max (frac_log n d - 52) (- 1074)" and m: "m = round_div (n * 2 ^ nat (- e)) (d * 2 ^ nat e)"
    using assms(4) by (auto simp: round_pos_def Let_def)
  have p: "(2 :: real) powi e = 2 ^ nat e / 2 ^ nat (- e)"
    by (cases "0 \<le> e") (simp_all add: power_int_def field_simps)
  have "2 powi (frac_log n d - 52) \<le> ?x / 2 ^ 52"
    using frac_log_le [OF assms(1,2)] by (simp add: power_int_diff divide_right_mono)
  moreover have "2 powi (- 1074) \<le> ?x / 2 ^ 52"
  proof -
    have "(2 :: real) powi (- 1074) = 2 powi (- 1022) / 2 ^ 52"
      using power_int_diff [of "2 :: real" "- 1022" 52] by simp
    also have "\<dots> \<le> ?x / 2 ^ 52" by (rule divide_right_mono [OF assms(3)]) simp
    finally show ?thesis .
  qed
  ultimately have u: "2 powi e \<le> ?x / 2 ^ 52" by (simp add: e max_def)
  have near: "\<bar>of_int m - of_int (n * 2 ^ nat (- e)) / of_int (d * 2 ^ nat e)\<bar> \<le> (1 / 2 :: real)"
    unfolding m by (rule round_div_near) (simp add: assms(2))
  have "fval m e - ?x = 2 powi e * (of_int m - of_int (n * 2 ^ nat (- e)) / of_int (d * 2 ^ nat e))"
    unfolding fval_def p using assms(2) by (simp add: field_simps)
  then have "\<bar>fval m e - ?x\<bar> = 2 powi e * \<bar>of_int m - of_int (n * 2 ^ nat (- e)) / of_int (d * 2 ^ nat e)\<bar>"
    by (simp add: abs_mult)
  also have "\<dots> \<le> 2 powi e * (1 / 2)" using near by (intro mult_left_mono) simp_all
  also have "\<dots> \<le> ?x / 2 ^ 53" using u by simp
  finally show "\<bar>fval m e - ?x\<bar> \<le> ?x / 2 ^ 53" .
  show "0 \<le> m" unfolding m using assms(1,2) by (intro round_div_near) simp_all
qed

text \<open>
  Results in the range the program uses neither overflow nor lose precision. \<open>near t x\<close>: the
  double \<open>t\<close> is the positive number \<open>x\<close> up to one rounding.
\<close>

definition near :: "dbl \<Rightarrow> real \<Rightarrow> bool" where
  "near t x \<longleftrightarrow> (\<exists>m e. t = F_fin m e \<and> 0 < m \<and> \<bar>fval m e - x\<bar> \<le> x / 2 ^ 53)"

definition moderate :: "real \<Rightarrow> bool" where
  "moderate x \<longleftrightarrow> 1 / 2 ^ 200 \<le> x \<and> x \<le> 2 ^ 200"

lemma fval_nat: "0 \<le> e \<Longrightarrow> fval m e = of_int (m * 2 ^ nat e)"
  by (simp add: fval_def powi_nat)

lemma round64_near:
  assumes "0 < d" and "moderate (of_int n / of_int d)"
  shows "near (round64 n d) (of_int n / of_int d)"
proof -
  let ?x = "of_int n / of_int d :: real"
  have x: "0 < ?x" using assms(2) by (auto simp: moderate_def intro: less_le_trans [of _ "1 / 2 ^ 200"])
  then have n: "0 < n" using assms(1) by (simp add: zero_less_divide_iff)
  have "(2 :: real) powi (- 1022) \<le> 1 / 2 ^ 200"
    by (simp add: power_int_minus field_simps)
  then have lo: "2 powi (- 1022) \<le> ?x" using assms(2) unfolding moderate_def by (meson order_trans)
  obtain m e where r: "round_pos n d = (m, e)" by (cases "round_pos n d")
  note v = round_pos_near [OF n assms(1) lo r]
  have "?x / 2 ^ 53 < ?x" using x by simp
  then have pos: "0 < m" using v(1) fval_pos_iff [of m e] by (simp add: abs_le_iff)
  have "fval m e \<le> 2 * ?x" using v(1) \<open>?x / 2 ^ 53 < ?x\<close> unfolding abs_le_iff by linarith
  also have "\<dots> \<le> 2 * 2 ^ 200" using assms(2) unfolding moderate_def by linarith
  also have "\<dots> < (2 :: real) ^ 1024" by simp
  finally have "fval m e < 2 ^ 1024" .
  then have "\<not> (0 \<le> e \<and> 2 ^ 1024 \<le> m * 2 ^ nat e)"
    by (metis fval_nat linorder_not_le of_int_le_iff of_int_numeral of_int_power)
  with r n have "round64 n d = F_fin m e" by (simp add: round64_def)
  with v(1) pos show ?thesis by (auto simp: near_def)
qed

lemma round64_neg: "round64 (- n) d = dneg (round64 n d)"
  by (auto simp: round64_def Let_def split: prod.split)

lemma fnum_fden: "of_int (fnum m e) / of_int (fden e) = fval m e"
proof -
  have "(2 :: real) powi e = 2 ^ nat e / 2 ^ nat (- e)"
    by (cases "0 \<le> e") (simp_all add: power_int_def field_simps)
  then show ?thesis by (simp add: fval_def fnum_def fden_def)
qed

lemma fden_pos [simp]: "0 < fden e" by (simp add: fden_def)

lemma fnum_pos [simp]: "0 < fnum m e \<longleftrightarrow> 0 < m" by (simp add: fnum_def zero_less_mult_iff)

lemma dadd_near:
  "moderate (fval a x + fval b y) \<Longrightarrow> near (dadd (F_fin a x) (F_fin b y)) (fval a x + fval b y)"
  using round64_near [of "fden x * fden y" "fnum a x * fden y + fnum b y * fden x"]
    fden_pos [of x] fden_pos [of y]
  by (simp add: fnum_fden [symmetric] add_divide_distrib)

lemma dmul_near: "moderate (fval a x * fval b y) \<Longrightarrow> near (dmul (F_fin a x) (F_fin b y)) (fval a x * fval b y)"
  using round64_near [of "fden x * fden y" "fnum a x * fnum b y"] by (simp add: fnum_fden [symmetric])

lemma ddiv_near:
  "0 < b \<Longrightarrow> moderate (fval a x / fval b y) \<Longrightarrow> near (ddiv (F_fin a x) (F_fin b y)) (fval a x / fval b y)"
  using round64_near [of "fnum b y * fden x" "fnum a x * fden y"] fnum_pos [of b y]
  by (simp add: fnum_fden [symmetric] abs_of_pos mult.commute)

lemma dmul_neg: "dmul (F_fin (- a) x) (F_fin b y) = dneg (dmul (F_fin a x) (F_fin b y))"
  using round64_neg [of "fnum a x * fnum b y"] by (simp add: fnum_def)

lemma ddiv_neg: "0 < b \<Longrightarrow> ddiv (F_fin (- a) x) (F_fin b y) = dneg (ddiv (F_fin a x) (F_fin b y))"
  using round64_neg [of "fnum a x * fden y"] by (simp add: fnum_def)

lemma dbl_of_near: "moderate (of_int n) \<Longrightarrow> near (dbl_of n) (of_int n)"
  using round64_near [of 1 n] by (simp add: dbl_of_def)

lemma near_bounds:
  assumes "near t x" and "0 < x"
  obtains m e where "t = F_fin m e" and "0 < m" and "x * (1 - 1 / 2 ^ 53) \<le> fval m e" and "fval m e \<le> x * (1 + 1 / 2 ^ 53)"
proof -
  from assms(1) obtain m e where t: "t = F_fin m e" "0 < m" "\<bar>fval m e - x\<bar> \<le> x / 2 ^ 53"
    unfolding near_def by blast
  then show thesis unfolding abs_le_iff by (intro that [OF t(1,2)]) (simp_all add: algebra_simps)
qed

end
