(* ===== verification/Bench_Partition.thy ===== *)
theory Bench_Partition
  imports Bench_Records Worker Float64
begin

text \<open>
  One partition of the benchmark database: its construction (files, pragmas, tables, prepared
  statements) and destruction, and the execution of its statements through the wrapper of
  SQLite, with the share of the page cache computed in double precision. The file system is
  a parameter.
\<close>

section \<open>Arguments\<close>

text \<open>
  \<open>std::from_chars\<close> for an unsigned type of \<open>w\<close> bits: the longest prefix of digits; no
  digits and values out of range are errors. The callers do not look at what follows.
\<close>

definition from_chars :: "nat \<Rightarrow> string \<Rightarrow> nat option" where
  "from_chars w s =
     (let ds = takeWhile is_digit s
      in if ds = [] then None else if undec ds < 2 ^ w then Some (undec ds) else None)"

record create_args =
  ca_path :: string
  ca_partitions :: u32
  ca_records :: u64
  ca_value_sz :: u64
  ca_cache_kib :: u32
  ca_threads :: u32

section \<open>Statements of a partition\<close>

record part =
  pt_idx :: u32
  pt_begin :: query
  pt_insert :: query
  pt_commit :: query
  pt_get :: query
  pt_update :: query
  pt_conn :: connection
  pt_cur_tx :: u32
  pt_keys :: string

text \<open>The assertion that a statement, already started and bound, is done after one step.\<close>

definition step_done :: "'s sqlite_api \<Rightarrow> query \<Rightarrow> 's \<Rightarrow> unit outcome \<times> 's" where
  "step_done api q s =
     (case next_row api q 0 s of
        (Ok St_done, s) \<Rightarrow> (Ok (), s)
      | (Ok _, s) \<Rightarrow> (Abort, s)
      | (Throw e, s) \<Rightarrow> (Throw e, s)
      | (Abort, s) \<Rightarrow> (Abort, s))"

fun bind_all :: "'s sqlite_api \<Rightarrow> query \<Rightarrow> int \<Rightarrow> bind_arg list \<Rightarrow> 's \<Rightarrow> unit outcome \<times> 's" where
  "bind_all api q i [] s = (Ok (), s)"
| "bind_all api q i (a # as) s =
     (case bind_arg_at api q i a s of
        (Ok _, s) \<Rightarrow> bind_all api q (i + 1) as s
      | (r, s) \<Rightarrow> (r, s))"

definition exec_done :: "'s sqlite_api \<Rightarrow> query \<Rightarrow> bind_arg list \<Rightarrow> 's \<Rightarrow> unit outcome \<times> 's" where
  "exec_done api q as s =
     (case query_start api q False s of
        (Ok _, s) \<Rightarrow>
         (case bind_all api q 0 as s of
            (Ok _, s) \<Rightarrow> step_done api q s
          | (r, s) \<Rightarrow> (r, s))
      | (r, s) \<Rightarrow> (r, s))"

definition blob_arg :: "string \<Rightarrow> bind_arg" where
  "blob_arg v = B_blob v (to_int32 (int (length v)))"

definition insert_args :: "db_record \<Rightarrow> bind_arg list" where
  "insert_args rec = [blob_arg (dr_key rec), B_int64 (int (unat (dr_hash rec))), B_int64 (dr_counter rec),
     blob_arg (dr_value rec)]"

section \<open>Construction and destruction\<close>

text \<open>\<open>fs_fopen\<close> gives the contents of the file of keys, opened for appending.\<close>

record file_system =
  fs_exists :: "string \<Rightarrow> bool"
  fs_fopen :: "string \<Rightarrow> string option"

text \<open>A temporary query that is started, bound and stepped once; its status is ignored.\<close>

definition run_sql :: "'s sqlite_api \<Rightarrow> connection \<Rightarrow> string \<Rightarrow> bind_arg list \<Rightarrow> 's \<Rightarrow> unit outcome \<times> 's" where
  "run_sql api db sql as s =
     (case query_ctor api db sql [] s of
        (Ok q, s) \<Rightarrow>
         (case query_start api q False s of
            (Ok _, s) \<Rightarrow>
             (case bind_all api q 0 as s of
                (Ok _, s) \<Rightarrow>
                 (case next_row api q 0 s of
                    (Ok _, s) \<Rightarrow> (Ok (), query_dtor api q s)
                  | (Throw e, s) \<Rightarrow> (Throw e, query_dtor api q s)
                  | (Abort, s) \<Rightarrow> (Abort, s))
              | (Throw e, s) \<Rightarrow> (Throw e, query_dtor api q s)
              | (Abort, s) \<Rightarrow> (Abort, s))
          | (Throw e, s) \<Rightarrow> (Throw e, query_dtor api q s)
          | (Abort, s) \<Rightarrow> (Abort, s))
      | (Throw e, s) \<Rightarrow> (Throw e, s)
      | (Abort, s) \<Rightarrow> (Abort, s))"

fun run_sqls :: "'s sqlite_api \<Rightarrow> connection \<Rightarrow> (string \<times> bind_arg list) list \<Rightarrow> 's \<Rightarrow> unit outcome \<times> 's" where
  "run_sqls api db [] s = (Ok (), s)"
| "run_sqls api db ((sql, as) # rest) s =
     (case run_sql api db sql as s of
        (Ok _, s) \<Rightarrow> run_sqls api db rest s
      | (r, s) \<Rightarrow> (r, s))"

definition text_arg :: "string \<Rightarrow> bind_arg" where
  "text_arg v = B_text v (to_int32 (int (length v)))"

definition newline :: string where "newline = [CHR 0x0A]"

definition create_sqls :: "create_args \<Rightarrow> u32 \<Rightarrow> (string \<times> bind_arg list) list" where
  "create_sqls args idx =
     [(''attach database ?1 as idx'', [text_arg (path_idx_file (ca_path args) idx)]),
      (''pragma main.journal_mode = off'', []),
      (''pragma idx.journal_mode = off'', []),
      (''pragma main.synchronous = off'', []),
      (''pragma idx.synchronous = off'', []),
      (''pragma main.locking_mode = exclusive'', []),
      (''pragma idx.locking_mode = exclusive'', []),
      (''pragma main.page_size = '' @ dec_int (page_size (ca_value_sz args)), []),
      (''pragma idx.page_size = 512'', []),
      (newline @ ''            create table main.data'' @ newline @
       ''                (key blob not null, hash int not null, counter int not null default 0, value blob not null default '' @
       [CHR 0x27, CHR 0x27] @ '')'' @ newline @ ''            '', []),
      (''create table idx.idx (hash int not null, id int not null, primary key (hash, id)) without rowid'', [])]"

text \<open>
  The share of the page cache: a negative number of KiB, the part of a partition's share that
  a record takes of a record and its index entry. \<open>None\<close> would be the undefined conversion.
\<close>

definition data_record :: "create_args \<Rightarrow> dbl" where
  "data_record args =
     dadd (dadd (dadd (dadd (dbl_of 8) (dbl_of (int key_sz))) (dbl_of 4)) (dbl_of 8)) (dbl_of (uint (ca_value_sz args)))"

definition idx_record :: dbl where
  "idx_record = dadd (dadd (dbl_of 8) (dbl_of 4)) (dbl_of 4)"

definition cache_share :: "create_args \<Rightarrow> int option" where
  "cache_share args =
     (let cache_sz = ddiv (dbl_of (uint (ca_cache_kib args))) (dbl_of (uint (ca_partitions args)))
      in dbl_to_int64 (ddiv (dmul (dneg cache_sz) (data_record args)) (dadd (data_record args) idx_record)))"

definition cache_size :: "create_args \<Rightarrow> int" where
  "cache_size args = (case cache_share args of Some n \<Rightarrow> n | None \<Rightarrow> 0)"

definition open_sqls :: "create_args \<Rightarrow> (string \<times> bind_arg list) list" where
  "open_sqls args =
     [(''pragma main.synchronous = normal'', []),
      (''pragma main.cache_size = '' @ dec_int (cache_size args), [])]"

text \<open>
  The statements prepared for later use, in order. Each is destroyed, and with it the
  connection, when a later one fails.
\<close>

definition prepared_sqls :: "string list" where
  "prepared_sqls =
     [''insert into main.data values (?1, ?2, ?3, ?4)'', ''begin'', ''commit'',
      ''select hex(key), counter, hex(value) from data where hash = ?1 limit 1'',
      ''update data set counter = counter + 1 where hash = ?1 returning hex(key), counter'']"

fun prepare_all :: "'s sqlite_api \<Rightarrow> connection \<Rightarrow> string list \<Rightarrow> 's \<Rightarrow> query list outcome \<times> 's" where
  "prepare_all api db [] s = (Ok [], s)"
| "prepare_all api db (sql # sqls) s =
     (case query_ctor api db sql [] s of
        (Ok q, s) \<Rightarrow>
         (case prepare_all api db sqls s of
            (Ok qs, s) \<Rightarrow> (Ok (q # qs), s)
          | (Throw e, s) \<Rightarrow> (Throw e, query_dtor api q s)
          | (Abort, s) \<Rightarrow> (Abort, s))
      | (Throw e, s) \<Rightarrow> (Throw e, s)
      | (Abort, s) \<Rightarrow> (Abort, s))"

text \<open>Creating the empty files: a connection that is closed again.\<close>

definition create_file :: "'s sqlite_api \<Rightarrow> string \<Rightarrow> 's \<Rightarrow> connection outcome \<times> 's" where
  "create_file api path s = connection_ctor api path True s"

text \<open>\<open>Inl path\<close> is the exception \<open>partition::exists\<close>.\<close>

definition create_files :: "'s sqlite_api \<Rightarrow> file_system \<Rightarrow> string \<Rightarrow> u32 \<Rightarrow> 's \<Rightarrow> (string + unit) outcome \<times> 's" where
  "create_files api fs path idx s =
     (let data = path_data_file path idx; ix = path_idx_file path idx; ks = path_keys_file path idx
      in if fs_exists fs data then (Ok (Inl data), s)
         else case create_file api data s of
           (Ok dc, s) \<Rightarrow>
             if fs_exists fs ix then (Ok (Inl ix), snd (connection_dtor api dc s))
             else if fs_exists fs ks then (Ok (Inl ks), snd (connection_dtor api dc s))
             else (case create_file api ix s of
                (Ok xc, s) \<Rightarrow> (Ok (Inr ()), snd (connection_dtor api dc (snd (connection_dtor api xc s))))
              | (Throw e, s) \<Rightarrow> (Throw e, snd (connection_dtor api dc s))
              | (Abort, s) \<Rightarrow> (Abort, s))
         | (Throw e, s) \<Rightarrow> (Throw e, s)
         | (Abort, s) \<Rightarrow> (Abort, s))"

definition open_partition :: "'s sqlite_api \<Rightarrow> file_system \<Rightarrow> create_args \<Rightarrow> u32 \<Rightarrow> bool \<Rightarrow>
    's \<Rightarrow> part outcome \<times> 's" where
  "open_partition api fs args idx create s =
     (case connection_ctor api (path_data_file (ca_path args) idx) False s of
        (Ok db, s) \<Rightarrow>
         (case run_sqls api db ((if create then create_sqls args idx else []) @ open_sqls args) s of
            (Ok _, s) \<Rightarrow>
             (case fs_fopen fs (path_keys_file (ca_path args) idx) of
                None \<Rightarrow> (Throw (Other_exn ''keys_write''), snd (connection_dtor api db s))
              | Some ks \<Rightarrow>
                 (case prepare_all api db prepared_sqls s of
                    (Ok qs, s) \<Rightarrow>
                      (Ok \<lparr>pt_idx = idx, pt_begin = qs ! 1, pt_insert = qs ! 0, pt_commit = qs ! 2, pt_get = qs ! 3,
                           pt_update = qs ! 4, pt_conn = db, pt_cur_tx = 0, pt_keys = ks\<rparr>, s)
                  | (Throw e, s) \<Rightarrow> (Throw e, snd (connection_dtor api db s))
                  | (Abort, s) \<Rightarrow> (Abort, s)))
          | (Throw e, s) \<Rightarrow> (Throw e, snd (connection_dtor api db s))
          | (Abort, s) \<Rightarrow> (Abort, s))
      | (Throw e, s) \<Rightarrow> (Throw e, s)
      | (Abort, s) \<Rightarrow> (Abort, s))"

definition partition_ctor :: "'s sqlite_api \<Rightarrow> file_system \<Rightarrow> create_args \<Rightarrow> u32 \<Rightarrow> bool \<Rightarrow>
    's \<Rightarrow> (string + part) outcome \<times> 's" where
  "partition_ctor api fs args idx create s =
     (case (if create then create_files api fs (ca_path args) idx s else (Ok (Inr ()), s)) of
        (Ok (Inl path), s) \<Rightarrow> (Ok (Inl path), s)
      | (Ok (Inr _), s) \<Rightarrow>
         (case open_partition api fs args idx create s of
            (Ok p, s) \<Rightarrow> (Ok (Inr p), s)
          | (Throw e, s) \<Rightarrow> (Throw e, s)
          | (Abort, s) \<Rightarrow> (Abort, s))
      | (Throw e, s) \<Rightarrow> (Throw e, s)
      | (Abort, s) \<Rightarrow> (Abort, s))"

text \<open>The destructor switches the journal; an exception there ends the process.\<close>

definition partition_dtor :: "'s sqlite_api \<Rightarrow> part \<Rightarrow> 's \<Rightarrow> unit outcome \<times> 's" where
  "partition_dtor api p s =
     (case run_sql api (pt_conn p) ''pragma main.journal_mode = wal'' [] s of
        (Ok _, s) \<Rightarrow>
          (let s = foldl (\<lambda>s q. query_dtor api q s) s [pt_update p, pt_get p, pt_commit p, pt_begin p, pt_insert p]
           in (Ok (), snd (connection_dtor api (pt_conn p) s)))
      | (_, s) \<Rightarrow> (Abort, s))"

section \<open>Lemmas\<close>

text \<open>What can leave the operations of a partition: errors of SQLite and of the file of keys.\<close>

definition bench_error :: "exn \<Rightarrow> bool" where
  "bench_error e \<longleftrightarrow> e = Other_exn ''keys_write'' \<or> (\<exists>m. e = Sqlite_error m)"

lemma bind_all_throws: "fst (bind_all api q i as s) = Throw e \<Longrightarrow> \<exists>m. e = Sqlite_error m"
proof (induction as arbitrary: i s)
  case (Cons a as)
  then show ?case using bind_arg_at_throws [of api q i a s] by (auto split: prod.splits outcome.splits)
qed simp

lemma next_row_throws: "fst (next_row api q r s) = Throw e \<Longrightarrow> \<exists>m. e = Sqlite_error m"
  by (rule query_rows.nxt_throws)

lemma run_sql_throws: "fst (run_sql api db sql as s) = Throw e \<Longrightarrow> \<exists>m. e = Sqlite_error m"
  unfolding run_sql_def
  by (auto split: prod.splits outcome.splits dest!: arg_cong [where f = fst]
      dest: query_ctor_throws query_start_throws bind_all_throws next_row_throws)

lemma run_sqls_throws: "fst (run_sqls api db sqls s) = Throw e \<Longrightarrow> \<exists>m. e = Sqlite_error m"
proof (induction sqls arbitrary: s)
  case (Cons x sqls)
  then show ?case
    using run_sql_throws [of api db "fst x" "snd x" s] by (cases x) (auto split: prod.splits outcome.splits)
qed simp

lemma prepare_all_throws: "fst (prepare_all api db sqls s) = Throw e \<Longrightarrow> \<exists>m. e = Sqlite_error m"
proof (induction sqls arbitrary: s)
  case (Cons x sqls)
  then show ?case
    using query_ctor_throws [of api db x "[]" s]
    by (auto split: prod.splits outcome.splits) (metis fst_conv)
qed simp

lemma throws_pair:
  "connection_ctor api file c s = (Throw e, t) \<Longrightarrow> \<exists>m. e = Sqlite_error m"
  "run_sqls api db sqls s = (Throw e, t) \<Longrightarrow> \<exists>m. e = Sqlite_error m"
  "prepare_all api db ps s = (Throw e, t) \<Longrightarrow> \<exists>m. e = Sqlite_error m"
  by (metis connection_ctor_throws fst_conv, metis run_sqls_throws fst_conv, metis prepare_all_throws fst_conv)

lemma open_partition_throws: "fst (open_partition api fs args idx create s) = Throw e \<Longrightarrow> bench_error e"
  unfolding open_partition_def bench_error_def
  by (auto split: prod.splits outcome.splits option.splits dest: throws_pair)

lemma create_files_throws: "fst (create_files api fs path idx s) = Throw e \<Longrightarrow> bench_error e"
  unfolding create_files_def create_file_def bench_error_def Let_def
  by (auto split: prod.splits outcome.splits if_splits dest: throws_pair)

lemma create_files_fresh:
  "fst (create_files api fs path idx s) = Ok (Inr u) \<Longrightarrow>
    \<not> fs_exists fs (path_data_file path idx) \<and> \<not> fs_exists fs (path_idx_file path idx) \<and>
    \<not> fs_exists fs (path_keys_file path idx)"
  unfolding create_files_def Let_def by (auto split: prod.splits outcome.splits if_splits)

lemma create_files_exists:
  "fst (create_files api fs path idx s) = Ok (Inl f) \<Longrightarrow>
    fs_exists fs f \<and> f \<in> {path_data_file path idx, path_idx_file path idx, path_keys_file path idx}"
  unfolding create_files_def Let_def by (auto split: prod.splits outcome.splits if_splits)

section \<open>The share of the page cache\<close>

lemma key_sz_value: "int key_sz = 32"
  by (simp add: key_sz_def)

lemma record_constants:
  "dadd (dadd (dadd (dbl_of 8) (dbl_of 32)) (dbl_of 4)) (dbl_of 8) = F_fin 7318349394477056 (- 47)"
  "idx_record = F_fin 4503599627370496 (- 48)"
  unfolding idx_record_def by code_simp+

lemma moderateI:
  assumes "1 / 2 ^ 110 \<le> x" and "x \<le> 2 ^ 110"
  shows "moderate x"
proof -
  have "(1 :: real) / 2 ^ 200 \<le> 1 / 2 ^ 110" by (rule divide_left_mono) (rule power_increasing, simp_all)
  moreover have "(2 :: real) ^ 110 \<le> 2 ^ 200" by (rule power_increasing) simp_all
  ultimately show ?thesis unfolding moderate_def using assms by (blast intro: order_trans)
qed

lemma word_real_bounds:
  fixes w :: "'a :: len word"
  assumes "w \<noteq> 0"
  shows "1 \<le> real_of_int (uint w)" and "real_of_int (uint w) \<le> 2 ^ LENGTH('a)"
proof -
  have "uint w \<noteq> 0" using assms by (metis of_int_0 word_of_int_uint)
  then have "1 \<le> uint w" using uint_nonnegative [of w] by linarith
  then show "1 \<le> real_of_int (uint w)" by linarith
  have "uint w \<le> 2 ^ LENGTH('a)" by (rule less_imp_le [OF uint_lt2p])
  then have "real_of_int (uint w) \<le> real_of_int (2 ^ LENGTH('a))" by (simp only: of_int_le_iff)
  then show "real_of_int (uint w) \<le> 2 ^ LENGTH('a)" by simp
qed

lemma data_record_near:
  assumes "ca_value_sz args \<noteq> 0"
  obtains m e where "data_record args = F_fin m e" and "0 < m" and "1 \<le> fval m e" and "fval m e \<le> 2 ^ 66"
proof -
  let ?v = "of_int (uint (ca_value_sz args)) :: real"
  have v: "1 \<le> ?v" "?v \<le> 2 ^ 64" using word_real_bounds [OF assms] by simp_all
  have "near (dbl_of (uint (ca_value_sz args))) ?v" by (rule dbl_of_near, rule moderateI) (use v in simp_all)
  then obtain a x where a: "dbl_of (uint (ca_value_sz args)) = F_fin a x" "0 < a"
    "fval a x \<le> ?v * (1 + 1 / 2 ^ 53)" by (rule near_bounds) (use v in simp_all)
  have c: "fval 7318349394477056 (- 47) = 52" by (simp add: fval_def power_int_minus)
  have ax: "0 < fval a x" "fval a x \<le> 2 ^ 65"
    using a(2) fval_pos_iff [of a x] order_trans [OF a(3)] v(2) by simp_all
  have "near (data_record args) (fval 7318349394477056 (- 47) + fval a x)"
    unfolding data_record_def key_sz_value record_constants a(1)
    by (rule dadd_near, rule moderateI) (use ax in \<open>simp_all add: c\<close>)
  then show thesis by (rule near_bounds) (use ax that in \<open>simp_all add: c\<close>)
qed
text \<open>One more rounding: between the bounds, up to a factor of two, and never far above.\<close>

lemma near_factors:
  assumes "near t x" and "0 < x"
  obtains m e where "t = F_fin m e" and "0 < m" and "x / 2 \<le> fval m e" and "fval m e \<le> x * 2"
    and "fval m e \<le> x * (1 + 1 / 2 ^ 53)" and "x * (1 - 1 / 2 ^ 53) \<le> fval m e"
proof (rule near_bounds [OF assms])
  fix m e
  assume f: "t = F_fin m e" "0 < m" "x * (1 - 1 / 2 ^ 53) \<le> fval m e" "fval m e \<le> x * (1 + 1 / 2 ^ 53)"
  have "x / 2 \<le> x * (1 - 1 / 2 ^ 53)" "x * (1 + 1 / 2 ^ 53) \<le> x * 2" using assms(2) by simp_all
  with f(3,4) have "x / 2 \<le> fval m e" "fval m e \<le> x * 2" by linarith+
  then show thesis using that [OF f(1,2)] f(3,4) by blast
qed

lemma cache_quotient:
  fixes k p r :: real
  assumes "0 < k" and "0 < p" and "c * p \<le> k * (1 + 1 / 2 ^ 51)" and "0 < c" and "0 < r"
    and "pr \<le> c * r * (1 + 1 / 2 ^ 53)" and "0 < pr" and "(r + 16) * (1 - 1 / 2 ^ 53) \<le> sm"
    and "q \<le> pr / sm * (1 + 1 / 2 ^ 53)"
  shows "q * p \<le> k * (1 + 1 / 2 ^ 50)"
proof -
  let ?u = "1 / 2 ^ 53 :: real"
  have s: "0 < r * (1 - ?u)" "r * (1 - ?u) \<le> sm"
    using assms(5,8) by (simp, smt (verit) mult_right_mono divide_less_eq_1 one_less_power zero_less_numeral)
  have "pr / sm \<le> (c * r * (1 + ?u)) / (r * (1 - ?u))"
    by (rule frac_le) (use assms(4-7) s in simp_all)
  also have "\<dots> = c * ((1 + ?u) / (1 - ?u))" using assms(5) by simp
  finally have "pr / sm * (1 + ?u) \<le> c * ((1 + ?u) / (1 - ?u)) * (1 + ?u)" by (rule mult_right_mono) simp
  with assms(9) have "q \<le> c * ((1 + ?u) / (1 - ?u)) * (1 + ?u)" by (rule order_trans)
  then have "q * p \<le> c * ((1 + ?u) / (1 - ?u)) * (1 + ?u) * p" by (rule mult_right_mono) (use assms(2) in simp)
  also have "\<dots> = (c * p) * ((1 + ?u) / (1 - ?u) * (1 + ?u))" by (simp only: mult_ac)
  also have "\<dots> \<le> (k * (1 + 1 / 2 ^ 51)) * ((1 + ?u) / (1 - ?u) * (1 + ?u))"
    by (rule mult_right_mono [OF assms(3)]) simp
  also have "\<dots> = k * ((1 + 1 / 2 ^ 51) * ((1 + ?u) / (1 - ?u) * (1 + ?u)))" by (simp only: mult_ac)
  also have "\<dots> \<le> k * (1 + 1 / 2 ^ 50)" by (rule mult_left_mono) (use assms(1) in simp_all)
  finally show ?thesis .
qed

lemma cache_zero:
  assumes "ca_cache_kib args = 0" and "ca_partitions args \<noteq> 0" and "ca_value_sz args \<noteq> 0"
  shows "cache_share args = Some 0"
proof -
  obtain m e where d: "data_record args = F_fin m e" "0 < m" "1 \<le> fval m e" "fval m e \<le> 2 ^ 66"
    by (rule data_record_near [OF assms(3)])
  have "near (dbl_of (uint (ca_partitions args))) (of_int (uint (ca_partitions args)))"
    by (rule dbl_of_near, rule moderateI) (use word_real_bounds [OF assms(2)] in simp_all)
  then obtain p y where p: "dbl_of (uint (ca_partitions args)) = F_fin p y" "0 < p" by (auto simp: near_def)
  have c: "fval 4503599627370496 (- 48) = 16" by (simp add: fval_def power_int_minus)
  have "near (dadd (data_record args) idx_record) (fval m e + fval 4503599627370496 (- 48))"
    unfolding d(1) record_constants by (rule dadd_near, rule moderateI) (use d(3,4) in \<open>simp_all add: c\<close>)
  then obtain s z where s: "dadd (data_record args) idx_record = F_fin s z" "0 < s" by (auto simp: near_def)
  have z: "dbl_of (uint (0 :: u32)) = F_fin 0 0" "\<And>d. round64 0 d = F_fin 0 0" by (simp_all add: dbl_of_def round64_def)
  show ?thesis
    unfolding cache_share_def Let_def assms(1) p(1) s(1) z(1)
    using p(2) s(2) by (simp add: d(1) z(2) fnum_def dbl_to_int64_def f32_to_int64_def ftrunc_def)
qed

lemma moderate_between: "l \<le> x \<Longrightarrow> x \<le> h \<Longrightarrow> 1 / 2 ^ 110 \<le> l \<Longrightarrow> h \<le> 2 ^ 110 \<Longrightarrow> moderate x"
  by (rule moderateI) (blast intro: order_trans)+

text \<open>The share of one partition before the ratio of the records is applied.\<close>

lemma cache_sz_near:
  fixes kib parts :: u32
  defines "k \<equiv> of_int (uint kib) :: real" and "p \<equiv> of_int (uint parts) :: real"
  assumes "kib \<noteq> 0" and "parts \<noteq> 0"
  obtains c w where "ddiv (dbl_of (uint kib)) (dbl_of (uint parts)) = F_fin c w" and "0 < c"
    and "1 / 2 ^ 36 \<le> fval c w" and "fval c w \<le> 2 ^ 36" and "fval c w * p \<le> k * (1 + 1 / 2 ^ 51)"
proof -
  have k: "1 \<le> k" "k \<le> 2 ^ 32" and p: "1 \<le> p" "p \<le> 2 ^ 32"
    using word_real_bounds [OF assms(3)] word_real_bounds [OF assms(4)] by (simp_all add: k_def p_def)
  have "near (dbl_of (uint kib)) k" unfolding k_def
    by (rule dbl_of_near, rule moderate_between [of 1 _ "2 ^ 32"]) (use k in \<open>simp_all add: k_def\<close>)
  then obtain a x where a: "dbl_of (uint kib) = F_fin a x" "0 < a" "k / 2 \<le> fval a x" "fval a x \<le> k * 2"
    "fval a x \<le> k * (1 + 1 / 2 ^ 53)" by (rule near_factors) (use k in simp_all)
  have "near (dbl_of (uint parts)) p" unfolding p_def
    by (rule dbl_of_near, rule moderate_between [of 1 _ "2 ^ 32"]) (use p in \<open>simp_all add: p_def\<close>)
  then obtain b z where b: "dbl_of (uint parts) = F_fin b z" "0 < b" "p / 2 \<le> fval b z" "fval b z \<le> p * 2"
    "p * (1 - 1 / 2 ^ 53) \<le> fval b z" by (rule near_factors) (use p in simp_all)
  have pos: "0 < fval a x" "0 < fval b z" using a(2) b(2) fval_pos_iff by simp_all
  have ab: "(1 / 2) / 2 ^ 33 \<le> fval a x / fval b z" "fval a x / fval b z \<le> 2 ^ 33 / (1 / 2)"
    by (rule frac_le; use a(3,4) b(3,4) k p pos in simp)+
  have "near (ddiv (F_fin a x) (F_fin b z)) (fval a x / fval b z)"
    by (rule ddiv_near [OF b(2)], rule moderate_between [OF ab]) simp_all
  then obtain c w where c: "ddiv (F_fin a x) (F_fin b z) = F_fin c w" "0 < c" "fval a x / fval b z / 2 \<le> fval c w"
    "fval c w \<le> fval a x / fval b z * 2" "fval c w \<le> fval a x / fval b z * (1 + 1 / 2 ^ 53)"
    by (rule near_factors) (use pos in simp_all)
  have "fval a x / fval b z \<le> (k * (1 + 1 / 2 ^ 53)) / (p * (1 - 1 / 2 ^ 53))"
    by (rule frac_le) (use a(5) b(5) p k in simp_all)
  then have "fval a x / fval b z * (1 + 1 / 2 ^ 53) \<le> (k * (1 + 1 / 2 ^ 53)) / (p * (1 - 1 / 2 ^ 53)) * (1 + 1 / 2 ^ 53)"
    by (rule mult_right_mono) simp
  then have "fval c w * p \<le> (k * (1 + 1 / 2 ^ 53)) / (p * (1 - 1 / 2 ^ 53)) * (1 + 1 / 2 ^ 53) * p"
    using c(5) p by (intro mult_right_mono) linarith+
  also have "\<dots> = k * ((1 + 1 / 2 ^ 53) / (1 - 1 / 2 ^ 53) * (1 + 1 / 2 ^ 53))" using p by simp
  also have "\<dots> \<le> k * (1 + 1 / 2 ^ 51)" by (rule mult_left_mono) (use k in simp_all)
  finally have "fval c w * p \<le> k * (1 + 1 / 2 ^ 51)" .
  moreover have "1 / 2 ^ 36 \<le> fval c w" by (rule order_trans [OF _ c(3)]) (use ab(1) in simp)
  moreover have "fval c w \<le> 2 ^ 36" by (rule order_trans [OF c(4)]) (use mult_right_mono [OF ab(2), of 2] in simp)
  ultimately show thesis using that c(1,2) unfolding a(1) b(1) by blast
qed

lemma cache_share_value:
  assumes "ca_cache_kib args \<noteq> 0" and "ca_partitions args \<noteq> 0" and "ca_value_sz args \<noteq> 0"
  obtains m e where "cache_share args = dbl_to_int64 (F_fin (- m) e)" and "0 < m"
    and "fval m e * of_int (uint (ca_partitions args)) \<le> of_int (uint (ca_cache_kib args)) * (1 + 1 / 2 ^ 50)"
proof -
  obtain r y where r: "data_record args = F_fin r y" "0 < r" "1 \<le> fval r y" "fval r y \<le> 2 ^ 66"
    by (rule data_record_near [OF assms(3)])
  obtain c w where c: "ddiv (dbl_of (uint (ca_cache_kib args))) (dbl_of (uint (ca_partitions args))) = F_fin c w" "0 < c"
    "1 / 2 ^ 36 \<le> fval c w" "fval c w \<le> 2 ^ 36"
    "fval c w * of_int (uint (ca_partitions args)) \<le> of_int (uint (ca_cache_kib args)) * (1 + 1 / 2 ^ 51)"
    by (rule cache_sz_near [OF assms(1,2)])
  have cr: "1 / 2 ^ 36 * 1 \<le> fval c w * fval r y" "fval c w * fval r y \<le> 2 ^ 36 * 2 ^ 66"
    by (rule mult_mono; use c(3,4) r(3,4) in simp)+
  have "near (dmul (F_fin c w) (F_fin r y)) (fval c w * fval r y)"
    by (rule dmul_near, rule moderate_between [OF cr]) simp_all
  then obtain p z where p: "dmul (F_fin c w) (F_fin r y) = F_fin p z" "0 < p" "fval c w * fval r y / 2 \<le> fval p z"
    "fval p z \<le> fval c w * fval r y * 2" "fval p z \<le> fval c w * fval r y * (1 + 1 / 2 ^ 53)"
    by (rule near_factors) (use c(2) r(2) fval_pos_iff in simp_all)
  have c16: "fval 4503599627370496 (- 48) = 16" by (simp add: fval_def power_int_minus)
  have "near (dadd (F_fin r y) idx_record) (fval r y + fval 4503599627370496 (- 48))"
    unfolding record_constants by (rule dadd_near, rule moderateI) (use r(3,4) in \<open>simp_all add: c16\<close>)
  then obtain s v where s: "dadd (F_fin r y) idx_record = F_fin s v" "0 < s" "(fval r y + 16) / 2 \<le> fval s v"
    "fval s v \<le> (fval r y + 16) * 2" "(fval r y + 16) * (1 - 1 / 2 ^ 53) \<le> fval s v"
    by (rule near_factors) (use r(3) in \<open>simp_all add: c16\<close>)
  have pb: "1 / 2 ^ 37 \<le> fval p z" "fval p z \<le> 2 ^ 103" using p(3,4) cr by simp_all
  have sb: "1 \<le> fval s v" "fval s v \<le> 2 ^ 68" using s(3,4) r(3,4) by simp_all
  have ps: "1 / 2 ^ 37 / 2 ^ 68 \<le> fval p z / fval s v" "fval p z / fval s v \<le> 2 ^ 103 / 1"
    by (rule frac_le; use pb sb in simp)+
  have "near (ddiv (F_fin p z) (F_fin s v)) (fval p z / fval s v)"
    by (rule ddiv_near [OF s(2)], rule moderate_between [OF ps]) simp_all
  then obtain q u where q: "ddiv (F_fin p z) (F_fin s v) = F_fin q u" "0 < q"
    "fval q u \<le> fval p z / fval s v * (1 + 1 / 2 ^ 53)"
    by (rule near_factors) (use pb sb in simp_all)
  have "cache_share args = dbl_to_int64 (F_fin (- q) u)"
    by (simp add: cache_share_def c(1) r(1) s(1) dmul_neg ddiv_neg [OF s(2)] p(1) q(1) del: dmul.simps ddiv.simps dadd.simps)
  moreover have "fval q u * of_int (uint (ca_partitions args)) \<le> of_int (uint (ca_cache_kib args)) * (1 + 1 / 2 ^ 50)"
    by (rule cache_quotient [OF _ _ c(5) _ _ p(5) _ s(5) q(3)])
      (use word_real_bounds [OF assms(1)] word_real_bounds [OF assms(2)] c(2) p(2) r(2) fval_pos_iff in auto)
  ultimately show thesis using that q(2) by blast
qed

section \<open>Properties\<close>

text \<open>
  Creating a partition never touches an existing database. It succeeds only when none of
  its three files exists; when it reports an existing file, one of the three does exist and
  no statement has been prepared; every exception that leaves the constructor is an error of
  SQLite or of the file of keys; and a new partition has no open transaction.
\<close>

lemma partition_ctor_safe:
  "case fst (partition_ctor api fs args idx True s) of
     Ok (Inr p) \<Rightarrow>
       \<not> fs_exists fs (path_data_file (ca_path args) idx) \<and> \<not> fs_exists fs (path_idx_file (ca_path args) idx) \<and>
       \<not> fs_exists fs (path_keys_file (ca_path args) idx) \<and> pt_cur_tx p = 0 \<and> pt_idx p = idx
   | Ok (Inl f) \<Rightarrow> fs_exists fs f \<and> f \<in> {path_data_file (ca_path args) idx, path_idx_file (ca_path args) idx,
       path_keys_file (ca_path args) idx} \<and>
       snd (partition_ctor api fs args idx True s) = snd (create_files api fs (ca_path args) idx s)
   | Throw e \<Rightarrow> e = Other_exn ''keys_write'' \<or> (\<exists>m. e = Sqlite_error m)
   | Abort \<Rightarrow> True"
proof (cases "create_files api fs (ca_path args) idx s")
  case (Pair r s1)
  note pr = create_files_throws [of api fs "ca_path args" idx s] create_files_fresh [of api fs "ca_path args" idx s]
    create_files_exists [of api fs "ca_path args" idx s]
  have op: "pt_cur_tx p = 0 \<and> pt_idx p = idx" if "open_partition api fs args idx True s1 = (Ok p, s2)" for p s2
    using that by (auto simp: open_partition_def split: prod.splits outcome.splits option.splits)
  have oe: "bench_error e" if "open_partition api fs args idx True s1 = (Throw e, s2)" for e s2
    using open_partition_throws [of api fs args idx True s1 e] that by simp
  show ?thesis
    using pr Pair by (auto simp: partition_ctor_def bench_error_def dest: op oe [unfolded bench_error_def]
        split: prod.split outcome.split sum.split)
qed

text \<open>
  The share of the page cache. For all arguments the command line can give, the
  double-precision computation converts to an integer without undefined behaviour, gives
  SQLite a negative number of KiB or zero, and the shares of all partitions together never
  exceed the requested size of the cache, in spite of all rounding errors.
\<close>

lemma cache_share_bounded:
  assumes "ca_partitions args \<noteq> 0" and "ca_value_sz args \<noteq> 0"
  shows "\<exists>n. cache_share args = Some n \<and> cache_size args = n \<and> n \<le> 0 \<and>
    uint (ca_partitions args) * (- n) \<le> uint (ca_cache_kib args)"
proof (cases "ca_cache_kib args = 0")
  case True
  with cache_zero [OF True assms] show ?thesis by (simp add: cache_size_def)
next
  case False
  let ?k = "uint (ca_cache_kib args)" and ?p = "uint (ca_partitions args)"
  obtain m e where m: "cache_share args = dbl_to_int64 (F_fin (- m) e)" "0 < m"
    "fval m e * of_int ?p \<le> of_int ?k * (1 + 1 / 2 ^ 50)"
    by (rule cache_share_value [OF False assms])
  let ?t = "ftrunc m e"
  have t: "of_int ?t \<le> fval m e" "ftrunc (- m) e = - ?t" and t0: "0 \<le> ?t"
    using ftrunc_bounds [of m e] m(2) by (simp_all add: ftrunc_def pos_imp_zdiv_nonneg_iff)
  have p: "1 \<le> real_of_int ?p" and k: "real_of_int ?k \<le> 2 ^ 32"
    using word_real_bounds [OF assms(1)] word_real_bounds [OF False] by simp_all
  have "of_int (?p * ?t) \<le> fval m e * of_int ?p" using mult_right_mono [OF t(1), of "of_int ?p"] p by (simp add: mult.commute)
  also note m(3)
  also have "real_of_int ?k * (1 + 1 / 2 ^ 50) < real_of_int (?k + 1)" using k by (simp add: algebra_simps)
  finally have le: "?p * ?t \<le> ?k" by linarith
  have "1 \<le> ?p" using p by linarith
  then have "?t \<le> ?p * ?t" using t0 by (simp add: mult_le_cancel_right1)
  moreover have "?k \<le> 2 ^ 32" using uint_lt2p [of "ca_cache_kib args"] by (simp add: less_imp_le)
  ultimately have "cache_share args = Some (- ?t)"
    using le t0 by (simp add: m(1) dbl_to_int64_def f32_to_int64_def t(2) Let_def)
  with le t0 show ?thesis by (simp add: cache_size_def)
qed

theorem cache_share_bounded_witness:
  "\<exists>n. cache_share \<lparr>ca_path = ''p'', ca_partitions = 3, ca_records = 1, ca_value_sz = 100, ca_cache_kib = 1000, ca_threads = 1\<rparr> =
     Some n \<and> n \<le> 0 \<and> 3 * (- n) \<le> 1000"
  using cache_share_bounded [of "\<lparr>ca_path = ''p'', ca_partitions = 3, ca_records = 1, ca_value_sz = 100, ca_cache_kib = 1000, ca_threads = 1\<rparr>"]
  by auto

end
