(* ===== verification/Bench_Create.thy ===== *)
theory Bench_Create
  imports Bench_Partition
begin

text \<open>
  The command \<open>create\<close> of the benchmark program: its arguments, the partition files, the
  handler that inserts one record within transactions, and the worker that keeps a number of
  records in flight until the requested number is reached. The handlers of different
  partitions interleave; those of one partition are serialised by its strand. SQLite, SHA-256
  and the file system are parameters.
\<close>

section \<open>Arguments\<close>

text \<open>\<open>Ok (Inl m)\<close>: the message \<open>m\<close> is logged, if any, and the usage is shown.\<close>

definition parse_threads :: "u32 \<Rightarrow> string list \<Rightarrow> (string + u32) outcome" where
  "parse_threads hw args =
     (if 6 \<le> length args then
        (case from_chars 32 (args ! 5) of
           Some n \<Rightarrow> if n < 1 then Ok (Inl ''Number of threads (THREADS) must be at least 1'') else Ok (Inr (of_nat n))
         | None \<Rightarrow> Ok (Inl ''Number of threads (THREADS) must be at least 1''))
      else if hw > 0 then Ok (Inr hw) else Abort)"

definition parse_create_args :: "u32 \<Rightarrow> string list \<Rightarrow> (string + create_args) outcome" where
  "parse_create_args hw args =
     (if length args < 5 \<or> 6 < length args then Ok (Inl [])
      else case from_chars 32 (args ! 1) of
        None \<Rightarrow> Ok (Inl ''Number of partitions (PARTITIONS) must be between 1 and 256'')
      | Some ps \<Rightarrow>
      if ps < unat partitions_min \<or> unat partitions_max < ps
      then Ok (Inl ''Number of partitions (PARTITIONS) must be between 1 and 256'')
      else case from_chars 64 (args ! 2) of
        None \<Rightarrow> Ok (Inl ''Number of records (RECORDS) must be at least 1'')
      | Some rs \<Rightarrow>
      if rs < 1 then Ok (Inl ''Number of records (RECORDS) must be at least 1'')
      else case from_chars 64 (args ! 3) of
        None \<Rightarrow> Ok (Inl ''Value size (VALUE_SZ) must at least 1'')
      | Some vs \<Rightarrow>
      if vs < unat value_sz_min then Ok (Inl ''Value size (VALUE_SZ) must at least 1'')
      else case from_chars 32 (args ! 4) of
        None \<Rightarrow> Ok (Inl ''Invalid number of KiB of memory to use as the page cache'')
      | Some ck \<Rightarrow>
      (case parse_threads hw args of
         Ok (Inl m) \<Rightarrow> Ok (Inl m)
       | Ok (Inr th) \<Rightarrow>
           Ok (Inr \<lparr>ca_path = args ! 0, ca_partitions = of_nat ps, ca_records = of_nat rs,
                    ca_value_sz = of_nat vs, ca_cache_kib = of_nat ck, ca_threads = th\<rparr>)
       | Throw e \<Rightarrow> Throw e
       | Abort \<Rightarrow> Abort))"

section \<open>Creating records\<close>

record 's bench =
  bs_parts :: "part list"
  bs_queue :: "db_record list"
  bs_records :: u64
  bs_rec :: "nat \<Rightarrow> db_record"
  bs_sq :: 's

text \<open>\<open>worker::create_record\<close> on thread \<open>t\<close>, with its thread-local record.\<close>

definition create_record :: "(string \<Rightarrow> string) \<Rightarrow> create_args \<Rightarrow> nat \<Rightarrow> 's bench \<Rightarrow> 's bench" where
  "create_record sha args t b =
     (let rec = db_record_update sha (of_nat (length (bs_parts b))) (ca_value_sz args) (bs_rec b t)
      in b\<lparr>bs_rec := (bs_rec b)(t := rec), bs_queue := bs_queue b @ [rec]\<rparr>)"

definition worker_init :: "(string \<Rightarrow> string) \<Rightarrow> create_args \<Rightarrow> nat \<Rightarrow> u64 \<Rightarrow> 's bench \<Rightarrow> 's bench" where
  "worker_init sha args t requests b = (create_record sha args t ^^ unat requests) b"

definition is_done :: "create_args \<Rightarrow> u64 \<Rightarrow> bool \<times> u64" where
  "is_done args records = (let r = records + 1 in (ca_records args \<le> r, r))"

text \<open>
  \<open>partition::handle_create\<close> for a record of partition \<open>i\<close>. \<open>fw\<close> tells whether the two
  writes to the file of keys succeed.
\<close>

definition set_part :: "nat \<Rightarrow> part \<Rightarrow> 's bench \<Rightarrow> 's bench" where
  "set_part i p b = b\<lparr>bs_parts := (bs_parts b)[i := p]\<rparr>"

definition write_keys :: "bool \<times> bool \<Rightarrow> db_record \<Rightarrow> part \<Rightarrow> bool \<times> part" where
  "write_keys fw rec p =
     (fst fw \<and> snd fw,
      p\<lparr>pt_keys := pt_keys p @
         (if \<not> fst fw then [] else if \<not> snd fw then take 1 (keys_entry rec) else keys_entry rec)\<rparr>)"

text \<open>From the test of \<open>is_done\<close> on.\<close>

definition finish_create :: "'s sqlite_api \<Rightarrow> (string \<Rightarrow> string) \<Rightarrow> create_args \<Rightarrow> nat \<Rightarrow> nat \<Rightarrow> part \<Rightarrow>
    's bench \<Rightarrow> unit outcome \<times> 's bench" where
  "finish_create api sha args t i p b =
     (let (fin, r) = is_done args (bs_records b);
          b = b\<lparr>bs_records := r\<rparr>
      in if \<not> fin then
           (let p = p\<lparr>pt_cur_tx := pt_cur_tx p + 1\<rparr>
            in if pt_cur_tx p = transaction_sz then
                 (case exec_done api (pt_commit p) [] (bs_sq b) of
                    (Ok _, s) \<Rightarrow>
                      (Ok (), create_record sha args t (set_part i (p\<lparr>pt_cur_tx := 0\<rparr>) (b\<lparr>bs_sq := s\<rparr>)))
                  | (r, s) \<Rightarrow> (r, set_part i p (b\<lparr>bs_sq := s\<rparr>)))
               else (Ok (), create_record sha args t (set_part i p b)))
         else
           (case exec_done api (pt_commit p) [] (bs_sq b) of
              (r, s) \<Rightarrow> (r, set_part i p (b\<lparr>bs_sq := s\<rparr>))))"

definition handle_create :: "'s sqlite_api \<Rightarrow> (string \<Rightarrow> string) \<Rightarrow> create_args \<Rightarrow> nat \<Rightarrow> bool \<times> bool \<Rightarrow>
    db_record \<Rightarrow> 's bench \<Rightarrow> unit outcome \<times> 's bench" where
  "handle_create api sha args t fw rec b =
     (let i = unat (dr_partition rec); p = bs_parts b ! i
      in case (if pt_cur_tx p = 0 then exec_done api (pt_begin p) [] (bs_sq b) else (Ok (), bs_sq b)) of
           (Ok _, s) \<Rightarrow>
            (case exec_done api (pt_insert p) (insert_args rec) s of
               (Ok _, s) \<Rightarrow>
                (case write_keys fw rec p of
                   (True, p) \<Rightarrow> finish_create api sha args t i p (b\<lparr>bs_sq := s\<rparr>)
                 | (False, p) \<Rightarrow> (Throw (Other_exn ''keys_write''), set_part i p (b\<lparr>bs_sq := s\<rparr>)))
             | (r, s) \<Rightarrow> (r, b\<lparr>bs_sq := s\<rparr>))
         | (r, s) \<Rightarrow> (r, b\<lparr>bs_sq := s\<rparr>))"

text \<open>
  A step of the running command: some thread takes some record that is in flight. An
  exception ends the handler only; a failed assertion ends the process.
\<close>

inductive create_step :: "'s sqlite_api \<Rightarrow> (string \<Rightarrow> string) \<Rightarrow> create_args \<Rightarrow>
    's bench \<Rightarrow> unit outcome \<Rightarrow> 's bench \<Rightarrow> bool" for api sha args where
  cs_handle: "bs_queue b = q1 @ rec # q2 \<Longrightarrow>
    handle_create api sha args t fw rec (b\<lparr>bs_queue := q1 @ q2\<rparr>) = (r, b') \<Longrightarrow>
    create_step api sha args b r b'"

text \<open>The state after \<open>worker::init\<close> with the number of requests of \<open>create\<close>.\<close>

definition create_init :: "(string \<Rightarrow> string) \<Rightarrow> create_args \<Rightarrow> 's bench \<Rightarrow> bool" where
  "create_init sha args b \<longleftrightarrow>
     (\<exists>b0 t. bs_queue b0 = [] \<and> bs_records b0 = 0 \<and> length (bs_parts b0) = unat (ca_partitions args) \<and>
        list_all (\<lambda>p. pt_cur_tx p = 0) (bs_parts b0) \<and>
        b = worker_init sha args t (min request_queue_max (ca_records args)) b0)"

section \<open>Lemmas\<close>

lemma partition_key_less: "unat (partition_key key) < 256"
  by (simp add: partition_key_def unat_of_char)

lemma update_partition_less:
  assumes "n \<noteq> (0 :: u64)"
  shows "unat (dr_partition (db_record_update sha n vs r)) < unat n"
proof -
  let ?k = "overwrite 0 (take key_sz (sha (dr_key r))) (resize key_sz (dr_key r))"
  have "unat (ucast (partition_key ?k) mod n :: u64) = unat (partition_key ?k) mod unat n"
    by (simp add: unat_mod_distrib)
  moreover have "unat (partition_key ?k) mod unat n < 256"
    by (rule le_less_trans [OF mod_less_eq_dividend partition_key_less])
  moreover have "unat (partition_key ?k) mod unat n < unat n" using assms by (simp add: unat_gt_0)
  ultimately have "unat (ucast (ucast (partition_key ?k) mod n :: u64) :: u32) < unat n"
    by (simp add: unsigned_ucast_eq take_bit_nat_eq_self)
  then show ?thesis by (simp add: db_record_update_def Let_def)
qed

definition parts_ok :: "create_args \<Rightarrow> 's bench \<Rightarrow> bool" where
  "parts_ok args b \<longleftrightarrow> length (bs_parts b) = unat (ca_partitions args) \<and>
     list_all (\<lambda>r. unat (dr_partition r) < unat (ca_partitions args)) (bs_queue b)"

lemma create_record_facts:
  "length (bs_queue (create_record sha args t b)) = Suc (length (bs_queue b))"
  "bs_records (create_record sha args t b) = bs_records b"
  "bs_parts (create_record sha args t b) = bs_parts b"
  by (simp_all add: create_record_def Let_def)

lemma create_record_parts_ok:
  assumes "parts_ok args b" and "ca_partitions args \<noteq> 0"
  shows "parts_ok args (create_record sha args t b)"
proof -
  have l: "length (bs_parts b) = unat (ca_partitions args)" using assms(1) by (simp add: parts_ok_def)
  have "unat (ca_partitions args) < 2 ^ 32" using unsigned_less [of "ca_partitions args", where ?'a = nat] by simp
  then have u: "unat (of_nat (length (bs_parts b)) :: u64) = length (bs_parts b)" using l by (simp add: unat_of_nat_64)
  then have "(of_nat (length (bs_parts b)) :: u64) \<noteq> 0"
    using assms(2) l by (metis unat_eq_zero unsigned_0)
  from update_partition_less [OF this] u assms(1) show ?thesis
    by (simp add: parts_ok_def create_record_def Let_def)
qed

lemma finish_create_facts:
  assumes "finish_create api sha args t i p b = (Ok (), b')" and "parts_ok args b" and "ca_partitions args \<noteq> 0"
  shows "bs_records b' = bs_records b + 1 \<and> parts_ok args b' \<and>
    length (bs_queue b') = length (bs_queue b) + (if ca_records args \<le> bs_records b + 1 then 0 else 1)"
proof -
  have ok: "parts_ok args (set_part i q (b\<lparr>bs_records := r, bs_sq := s\<rparr>))"
    "parts_ok args (set_part i q (b\<lparr>bs_records := r\<rparr>))" for q r s
    using assms(2) by (simp_all add: parts_ok_def set_part_def)
  show ?thesis
    using assms(1)
    by (auto simp: finish_create_def is_done_def Let_def create_record_facts ok
        create_record_parts_ok [OF _ assms(3)]
        split: if_splits prod.splits outcome.splits) (simp_all add: set_part_def)
qed

lemma handle_create_facts:
  assumes "handle_create api sha args t fw rec b = (Ok (), b')" and "parts_ok args b" and "ca_partitions args \<noteq> 0"
  shows "bs_records b' = bs_records b + 1 \<and> parts_ok args b' \<and>
    length (bs_queue b') = length (bs_queue b) + (if ca_records args \<le> bs_records b + 1 then 0 else 1)"
proof -
  obtain s p i where "finish_create api sha args t i p (b\<lparr>bs_sq := s\<rparr>) = (Ok (), b')"
    using assms(1) by (auto simp: handle_create_def Let_def split: prod.splits outcome.splits bool.splits if_splits)
  from finish_create_facts [OF this _ assms(3)] assms(2) show ?thesis by (simp add: parts_ok_def)
qed

text \<open>How many records are in flight, with \<open>n\<close> requests at the start.\<close>

definition in_flight_inv :: "create_args \<Rightarrow> 's bench \<Rightarrow> bool" where
  "in_flight_inv args b \<longleftrightarrow> parts_ok args b \<and>
     (let R = unat (ca_records args); n = min 1000 R; r = unat (bs_records b); q = length (bs_queue b)
      in if r < R then q = n else r + q = R - 1 + n)"

definition args_ok :: "create_args \<Rightarrow> bool" where
  "args_ok args \<longleftrightarrow> ca_partitions args \<noteq> 0 \<and> ca_records args \<noteq> 0 \<and> unat (ca_records args) + 1000 < 2 ^ 64"

lemma worker_init_facts:
  assumes "parts_ok args b" and "ca_partitions args \<noteq> 0"
  shows "parts_ok args ((create_record sha args t ^^ n) b) \<and>
    length (bs_queue ((create_record sha args t ^^ n) b)) = length (bs_queue b) + n \<and>
    bs_records ((create_record sha args t ^^ n) b) = bs_records b"
  by (induction n) (simp_all add: assms create_record_facts create_record_parts_ok)

lemma in_flight_init: "args_ok args \<Longrightarrow> create_init sha args b \<Longrightarrow> in_flight_inv args b"
proof -
  assume ok: "args_ok args" and "create_init sha args b"
  then obtain b0 t where b0: "bs_queue b0 = []" "bs_records b0 = 0" "parts_ok args b0"
    and b: "b = (create_record sha args t ^^ unat (min request_queue_max (ca_records args))) b0"
    by (auto simp: create_init_def worker_init_def parts_ok_def)
  have "unat (min request_queue_max (ca_records args)) = min 1000 (unat (ca_records args))"
    by (auto simp: min_def word_le_nat_alt request_queue_max_def)
  with worker_init_facts [OF b0(3)] b0 b ok show ?thesis
    by (simp add: in_flight_inv_def args_ok_def unat_gt_0)
qed

lemma in_flight_step:
  assumes ok: "args_ok args" and inv: "in_flight_inv args b" and "create_step api sha args b (Ok ()) b'"
  shows "in_flight_inv args b'"
  using assms(3)
proof cases
  case (cs_handle q1 rec q2 t fw)
  let ?R = "unat (ca_records args)" and ?r = "unat (bs_records b)"
  have "parts_ok args (b\<lparr>bs_queue := q1 @ q2\<rparr>)" using inv cs_handle(1) by (simp add: in_flight_inv_def parts_ok_def)
  from handle_create_facts [OF cs_handle(2) this] ok
  have f: "bs_records b' = bs_records b + 1" "parts_ok args b'"
    "length (bs_queue b') = length (q1 @ q2) + (if ca_records args \<le> bs_records b + 1 then 0 else 1)"
    by (simp_all add: args_ok_def)
  have q: "length (bs_queue b) = Suc (length (q1 @ q2))" using cs_handle(1) by simp
  have bound: "?r + 1 < 2 ^ 64"
    using inv ok by (auto simp: in_flight_inv_def args_ok_def Let_def split: if_splits)
  then have r: "unat (bs_records b + 1) = ?r + 1" by (simp add: unat_word_ariths)
  then have c: "ca_records args \<le> bs_records b + 1 \<longleftrightarrow> ?R \<le> ?r + 1" by (simp add: word_le_nat_alt)
  have "0 < ?R" using ok by (simp add: args_ok_def unat_gt_0)
  with f(2) inv show ?thesis
    unfolding in_flight_inv_def Let_def f(1,3) r c using q by (auto split: if_splits)
qed

interpretation creating: invariant_system "create_init sha args"
    "\<lambda>b b'. create_step api sha args b (Ok ()) b'" "\<lambda>b. args_ok args \<longrightarrow> in_flight_inv args b" for api sha args
  by unfold_locales (auto intro: in_flight_init in_flight_step)

section \<open>Reading the arguments\<close>

lemma takeWhile_digits: "list_all is_digit ds \<Longrightarrow> takeWhile is_digit (ds @ rest) = ds @ takeWhile is_digit rest"
  by (induction ds) simp_all

text \<open>Whatever follows the digits is ignored.\<close>

lemma from_chars_dec:
  assumes "rest = [] \<or> \<not> is_digit (hd rest)"
  shows "from_chars w (dec n @ rest) = (if n < 2 ^ w then Some n else None)"
proof -
  have "takeWhile is_digit rest = []" using assms by (cases rest) auto
  then have "takeWhile is_digit (dec n @ rest) = dec n" by (simp add: takeWhile_digits [OF dec_digits])
  then show ?thesis by (simp add: from_chars_def Let_def)
qed

lemma from_chars_dec_only: "from_chars w (dec n) = (if n < 2 ^ w then Some n else None)"
  using from_chars_dec [of "[]" w n] by simp

lemma from_chars_less: "from_chars w s = Some n \<Longrightarrow> n < 2 ^ w"
  by (auto simp: from_chars_def Let_def split: if_splits)

lemma unat_less_32: "unat (n :: u32) < 4294967296"
  using unsigned_less [of n, where ?'a = nat] by simp

lemma unat_less_64: "unat (n :: u64) < 18446744073709551616"
  using unsigned_less [of n, where ?'a = nat] by simp

definition create_argv :: "create_args \<Rightarrow> string list" where
  "create_argv a = [ca_path a, dec (unat (ca_partitions a)), dec (unat (ca_records a)), dec (unat (ca_value_sz a)),
     dec (unat (ca_cache_kib a)), dec (unat (ca_threads a))]"

definition create_args_valid :: "create_args \<Rightarrow> bool" where
  "create_args_valid a \<longleftrightarrow> partitions_min \<le> ca_partitions a \<and> ca_partitions a \<le> partitions_max \<and>
     1 \<le> ca_records a \<and> value_sz_min \<le> ca_value_sz a \<and> 1 \<le> ca_threads a"

definition accepted_args :: "u32 \<Rightarrow> string list \<Rightarrow> create_args option" where
  "accepted_args hw args = (case parse_create_args hw args of Ok (Inr a) \<Rightarrow> Some a | _ \<Rightarrow> None)"

lemma accepted_argv: "create_args_valid a \<Longrightarrow> accepted_args hw (create_argv a) = Some a"
  by (simp add: accepted_args_def parse_create_args_def create_argv_def create_args_valid_def from_chars_dec_only
      parse_threads_def word_le_nat_alt partitions_min_def partitions_max_def value_sz_min_def unat_less_32 unat_less_64)

lemma of_nat_le_32: "n < 4294967296 \<Longrightarrow> unat (of_nat n :: u32) = n"
  by (simp add: unsigned_of_nat take_bit_nat_eq_self_iff)

lemma of_nat_le_64: "n < 18446744073709551616 \<Longrightarrow> unat (of_nat n :: u64) = n"
  by (simp add: unsigned_of_nat take_bit_nat_eq_self_iff)

lemma parse_threads_valid: "parse_threads hw args = Ok (Inr th) \<Longrightarrow> 1 \<le> th"
  by (auto simp: parse_threads_def word_le_nat_alt of_nat_le_32 word_less_nat_alt dest: from_chars_less
      split: if_splits option.splits)

lemma accepted_valid: "accepted_args hw args = Some a \<Longrightarrow> create_args_valid a"
  by (auto simp: accepted_args_def parse_create_args_def create_args_valid_def word_le_nat_alt partitions_min_def
      partitions_max_def value_sz_min_def of_nat_le_32 of_nat_le_64 dest: from_chars_less dest!: parse_threads_valid
      split: if_splits option.splits outcome.splits sum.splits)

interpretation create_arguments: print_parse create_argv "accepted_args hw" create_args_valid for hw
  by unfold_locales (auto intro: accepted_argv accepted_valid)

section \<open>Properties\<close>

text \<open>
  The arguments of \<open>create\<close>. The printed form of any arguments is read back as the same
  arguments exactly when they are valid: one to 256 partitions, at least one record, a
  value of at least one byte, at least one thread; and no command line, printed or not, is
  ever accepted with other arguments than valid ones.
\<close>

lemma create_args_roundtrip:
  "(parse_create_args hw (create_argv a) = Ok (Inr a) \<longleftrightarrow> create_args_valid a) \<and>
   ((\<exists>args. parse_create_args hw args = Ok (Inr a)) \<longleftrightarrow> create_args_valid a)"
proof -
  have "parse_create_args hw args = Ok (Inr a) \<longleftrightarrow> accepted_args hw args = Some a" for args
    by (auto simp: accepted_args_def split: outcome.splits sum.splits)
  then show ?thesis using create_arguments.pr_faithful [of hw a] create_arguments.rd_range [of hw a] by simp
qed

end
