(* ===== verification/Bench_Transactions.thy ===== *)
theory Bench_Transactions
  imports Bench_Create
begin

text \<open>
  Transactions of the command \<open>create\<close>: each partition collects its records in transactions
  of \<open>transaction_sz\<close> records. What SQLite promises about \<open>begin\<close>, \<open>commit\<close> and an insert is
  the hypothesis \<open>tx_sqlite\<close>, with the partitions that are inside a transaction as a function
  of its state.
\<close>

section \<open>What SQLite promises\<close>

text \<open>Resetting, clearing and binding a statement succeed and touch no transaction.\<close>

definition tx_neutral :: "'s sqlite_api \<Rightarrow> (nat \<Rightarrow> 's \<Rightarrow> bool) \<Rightarrow> bool" where
  "tx_neutral api in_tx \<longleftrightarrow>
     (\<forall>h s j. in_tx j (sq_reset api h s) = in_tx j s) \<and>
     (\<forall>h s j. fst (sq_clear_bindings api h s) = 0 \<and> in_tx j (snd (sq_clear_bindings api h s)) = in_tx j s) \<and>
     (\<forall>h n a s j. fst (sq_bind api h n a s) = 0 \<and> in_tx j (snd (sq_bind api h n a s)) = in_tx j s)"

text \<open>
  Executing a statement of partition \<open>i\<close>: \<open>begin\<close> opens a transaction where none is open,
  \<open>commit\<close> closes an open one and is an error (\<open>SQLITE_ERROR\<close>) without one, and an insert
  succeeds and changes nothing about transactions.
\<close>

definition tx_part :: "'s sqlite_api \<Rightarrow> (nat \<Rightarrow> 's \<Rightarrow> bool) \<Rightarrow> nat \<Rightarrow> part \<Rightarrow> bool" where
  "tx_part api in_tx i p \<longleftrightarrow>
     (\<forall>s j. j \<noteq> i \<longrightarrow>
        in_tx j (snd (sq_step api (qy_stmt (pt_begin p)) s)) = in_tx j s \<and>
        in_tx j (snd (sq_step api (qy_stmt (pt_commit p)) s)) = in_tx j s \<and>
        in_tx j (snd (sq_step api (qy_stmt (pt_insert p)) s)) = in_tx j s) \<and>
     (\<forall>s. fst (sq_step api (qy_stmt (pt_insert p)) s) = 101 \<and>
        in_tx i (snd (sq_step api (qy_stmt (pt_insert p)) s)) = in_tx i s) \<and>
     (\<forall>s. \<not> in_tx i s \<longrightarrow> fst (sq_step api (qy_stmt (pt_begin p)) s) = 101 \<and>
        in_tx i (snd (sq_step api (qy_stmt (pt_begin p)) s))) \<and>
     (\<forall>s. fst (sq_step api (qy_stmt (pt_commit p)) s) = (if in_tx i s then 101 else 1) \<and>
        \<not> in_tx i (snd (sq_step api (qy_stmt (pt_commit p)) s)))"

definition tx_sqlite :: "'s sqlite_api \<Rightarrow> (nat \<Rightarrow> 's \<Rightarrow> bool) \<Rightarrow> part list \<Rightarrow> bool" where
  "tx_sqlite api in_tx ps \<longleftrightarrow> tx_neutral api in_tx \<and> (\<forall>i < length ps. tx_part api in_tx i (ps ! i))"

section \<open>Lemmas\<close>

lemma bind_all_neutral:
  "tx_neutral api in_tx \<Longrightarrow>
    \<exists>s'. bind_all api q i as s = (Ok (), s') \<and> (\<forall>j. in_tx j s' = in_tx j s)"
proof (induction as arbitrary: i s)
  case (Cons a as)
  then have b: "bind_arg_at api q i a s = (Ok (), snd (sq_bind api (qy_stmt q) (i + 1) a s))"
    and k: "in_tx j (snd (sq_bind api (qy_stmt q) (i + 1) a s)) = in_tx j s" for j
    by (simp_all add: tx_neutral_def bind_arg_at_def case_prod_beta)
  from Cons.IH [OF Cons.prems, of "i + 1" "snd (sq_bind api (qy_stmt q) (i + 1) a s)"] b k
  show ?case by auto
qed simp

lemma exec_done_neutral:
  assumes "tx_neutral api in_tx"
  obtains s' where "exec_done api q as s = step_done api q s'" and "\<And>j. in_tx j s' = in_tx j s"
proof -
  let ?s = "snd (sq_clear_bindings api (qy_stmt q) (sq_reset api (qy_stmt q) s))"
  have st: "query_start api q False s = (Ok (), ?s)" and k: "in_tx j ?s = in_tx j s" for j
    using assms by (simp_all add: tx_neutral_def query_start_def case_prod_beta)
  obtain s' where b: "bind_all api q 0 as ?s = (Ok (), s')" and k': "\<forall>j. in_tx j s' = in_tx j ?s"
    using bind_all_neutral [OF assms] by blast
  show thesis
  proof (rule that)
    show "exec_done api q as s = step_done api q s'" by (simp add: exec_done_def st b)
    show "in_tx j s' = in_tx j s" for j using k k' by simp
  qed
qed

lemma step_done_ok:
  "fst (sq_step api (qy_stmt q) s) = 101 \<Longrightarrow> step_done api q s = (Ok (), snd (sq_step api (qy_stmt q) s))"
  by (simp add: step_done_def next_row_def case_prod_beta signed_modulo_int_def)

lemma step_done_error:
  "fst (sq_step api (qy_stmt q) s) = 1 \<Longrightarrow>
    \<exists>m. step_done api q s = (Throw (Sqlite_error m), snd (sq_step api (qy_stmt q) s))"
  by (simp add: step_done_def next_row_def case_prod_beta signed_modulo_int_def query_error_def error_query_def)

text \<open>The three statements of a partition.\<close>

definition same_elsewhere :: "(nat \<Rightarrow> 's \<Rightarrow> bool) \<Rightarrow> nat \<Rightarrow> 's \<Rightarrow> 's \<Rightarrow> bool" where
  "same_elsewhere in_tx i s s' \<longleftrightarrow> (\<forall>j. j \<noteq> i \<longrightarrow> in_tx j s' = in_tx j s)"

lemma exec_begin:
  assumes "tx_sqlite api in_tx ps" "i < length ps" "\<not> in_tx i s"
  shows "\<exists>s'. exec_done api (pt_begin (ps ! i)) as s = (Ok (), s') \<and> in_tx i s' \<and> same_elsewhere in_tx i s s'"
proof -
  have n: "tx_neutral api in_tx" and p: "tx_part api in_tx i (ps ! i)"
    using assms(1,2) by (simp_all add: tx_sqlite_def)
  obtain s1 where s1: "exec_done api (pt_begin (ps ! i)) as s = step_done api (pt_begin (ps ! i)) s1"
    "\<And>j. in_tx j s1 = in_tx j s"
    using exec_done_neutral [OF n] by metis
  with p assms(3) show ?thesis
    by (simp add: tx_part_def same_elsewhere_def step_done_ok)
qed

lemma exec_insert:
  assumes "tx_sqlite api in_tx ps" "i < length ps"
  shows "\<exists>s'. exec_done api (pt_insert (ps ! i)) as s = (Ok (), s') \<and> in_tx i s' = in_tx i s \<and>
    same_elsewhere in_tx i s s'"
proof -
  have n: "tx_neutral api in_tx" and p: "tx_part api in_tx i (ps ! i)"
    using assms(1,2) by (simp_all add: tx_sqlite_def)
  obtain s1 where s1: "exec_done api (pt_insert (ps ! i)) as s = step_done api (pt_insert (ps ! i)) s1"
    "\<And>j. in_tx j s1 = in_tx j s"
    using exec_done_neutral [OF n] by metis
  with p show ?thesis by (simp add: tx_part_def same_elsewhere_def step_done_ok)
qed

lemma exec_commit_cases:
  assumes "tx_sqlite api in_tx ps" "i < length ps"
  obtains s' where "same_elsewhere in_tx i s s'" "\<not> in_tx i s'"
    "in_tx i s \<Longrightarrow> exec_done api (pt_commit (ps ! i)) as s = (Ok (), s')"
    "\<not> in_tx i s \<Longrightarrow> \<exists>m. exec_done api (pt_commit (ps ! i)) as s = (Throw (Sqlite_error m), s')"
proof -
  have n: "tx_neutral api in_tx" and p: "tx_part api in_tx i (ps ! i)"
    using assms(1,2) by (simp_all add: tx_sqlite_def)
  obtain s1 where s1: "exec_done api (pt_commit (ps ! i)) as s = step_done api (pt_commit (ps ! i)) s1"
    "\<And>j. in_tx j s1 = in_tx j s"
    using exec_done_neutral [OF n] by metis
  let ?q = "pt_commit (ps ! i)"
  have f: "fst (sq_step api (qy_stmt ?q) s1) = (if in_tx i s then 101 else 1)"
    "\<not> in_tx i (snd (sq_step api (qy_stmt ?q) s1))"
    "same_elsewhere in_tx i s (snd (sq_step api (qy_stmt ?q) s1))"
    using p s1(2) by (auto simp: tx_part_def same_elsewhere_def)
  show thesis
    by (rule that [OF f(3,2)]) (use f(1) s1(1) step_done_ok [of api ?q s1] step_done_error [of api ?q s1] in auto)
qed

text \<open>The statements of the partitions never change.\<close>

definition same_queries :: "part \<Rightarrow> part \<Rightarrow> bool" where
  "same_queries p p' \<longleftrightarrow> pt_begin p' = pt_begin p \<and> pt_insert p' = pt_insert p \<and> pt_commit p' = pt_commit p"

lemma tx_sqlite_update:
  assumes "tx_sqlite api in_tx ps" and "same_queries (ps ! i) p'"
  shows "tx_sqlite api in_tx (ps[i := p'])"
proof -
  have "tx_part api in_tx i p' = tx_part api in_tx i (ps ! i)"
    using assms(2) by (simp add: tx_part_def same_queries_def)
  then have "tx_part api in_tx j (ps[i := p'] ! j)" if "j < length ps" for j
    using assms(1) that by (cases "j = i") (simp_all add: tx_sqlite_def)
  with assms(1) show ?thesis by (simp add: tx_sqlite_def)
qed

lemma bench_update_swap:
  "b\<lparr>bs_sq := s, bs_records := r\<rparr> = b\<lparr>bs_records := r, bs_sq := s\<rparr>"
  by (cases b) simp

lemma write_keys_ok:
  "write_keys (True, True) rec p = (True, p\<lparr>pt_keys := pt_keys p @ keys_entry rec\<rparr>)"
  by (simp add: write_keys_def)

section \<open>The discipline of transactions\<close>

text \<open>A partition has an open transaction exactly while it counts records of one.\<close>

definition tx_inv :: "(nat \<Rightarrow> 's \<Rightarrow> bool) \<Rightarrow> 's bench \<Rightarrow> bool" where
  "tx_inv in_tx b \<longleftrightarrow> (\<forall>i < length (bs_parts b).
     (in_tx i (bs_sq b) \<longleftrightarrow> pt_cur_tx (bs_parts b ! i) \<noteq> 0) \<and> pt_cur_tx (bs_parts b ! i) < transaction_sz)"

lemma tx_inv_create_record: "tx_inv in_tx (create_record sha args t b) = tx_inv in_tx b"
  by (simp add: tx_inv_def create_record_def Let_def)

lemma tx_inv_update:
  assumes "tx_inv in_tx b" and "i < length (bs_parts b)" and "same_elsewhere in_tx i (bs_sq b) s'"
    and "in_tx i s' \<longleftrightarrow> pt_cur_tx p' \<noteq> 0" and "pt_cur_tx p' < transaction_sz"
  shows "tx_inv in_tx (set_part i p' (b\<lparr>bs_records := r, bs_sq := s'\<rparr>))"
  using assms by (auto simp: tx_inv_def set_part_def same_elsewhere_def nth_list_update)

text \<open>Up to the test of \<open>is_done\<close>, a handler always finds or opens a transaction.\<close>

lemma handle_create_opens:
  assumes "tx_sqlite api in_tx (bs_parts b)" and "tx_inv in_tx b" and i: "i = unat (dr_partition rec)"
    and "i < length (bs_parts b)"
  obtains s' where "handle_create api sha args t (True, True) rec b =
      finish_create api sha args t i ((bs_parts b ! i)\<lparr>pt_keys := pt_keys (bs_parts b ! i) @ keys_entry rec\<rparr>)
        (b\<lparr>bs_sq := s'\<rparr>)"
    and "in_tx i s'" and "same_elsewhere in_tx i (bs_sq b) s'"
proof -
  let ?p = "bs_parts b ! i"
  obtain s1 where s1: "(if pt_cur_tx ?p = 0 then exec_done api (pt_begin ?p) [] (bs_sq b) else (Ok (), bs_sq b)) =
      (Ok (), s1)" "in_tx i s1" "same_elsewhere in_tx i (bs_sq b) s1"
  proof (cases "pt_cur_tx ?p = 0")
    case True
    with assms(2,4) have "\<not> in_tx i (bs_sq b)" by (simp add: tx_inv_def)
    with exec_begin [OF assms(1,4)] True that show thesis by force
  next
    case False
    with assms(2,4) have "in_tx i (bs_sq b)" by (simp add: tx_inv_def)
    with False that show thesis by (simp add: same_elsewhere_def)
  qed
  obtain s2 where s2: "exec_done api (pt_insert ?p) (insert_args rec) s1 = (Ok (), s2)"
    "in_tx i s2" "same_elsewhere in_tx i s1 s2"
    using exec_insert [OF assms(1,4)] s1(2) by blast
  show thesis
  proof (rule that [of s2])
    show "handle_create api sha args t (True, True) rec b =
        finish_create api sha args t i (?p\<lparr>pt_keys := pt_keys ?p @ keys_entry rec\<rparr>) (b\<lparr>bs_sq := s2\<rparr>)"
      unfolding handle_create_def i [symmetric] Let_def s1(1) prod.case outcome.case s2(1)
      by (simp add: write_keys_ok)
  qed (use s1 s2 in \<open>auto simp: same_elsewhere_def\<close>)
qed

lemma cur_tx_Suc:
  assumes "n < transaction_sz"
  shows "n + 1 \<noteq> 0 \<and> (n + 1 = transaction_sz \<or> n + 1 < transaction_sz)"
proof -
  have "unat n < 100" using assms by (simp add: transaction_sz_def word_less_nat_alt)
  then have "unat (n + 1) = unat n + 1" by (simp add: unat_word_ariths)
  with \<open>unat n < 100\<close> show ?thesis
    by (auto simp: transaction_sz_def word_less_nat_alt word_unat_eq_iff)
qed

lemma finish_create_ok:
  assumes tx: "tx_sqlite api in_tx (bs_parts b)" and inv: "tx_inv in_tx b" and i: "i < length (bs_parts b)"
    and s: "in_tx i s" "same_elsewhere in_tx i (bs_sq b) s"
    and p: "p = (bs_parts b ! i)\<lparr>pt_keys := ks\<rparr>"
  shows "\<exists>b'. finish_create api sha args t i p (b\<lparr>bs_sq := s\<rparr>) = (Ok (), b') \<and>
    (\<not> ca_records args \<le> bs_records b + 1 \<longrightarrow> tx_inv in_tx b' \<and> tx_sqlite api in_tx (bs_parts b'))"
proof -
  have cur: "pt_cur_tx p < transaction_sz" using inv i by (simp add: p tx_inv_def)
  have q: "pt_commit p = pt_commit (bs_parts b ! i)" by (simp add: p)
  obtain s' where s': "same_elsewhere in_tx i s s'" "\<not> in_tx i s'"
    "exec_done api (pt_commit (bs_parts b ! i)) [] s = (Ok (), s')"
    using exec_commit_cases [OF tx i] s(1) by metis
  have els: "same_elsewhere in_tx i (bs_sq b) s'" using s(2) s'(1) by (simp add: same_elsewhere_def)
  show ?thesis
  proof (cases "ca_records args \<le> bs_records b + 1")
    case True
    with s'(3) q show ?thesis by (simp add: finish_create_def is_done_def)
  next
    case False
    let ?n = "pt_cur_tx p + 1"
    let ?p = "p\<lparr>pt_cur_tx := (if ?n = transaction_sz then 0 else ?n)\<rparr>"
    let ?s = "if ?n = transaction_sz then s' else s"
    let ?b = "create_record sha args t (set_part i ?p (b\<lparr>bs_records := bs_records b + 1, bs_sq := ?s\<rparr>))"
    have "finish_create api sha args t i p (b\<lparr>bs_sq := s\<rparr>) = (Ok (), ?b)"
      using False s'(3) q by (simp add: finish_create_def is_done_def bench_update_swap)
    moreover have "tx_inv in_tx ?b"
      unfolding tx_inv_create_record using inv i
      by (rule tx_inv_update) (use cur_tx_Suc [OF cur] s s'(2) els in \<open>auto simp: transaction_sz_def\<close>)
    moreover have "tx_sqlite api in_tx (bs_parts ?b)"
      using tx_sqlite_update [OF tx, of i ?p] by (simp add: create_record_facts set_part_def same_queries_def p)
    ultimately show ?thesis using False by blast
  qed
qed

text \<open>The invariant holds until the requested number of records is reached.\<close>

definition tx_phase :: "'s sqlite_api \<Rightarrow> (nat \<Rightarrow> 's \<Rightarrow> bool) \<Rightarrow> create_args \<Rightarrow> 's bench \<Rightarrow> bool" where
  "tx_phase api in_tx args b \<longleftrightarrow> in_flight_inv args b \<and>
     (unat (bs_records b) < unat (ca_records args) \<longrightarrow> tx_inv in_tx b \<and> tx_sqlite api in_tx (bs_parts b))"

definition tx_init :: "'s sqlite_api \<Rightarrow> (nat \<Rightarrow> 's \<Rightarrow> bool) \<Rightarrow> (string \<Rightarrow> string) \<Rightarrow> create_args \<Rightarrow> 's bench \<Rightarrow> bool" where
  "tx_init api in_tx sha args b \<longleftrightarrow> create_init sha args b \<and> tx_sqlite api in_tx (bs_parts b) \<and>
     (\<forall>i. \<not> in_tx i (bs_sq b))"

lemma handle_create_ok:
  assumes "tx_sqlite api in_tx (bs_parts b)" and "tx_inv in_tx b" and "unat (dr_partition rec) < length (bs_parts b)"
  shows "\<exists>b'. handle_create api sha args t (True, True) rec b = (Ok (), b') \<and>
    (\<not> ca_records args \<le> bs_records b + 1 \<longrightarrow> tx_inv in_tx b' \<and> tx_sqlite api in_tx (bs_parts b'))"
proof -
  obtain s' where "handle_create api sha args t (True, True) rec b =
      finish_create api sha args t (unat (dr_partition rec))
        ((bs_parts b ! unat (dr_partition rec))\<lparr>pt_keys := pt_keys (bs_parts b ! unat (dr_partition rec)) @ keys_entry rec\<rparr>)
        (b\<lparr>bs_sq := s'\<rparr>)"
    "in_tx (unat (dr_partition rec)) s'" "same_elsewhere in_tx (unat (dr_partition rec)) (bs_sq b) s'"
    using handle_create_opens [OF assms(1,2) refl assms(3)] by metis
  with finish_create_ok [OF assms(1-3) this(2,3) refl] show ?thesis by simp
qed

lemma write_keys_success:
  assumes "handle_create api sha args t fw rec b = (Ok (), b')"
    and "tx_sqlite api in_tx (bs_parts b)" and "tx_inv in_tx b" and "unat (dr_partition rec) < length (bs_parts b)"
  shows "fw = (True, True)"
proof -
  let ?i = "unat (dr_partition rec)" and ?p = "bs_parts b ! unat (dr_partition rec)"
  have "fst (write_keys fw rec ?p)"
    using assms(1) by (auto simp: handle_create_def Let_def split: prod.splits outcome.splits bool.splits)
  then show ?thesis by (cases fw) (simp add: write_keys_def)
qed

lemma create_init_parts:
  assumes "create_init sha args b"
  shows "list_all (\<lambda>p. pt_cur_tx p = 0) (bs_parts b)"
proof -
  have "bs_parts ((create_record sha args t ^^ n) b0) = bs_parts b0" for t n and b0 :: "'a bench"
    by (induction n) (simp_all add: create_record_facts)
  with assms show ?thesis by (auto simp: create_init_def worker_init_def)
qed

lemma tx_phase_init: "args_ok args \<Longrightarrow> tx_init api in_tx sha args b \<Longrightarrow> tx_phase api in_tx args b"
  using create_init_parts [of sha args b] in_flight_init [of args sha b]
  by (auto simp: tx_phase_def tx_init_def tx_inv_def list_all_length transaction_sz_def)

lemma tx_phase_step:
  assumes "args_ok args" and ph: "tx_phase api in_tx args b" and "create_step api sha args b (Ok ()) b'"
  shows "tx_phase api in_tx args b'"
proof -
  have fl: "in_flight_inv args b'" using assms in_flight_step by (auto simp: tx_phase_def)
  have "tx_inv in_tx b' \<and> tx_sqlite api in_tx (bs_parts b')" if less: "unat (bs_records b') < unat (ca_records args)"
    using assms(3)
  proof cases
    case (cs_handle q1 rec q2 t fw)
    let ?b = "b\<lparr>bs_queue := q1 @ q2\<rparr>"
    have fli: "in_flight_inv args b" using ph by (simp add: tx_phase_def)
    then have ok: "parts_ok args ?b" and part: "unat (dr_partition rec) < length (bs_parts ?b)"
      using cs_handle(1) by (simp_all add: in_flight_inv_def parts_ok_def)
    have rec: "bs_records b' = bs_records b + 1"
      using handle_create_facts [OF cs_handle(2) ok] assms(1) by (simp add: args_ok_def)
    have "unat (bs_records b) + 1 < 2 ^ 64"
      using fli assms(1) by (auto simp: in_flight_inv_def args_ok_def Let_def split: if_splits)
    then have u: "unat (bs_records b + 1) = unat (bs_records b) + 1" by (simp add: unat_word_ariths)
    with less rec have "\<not> ca_records args \<le> bs_records ?b + 1" and "unat (bs_records b) < unat (ca_records args)"
      by (simp_all add: word_le_nat_alt)
    moreover from this(2) ph have tx: "tx_sqlite api in_tx (bs_parts ?b)" "tx_inv in_tx ?b"
      by (simp_all add: tx_phase_def tx_inv_def)
    ultimately show ?thesis
      using handle_create_ok [OF tx part, of sha args t] write_keys_success [OF cs_handle(2) tx part] cs_handle(2)
      by auto
  qed
  with fl show ?thesis by (simp add: tx_phase_def)
qed

interpretation transactions: invariant_system "tx_init api in_tx sha args"
    "\<lambda>b b'. create_step api sha args b (Ok ()) b'" "\<lambda>b. args_ok args \<longrightarrow> tx_phase api in_tx args b" for api in_tx sha args
  by unfold_locales (auto intro: tx_phase_init tx_phase_step)

text \<open>Inside a counted transaction a handler inserts without \<open>begin\<close>, and at the end only commits.\<close>

lemma handle_create_final:
  assumes tx: "tx_sqlite api in_tx (bs_parts b)" and i: "i = unat (dr_partition rec)" "i < length (bs_parts b)"
    and "pt_cur_tx (bs_parts b ! i) \<noteq> 0" and "ca_records args \<le> bs_records b + 1"
  obtains r b' where "handle_create api sha args t (True, True) rec b = (r, b')"
    and "r = (if in_tx i (bs_sq b) then Ok () else r)"
    and "\<not> in_tx i (bs_sq b) \<Longrightarrow> \<exists>m. r = Throw (Sqlite_error m)"
    and "\<not> in_tx i (bs_sq b')" and "bs_records b' = bs_records b + 1" and "tx_sqlite api in_tx (bs_parts b')"
    and "length (bs_parts b') = length (bs_parts b)" and "pt_cur_tx (bs_parts b' ! i) = pt_cur_tx (bs_parts b ! i)"
proof -
  let ?p = "bs_parts b ! i"
  let ?p' = "?p\<lparr>pt_keys := pt_keys ?p @ keys_entry rec\<rparr>"
  obtain s1 where s1: "exec_done api (pt_insert ?p) (insert_args rec) (bs_sq b) = (Ok (), s1)"
    "in_tx i s1 = in_tx i (bs_sq b)"
    using exec_insert [OF tx i(2)] by metis
  have h: "handle_create api sha args t (True, True) rec b = finish_create api sha args t i ?p' (b\<lparr>bs_sq := s1\<rparr>)"
    using assms(4) s1(1) unfolding handle_create_def i(1) [symmetric] Let_def by (simp add: write_keys_ok)
  obtain s2 where s2: "\<not> in_tx i s2" "in_tx i s1 \<Longrightarrow> exec_done api (pt_commit ?p) [] s1 = (Ok (), s2)"
    "\<not> in_tx i s1 \<Longrightarrow> \<exists>m. exec_done api (pt_commit ?p) [] s1 = (Throw (Sqlite_error m), s2)"
    using exec_commit_cases [OF tx i(2)] by metis
  obtain r where r: "exec_done api (pt_commit ?p) [] s1 = (r, s2)"
    "in_tx i s1 \<Longrightarrow> r = Ok ()" "\<not> in_tx i s1 \<Longrightarrow> \<exists>m. r = Throw (Sqlite_error m)"
    using s2(2,3) by (cases "in_tx i s1") auto
  let ?b = "set_part i ?p' (b\<lparr>bs_records := bs_records b + 1, bs_sq := s2\<rparr>)"
  have "finish_create api sha args t i ?p' (b\<lparr>bs_sq := s1\<rparr>) = (r, ?b)"
    using assms(5) r(1) by (simp add: finish_create_def is_done_def)
  with h r s1(2) s2(1) i(2) tx_sqlite_update [OF tx, of i ?p'] show thesis
    by (intro that [of r ?b]) (auto simp: set_part_def same_queries_def)
qed

text \<open>
  A small database for the witnesses: it knows only which partitions are in a transaction;
  statement \<open>3 * i\<close> begins, \<open>3 * i + 1\<close> inserts and \<open>3 * i + 2\<close> commits in partition \<open>i\<close>.
\<close>

definition tx_demo :: "(nat \<Rightarrow> bool) sqlite_api" where
  "tx_demo = \<lparr>sq_open_v2 = (\<lambda>f fl s. ((0, Some 1), s)), sq_exec = (\<lambda>h q s. (0, s)),
     sq_close_v2 = (\<lambda>h s. (0, s)), sq_errmsg = (\<lambda>h s. ''no transaction is active''), sq_interrupt = (\<lambda>h s. s),
     sq_prepare_v3 = (\<lambda>h q n s. ((0, Some 7), s)), sq_finalize = (\<lambda>h s. s),
     sq_bind = (\<lambda>h i a s. (0, s)), sq_column_count = (\<lambda>h s. 0), sq_column_type = (\<lambda>h i s. 5),
     sq_column_int64 = (\<lambda>h i s. 0), sq_column_double = (\<lambda>h i s. 0),
     sq_column_text = (\<lambda>h i s. []), sq_column_blob = (\<lambda>h i s. []), sq_column_bytes = (\<lambda>h i s. 0),
     sq_step = (\<lambda>h s. if h mod 3 = 0 then (if s (h div 3) then 1 else 101, s(h div 3 := True))
                      else if h mod 3 = 1 then (101, s)
                      else (if s (h div 3) then 101 else 1, s(h div 3 := False))),
     sq_reset = (\<lambda>h s. s), sq_clear_bindings = (\<lambda>h s. (0, s))\<rparr>"

definition demo_stmt :: "nat \<Rightarrow> query" where
  "demo_stmt h = \<lparr>qy_db = \<lparr>cn_file = ''f'', cn_db = 1\<rparr>, qy_sql = [], qy_sql_id = [], qy_stmt = h\<rparr>"

definition demo_part :: "u32 \<Rightarrow> part" where
  "demo_part n = \<lparr>pt_idx = 0, pt_begin = demo_stmt 0, pt_insert = demo_stmt 1, pt_commit = demo_stmt 2,
     pt_get = demo_stmt 4, pt_update = demo_stmt 5, pt_conn = \<lparr>cn_file = ''f'', cn_db = 1\<rparr>, pt_cur_tx = n, pt_keys = []\<rparr>"

definition demo_args :: create_args where
  "demo_args = \<lparr>ca_path = ''db'', ca_partitions = 1, ca_records = 2, ca_value_sz = 1, ca_cache_kib = 0, ca_threads = 1\<rparr>"

definition demo_sha :: "string \<Rightarrow> string" where
  "demo_sha k = replicate 32 (CHR ''A'')"

definition demo_sha_record :: "u32 \<Rightarrow> db_record" where
  "demo_sha_record i = \<lparr>dr_partition = i, dr_hash = 0, dr_counter = 0, dr_key = [], dr_value = []\<rparr>"

definition demo_start :: "(nat \<Rightarrow> bool) bench" where
  "demo_start = worker_init demo_sha demo_args 0 2
     \<lparr>bs_parts = [demo_part 0], bs_queue = [], bs_records = 0, bs_rec = (\<lambda>t. db_record_thread_init 1 2), bs_sq = (\<lambda>i. False)\<rparr>"

lemma tx_demo_ok: "tx_sqlite tx_demo (\<lambda>i s. s i) [demo_part n]"
  by (simp add: tx_sqlite_def tx_neutral_def tx_part_def tx_demo_def demo_part_def demo_stmt_def)

lemma demo_args_ok: "args_ok demo_args"
  by (simp add: args_ok_def demo_args_def)

lemma demo_part_cur [simp]: "pt_cur_tx (demo_part n) = n"
  by (simp add: demo_part_def)

lemma demo_start_eq: "demo_start = create_record demo_sha demo_args 0 (create_record demo_sha demo_args 0
     \<lparr>bs_parts = [demo_part 0], bs_queue = [], bs_records = 0, bs_rec = (\<lambda>t. db_record_thread_init 1 2), bs_sq = (\<lambda>i. False)\<rparr>)"
proof -
  have "unat (2 :: u64) = Suc (Suc 0)" by simp
  then show ?thesis unfolding demo_start_def worker_init_def by (simp only: funpow.simps o_apply id_apply)
qed

lemma demo_start_parts: "bs_parts demo_start = [demo_part 0]" "bs_sq demo_start = (\<lambda>i. False)"
    "bs_records demo_start = 0"
  by (simp_all add: demo_start_eq create_record_def Let_def)

lemma demo_start_init: "tx_init tx_demo (\<lambda>i s. s i) demo_sha demo_args demo_start"
proof -
  have "min request_queue_max (ca_records demo_args) = 2"
    by (simp add: request_queue_max_def demo_args_def min_def word_le_nat_alt)
  then have "create_init demo_sha demo_args demo_start"
    unfolding create_init_def demo_start_def
    by (intro exI conjI) (simp_all add: demo_args_def demo_part_def)
  then show ?thesis by (simp add: tx_init_def demo_start_parts tx_demo_ok)
qed

section \<open>Properties\<close>

text \<open>
  C26: while records are still to be created, nothing fails. In every state that the running
  command reaches before the requested number, with SQLite behaving as documented, the handler
  of any record in flight succeeds on any thread: it begins a transaction only where none is
  open and commits only an open one.
\<close>

theorem create_without_failure:
  assumes "args_ok args" and "reach (tx_init api in_tx sha args) (\<lambda>b b'. create_step api sha args b (Ok ()) b') b"
    and "unat (bs_records b) < unat (ca_records args)" and "bs_queue b = q1 @ rec # q2"
  shows "\<exists>b'. handle_create api sha args t (True, True) rec (b\<lparr>bs_queue := q1 @ q2\<rparr>) = (Ok (), b') \<and>
    create_step api sha args b (Ok ()) b'"
proof -
  let ?b = "b\<lparr>bs_queue := q1 @ q2\<rparr>"
  have ph: "tx_phase api in_tx args b" using transactions.reachable_inv [OF assms(2)] assms(1) by blast
  then have "tx_sqlite api in_tx (bs_parts ?b)" "tx_inv in_tx ?b" "unat (dr_partition rec) < length (bs_parts ?b)"
    using assms(3,4) by (simp_all add: tx_phase_def tx_inv_def in_flight_inv_def parts_ok_def)
  from handle_create_ok [OF this] obtain b' where
    "handle_create api sha args t (True, True) rec ?b = (Ok (), b')" by blast
  with assms(4) show ?thesis by (blast intro: cs_handle)
qed

theorem create_without_failure_witness:
  "\<exists>rec q b'. bs_queue demo_start = rec # q \<and>
     handle_create tx_demo demo_sha demo_args 3 (True, True) rec (demo_start\<lparr>bs_queue := q\<rparr>) = (Ok (), b')"
proof -
  obtain rec q where q: "bs_queue demo_start = [] @ rec # q"
    by (simp add: demo_start_eq create_record_def Let_def)
  have less: "unat (bs_records demo_start) < unat (ca_records demo_args)"
    by (simp add: demo_start_parts demo_args_def)
  have "reach (tx_init tx_demo (\<lambda>i s. s i) demo_sha demo_args)
      (\<lambda>b b'. create_step tx_demo demo_sha demo_args b (Ok ()) b') demo_start"
    by (rule reach_init) (rule demo_start_init)
  from create_without_failure [OF demo_args_ok this less q, of 3] q show ?thesis by auto
qed

text \<open>
  After the requested number the discipline breaks. \<open>cur_tx\<close> is not reset by the final
  commit, so the next record in flight for the same partition is inserted outside of any
  transaction and its commit fails with an exception.
\<close>

lemma late_record_fails:
  assumes "tx_sqlite api in_tx (bs_parts b)" and "in_tx i (bs_sq b)" and "pt_cur_tx (bs_parts b ! i) \<noteq> 0"
    and "i < length (bs_parts b)" and "i = unat (dr_partition rec1)" and "i = unat (dr_partition rec2)"
    and "unat (ca_records args) \<le> unat (bs_records b) + 1" and "unat (bs_records b) + 2 < 2 ^ 64"
    and "handle_create api sha args t1 (True, True) rec1 b = (r1, b1)"
    and "handle_create api sha args t2 (True, True) rec2 b1 = (r2, b2)"
  shows "r1 = Ok () \<and> (\<exists>m. r2 = Throw (Sqlite_error m))"
proof -
  have u1: "unat (bs_records b + 1) = unat (bs_records b) + 1"
    and u2: "unat (bs_records b + 1 + 1) = unat (bs_records b) + 2"
    using assms(8) by (simp_all add: unat_word_ariths)
  have R1: "ca_records args \<le> bs_records b + 1" using assms(7) u1 by (simp add: word_le_nat_alt)
  have R2: "ca_records args \<le> bs_records b + 1 + 1" using assms(7) u2 by (simp add: word_le_nat_alt)
  obtain b1' r1' where f: "handle_create api sha args t1 (True, True) rec1 b = (r1', b1')"
    "r1' = (if in_tx i (bs_sq b) then Ok () else r1')" "\<not> in_tx i (bs_sq b1')"
    "bs_records b1' = bs_records b + 1" "tx_sqlite api in_tx (bs_parts b1')"
    "length (bs_parts b1') = length (bs_parts b)" "pt_cur_tx (bs_parts b1' ! i) = pt_cur_tx (bs_parts b ! i)"
    using handle_create_final [OF assms(1,5,4,3) R1, of sha t1] by metis
  then have b1: "b1' = b1" "r1' = r1" using assms(9) by simp_all
  have "i < length (bs_parts b1)" "pt_cur_tx (bs_parts b1 ! i) \<noteq> 0" "ca_records args \<le> bs_records b1 + 1"
    "tx_sqlite api in_tx (bs_parts b1)" "\<not> in_tx i (bs_sq b1)"
    using f b1 assms(3,4) R2 by simp_all
  then have "\<exists>m. r2 = Throw (Sqlite_error m)"
    using handle_create_final [OF _ assms(6), of api in_tx b1 args sha t2] assms(10) by (metis prod.inject)
  with f(2) b1(2) assms(2) show ?thesis by simp
qed

theorem late_record_fails_witness:
  "\<exists>r1 b1 r2 b2 m.
     handle_create tx_demo demo_sha demo_args 0 (True, True) (demo_sha_record 0)
       \<lparr>bs_parts = [demo_part 1], bs_queue = [], bs_records = 1, bs_rec = (\<lambda>t. demo_sha_record 0), bs_sq = (\<lambda>i. True)\<rparr> = (r1, b1) \<and>
     handle_create tx_demo demo_sha demo_args 0 (True, True) (demo_sha_record 0) b1 = (r2, b2) \<and>
     r1 = Ok () \<and> r2 = Throw (Sqlite_error m)"
proof -
  let ?b = "\<lparr>bs_parts = [demo_part 1], bs_queue = [], bs_records = 1, bs_rec = (\<lambda>t. demo_sha_record 0), bs_sq = (\<lambda>i :: nat. True)\<rparr>"
  obtain r1 b1 where h1: "handle_create tx_demo demo_sha demo_args 0 (True, True) (demo_sha_record 0) ?b = (r1, b1)"
    by fastforce
  obtain r2 b2 where h2: "handle_create tx_demo demo_sha demo_args 0 (True, True) (demo_sha_record 0) b1 = (r2, b2)"
    by fastforce
  have "r1 = Ok () \<and> (\<exists>m. r2 = Throw (Sqlite_error m))"
    by (rule late_record_fails [OF _ _ _ _ _ _ _ _ h1 h2, where in_tx = "\<lambda>i s. s i" and i = 0])
      (simp_all add: tx_demo_ok demo_sha_record_def demo_args_def)
  with h1 h2 show ?thesis by blast
qed

text \<open>
  The command makes more records than requested. Every run without failures handles
  exactly \<open>RECORDS - 1 + min 1000 RECORDS\<close> records and then has none in flight, so it ends,
  although the usage promises \<open>RECORDS\<close> in total.
\<close>

lemma records_created:
  assumes "args_ok args" and "reach (create_init sha args) (\<lambda>b b'. create_step api sha args b (Ok ()) b') b"
    and "n = unat (ca_records args) - 1 + min 1000 (unat (ca_records args))"
  shows "unat (bs_records b) \<le> n \<and> (bs_queue b = [] \<longleftrightarrow> unat (bs_records b) = n)"
proof -
  have "in_flight_inv args b" using creating.reachable_inv [OF assms(2)] assms(1) by blast
  moreover have "0 < unat (ca_records args)" using assms(1) by (simp add: args_ok_def unat_gt_0)
  ultimately show ?thesis
    unfolding in_flight_inv_def assms(3) Let_def
    by (cases "unat (bs_records b) < unat (ca_records args)"; cases "bs_queue b") auto
qed

theorem records_created_witness:
  "unat (bs_records demo_start) \<le> 3 \<and> bs_queue demo_start \<noteq> []"
  using records_created [OF demo_args_ok, of demo_sha tx_demo demo_start, OF reach_init refl]
    demo_start_init by (simp add: tx_init_def demo_start_parts demo_args_def)

end
