(* ===== verification/Bench_Requests.thy ===== *)
theory Bench_Requests
  imports Bench_Create
begin

text \<open>
  The command \<open>requests\<close> of the benchmark program: its arguments, the choice of the next
  request, the handlers that read, insert or update one record, the counters, and the timing of
  the log messages. Random numbers, the clock and SQLite are inputs of the operations. An
  access outside a vector and a division by zero end the process (\<open>Abort\<close>).
\<close>

section \<open>Arguments\<close>

record requests_args = create_args +
  ra_keys :: string
  ra_time :: int
  ra_inserts :: dbl
  ra_updates :: dbl

text \<open>
  \<open>next_arg\<close> followed by the conversion of the argument: a missing one shows the usage, a wrong
  one logs a message before.
\<close>

definition read_arg :: "string list \<Rightarrow> nat \<Rightarrow> (string \<Rightarrow> 'a option) \<Rightarrow> string \<Rightarrow> string + 'a" where
  "read_arg args i conv msg =
     (if length args \<le> i then Inl [] else case conv (args ! i) of None \<Rightarrow> Inl msg | Some v \<Rightarrow> Inr v)"

fun and_then :: "'e + 'a \<Rightarrow> ('a \<Rightarrow> 'e + 'b) \<Rightarrow> 'e + 'b" where
  "and_then (Inl e) f = Inl e"
| "and_then (Inr a) f = f a"

definition check :: "('a \<Rightarrow> bool) \<Rightarrow> 'a option \<Rightarrow> 'a option" where
  "check ok v = (case v of None \<Rightarrow> None | Some x \<Rightarrow> if ok x then Some x else None)"

definition dbl_one :: dbl where "dbl_one = F_fin 1 0"

text \<open>A fraction is refused when it is less than 0 or greater than 1.\<close>

definition read_fraction :: "string \<Rightarrow> dbl option" where
  "read_fraction s = check (\<lambda>v. \<not> fless v f32_zero \<and> \<not> fless dbl_one v) (from_chars_dbl s)"

definition parse_fixed_args :: "string list \<Rightarrow> string + requests_args" where
  "parse_fixed_args args =
     and_then (read_arg args 0 Some []) (\<lambda>path.
     and_then (read_arg args 1 Some []) (\<lambda>keys.
     and_then (read_arg args 2 (\<lambda>s. check (\<lambda>n. unat partitions_min \<le> n \<and> n \<le> unat partitions_max) (from_chars 32 s))
       ''Number of partitions (PARTITIONS) must be between 1 and 256'') (\<lambda>ps.
     and_then (read_arg args 3 (\<lambda>s. check (\<lambda>n. 1 \<le> n) (from_chars 32 s))
       ''Invalid number of seconds for test duration'') (\<lambda>secs.
     and_then (read_arg args 4 read_fraction ''Fraction of INSERT requests must be between 0.0 and 1.0'') (\<lambda>ins.
     and_then (read_arg args 5 read_fraction ''Fraction of UPDATE requests must be between 0.0 and 1.0'') (\<lambda>upd.
     if fless dbl_one (dadd ins upd) then Inl ''Sum of INSERT and UPDATE must be at most 1.0''
     else
     and_then (read_arg args 6 (\<lambda>s. check (\<lambda>n. unat value_sz_min \<le> n) (from_chars 64 s))
       ''Value size (VALUE_SZ) must be at least 1'') (\<lambda>vs.
     and_then (read_arg args 7 (from_chars 32) ''Invalid number of KiB of memory to use as the page cache'') (\<lambda>ck.
       Inr \<lparr>ca_path = path, ca_partitions = of_nat ps, ca_records = 0, ca_value_sz = of_nat vs,
            ca_cache_kib = of_nat ck, ca_threads = 0, ra_keys = keys, ra_time = int secs * 1000000000,
            ra_inserts = ins, ra_updates = upd\<rparr>))))))))"

definition parse_requests_args :: "u32 \<Rightarrow> string list \<Rightarrow> (string + requests_args) outcome" where
  "parse_requests_args hw args =
     (case parse_fixed_args args of
        Inl m \<Rightarrow> Ok (Inl m)
      | Inr r \<Rightarrow>
          if 8 < length args then
            (case check (\<lambda>n. 1 \<le> n) (from_chars 32 (args ! 8)) of
               None \<Rightarrow> Ok (Inl ''Number of threads (THREADS) must be at least 1'')
             | Some th \<Rightarrow> if length args \<noteq> 9 then Ok (Inl []) else Ok (Inr (r\<lparr>ca_threads := of_nat th\<rparr>)))
          else if hw > 0 then Ok (Inr (r\<lparr>ca_threads := hw\<rparr>)) else Abort)"

section \<open>Timing of log messages\<close>

text \<open>One second, in nanoseconds; the time point 0 is the default \<open>time_point{}\<close>.\<close>

definition second_ns :: int where "second_ns = 1000000000"

text \<open>\<open>time_ref::test\<close>: what follows the exchange of \<open>tt\<close>, for the old value \<open>t\<close>.\<close>

definition test_store :: "int \<Rightarrow> int \<Rightarrow> bool \<times> int" where
  "test_store tnow t =
     (if t = 0 then (False, 0) else if second_ns \<le> tnow - t then (True, tnow) else (False, t))"

text \<open>\<open>time_ref::duration\<close>, for the start and the last report.\<close>

definition time_duration :: "int \<Rightarrow> int \<Rightarrow> int \<Rightarrow> (int \<times> int) \<times> int" where
  "time_duration now t0 t1 = (if t0 = 0 then ((0, 0), t1) else ((now - t1, now - t0), now))"

section \<open>The worker\<close>

datatype request = Rq_get | Rq_update | Rq_insert

datatype pending = Pd_get u32 u64 | Pd_update u32 u64 | Pd_insert db_record

record counts =
  ct_records :: u64
  ct_gets :: u64
  ct_updates :: u64
  ct_inserts :: u64

definition zero_counts :: counts where
  "zero_counts = \<lparr>ct_records = 0, ct_gets = 0, ct_updates = 0, ct_inserts = 0\<rparr>"

fun count_request :: "request \<Rightarrow> counts \<Rightarrow> counts" where
  "count_request Rq_get c = c\<lparr>ct_records := ct_records c + 1, ct_gets := ct_gets c + 1\<rparr>"
| "count_request Rq_update c = c\<lparr>ct_records := ct_records c + 1, ct_updates := ct_updates c + 1\<rparr>"
| "count_request Rq_insert c = c\<lparr>ct_records := ct_records c + 1, ct_inserts := ct_inserts c + 1\<rparr>"

record 's rbench =
  rb_parts :: "part list"
  rb_queue :: "pending list"
  rb_keys :: known_key_generator
  rb_total :: counts
  rb_interval :: counts
  rb_t0 :: int
  rb_tt :: int
  rb_rec :: "nat \<Rightarrow> db_record"
  rb_sq :: 's

text \<open>The random number, the random key and the thread of a call of \<open>create_request\<close>.\<close>

record choice =
  ch_random :: dbl
  ch_key :: u64
  ch_thread :: nat

definition choose_request :: "requests_args \<Rightarrow> dbl \<Rightarrow> request" where
  "choose_request args r =
     (if fless r (ra_inserts args) then Rq_insert
      else if fless r (dadd (ra_inserts args) (ra_updates args)) then Rq_update
      else Rq_get)"

definition post_request :: "pending \<Rightarrow> 's rbench \<Rightarrow> 's rbench" where
  "post_request p b = b\<lparr>rb_queue := rb_queue b @ [p]\<rparr>"

text \<open>\<open>request_get\<close> and \<open>request_update\<close> differ only in the handler they post.\<close>

definition request_known :: "(u32 \<Rightarrow> u64 \<Rightarrow> pending) \<Rightarrow> u64 \<Rightarrow> 's rbench \<Rightarrow> unit outcome \<times> 's rbench" where
  "request_known pd rnd b =
     (case get_key rnd (rb_keys b) of
        None \<Rightarrow> (Abort, b)
      | Some k \<Rightarrow>
          if unat (kk_partition k) < length (rb_parts b)
          then (Ok (), post_request (pd (kk_partition k) (kk_hash k)) b) else (Abort, b))"

definition request_insert :: "(string \<Rightarrow> string) \<Rightarrow> requests_args \<Rightarrow> nat \<Rightarrow> 's rbench \<Rightarrow> unit outcome \<times> 's rbench" where
  "request_insert sha args t b =
     (let rec = db_record_update sha (of_nat (length (rb_parts b))) (ca_value_sz args) (rb_rec b t)
      in (Ok (), post_request (Pd_insert rec) (b\<lparr>rb_rec := (rb_rec b)(t := rec)\<rparr>)))"

definition create_request :: "(string \<Rightarrow> string) \<Rightarrow> requests_args \<Rightarrow> choice \<Rightarrow> 's rbench \<Rightarrow> unit outcome \<times> 's rbench" where
  "create_request sha args ch b =
     (case choose_request args (ch_random ch) of
        Rq_insert \<Rightarrow> request_insert sha args (ch_thread ch) b
      | Rq_update \<Rightarrow> request_known Pd_update (ch_key ch) b
      | Rq_get \<Rightarrow> request_known Pd_get (ch_key ch) b)"

text \<open>\<open>worker::init\<close> with one choice per request, before the clock is started.\<close>

fun init_requests :: "(string \<Rightarrow> string) \<Rightarrow> requests_args \<Rightarrow> choice list \<Rightarrow> 's rbench \<Rightarrow> unit outcome \<times> 's rbench" where
  "init_requests sha args [] b = (Ok (), b)"
| "init_requests sha args (ch # chs) b =
     (case create_request sha args ch b of
        (Ok _, b) \<Rightarrow> init_requests sha args chs b
      | (r, b) \<Rightarrow> (r, b))"

definition requests_init :: "(string \<Rightarrow> string) \<Rightarrow> requests_args \<Rightarrow> choice list \<Rightarrow> int \<Rightarrow> 's rbench \<Rightarrow>
    unit outcome \<times> 's rbench" where
  "requests_init sha args chs now b =
     (case init_requests sha args chs b of
        (Ok _, b) \<Rightarrow> (Ok (), b\<lparr>rb_t0 := now, rb_tt := now\<rparr>)
      | (r, b) \<Rightarrow> (r, b))"

text \<open>\<open>worker::is_done\<close>: count, report at most once a second, and compare with the duration.\<close>

definition requests_is_done :: "requests_args \<Rightarrow> request \<Rightarrow> int \<Rightarrow> 's rbench \<Rightarrow> bool \<times> 's rbench" where
  "requests_is_done args req now b =
     (let b = b\<lparr>rb_total := count_request req (rb_total b), rb_interval := count_request req (rb_interval b)\<rparr>;
          (test, tt) = test_store now (rb_tt b);
          b = b\<lparr>rb_tt := tt\<rparr>;
          b = (if test then b\<lparr>rb_interval := zero_counts\<rparr> else b)
      in (ra_time args \<le> now - rb_t0 b, b))"

section \<open>Handlers\<close>

text \<open>\<open>std::get\<close> on a column; the exception of the variant is \<open>None\<close>.\<close>

fun get_string :: "column_value \<Rightarrow> string option" where
  "get_string (Cv_string s) = Some s"
| "get_string _ = None"

fun get_int64 :: "column_value \<Rightarrow> int option" where
  "get_int64 (Cv_int64 n) = Some n"
| "get_int64 _ = None"

definition bad_variant :: exn where "bad_variant = Other_exn ''bad_variant_access''"

text \<open>A query by hash, up to its first row.\<close>

definition query_hash :: "'s sqlite_api \<Rightarrow> query \<Rightarrow> u64 \<Rightarrow> 's \<Rightarrow> status outcome \<times> 's" where
  "query_hash api q hash s =
     (case query_start api q False s of
        (Ok _, s) \<Rightarrow>
         (case bind_int64 api q 0 (to_int64 (int (unat hash))) s of
            (Ok _, s) \<Rightarrow> next_row api q 0 s
          | (Throw e, s) \<Rightarrow> (Throw e, s)
          | (Abort, s) \<Rightarrow> (Abort, s))
      | (Throw e, s) \<Rightarrow> (Throw e, s)
      | (Abort, s) \<Rightarrow> (Abort, s))"

definition get_row :: "'s sqlite_api \<Rightarrow> query \<Rightarrow> 's \<Rightarrow> unit outcome \<times> 's" where
  "get_row api q s =
     (if column_count api q s \<noteq> 3 then (Abort, s)
      else case (get_string (get_column api q 0 s), get_int64 (get_column api q 1 s), get_string (get_column api q 2 s)) of
        (Some _, Some _, Some _) \<Rightarrow> step_done api q s
      | _ \<Rightarrow> (Throw bad_variant, s))"

definition select_record :: "'s sqlite_api \<Rightarrow> part \<Rightarrow> u64 \<Rightarrow> 's \<Rightarrow> unit outcome \<times> 's" where
  "select_record api p hash s =
     (case query_hash api (pt_get p) hash s of
        (Ok St_row, s) \<Rightarrow> get_row api (pt_get p) s
      | (Ok St_done, s) \<Rightarrow> (Ok (), s)
      | (Ok St_locked, s) \<Rightarrow> (Abort, s)
      | (Throw e, s) \<Rightarrow> (Throw e, s)
      | (Abort, s) \<Rightarrow> (Abort, s))"

text \<open>The loop over the rows an update returns counts them; \<open>None\<close> when the fuel runs out.\<close>

fun count_rows :: "'s sqlite_api \<Rightarrow> query \<Rightarrow> nat \<Rightarrow> int \<Rightarrow> 's \<Rightarrow> (int outcome \<times> 's) option" where
  "count_rows api q 0 n s = None"
| "count_rows api q (Suc fuel) n s =
     (case next_row api q 0 s of
        (Ok St_row, s) \<Rightarrow> count_rows api q fuel (n + 1) s
      | (Ok _, s) \<Rightarrow> Some (Ok n, s)
      | (Throw e, s) \<Rightarrow> Some (Throw e, s)
      | (Abort, s) \<Rightarrow> Some (Abort, s))"

definition update_rows :: "'s sqlite_api \<Rightarrow> query \<Rightarrow> nat \<Rightarrow> 's \<Rightarrow> (int outcome \<times> 's) option" where
  "update_rows api q fuel s =
     (if column_count api q s \<noteq> 2 then Some (Abort, s)
      else case (get_string (get_column api q 0 s), get_int64 (get_column api q 1 s)) of
        (Some _, Some _) \<Rightarrow> count_rows api q fuel 1 s
      | _ \<Rightarrow> Some (Throw bad_variant, s))"

definition update_record :: "'s sqlite_api \<Rightarrow> nat \<Rightarrow> part \<Rightarrow> u64 \<Rightarrow> 's \<Rightarrow> (int outcome \<times> 's) option" where
  "update_record api fuel p hash s =
     (case query_hash api (pt_update p) hash s of
        (Ok St_row, s) \<Rightarrow> update_rows api (pt_update p) fuel s
      | (Ok St_done, s) \<Rightarrow> Some (Ok 0, s)
      | (Ok St_locked, s) \<Rightarrow> Some (Abort, s)
      | (Throw e, s) \<Rightarrow> Some (Throw e, s)
      | (Abort, s) \<Rightarrow> Some (Abort, s))"

text \<open>The common end of the handlers: another request unless the time is over.\<close>

definition finish_request :: "(string \<Rightarrow> string) \<Rightarrow> requests_args \<Rightarrow> choice \<Rightarrow> int \<Rightarrow> request \<Rightarrow> 'a outcome \<times> 's \<Rightarrow>
    's rbench \<Rightarrow> unit outcome \<times> 's rbench" where
  "finish_request sha args ch now req res b =
     (case res of
        (Ok _, s) \<Rightarrow>
          (let (fin, b) = requests_is_done args req now (b\<lparr>rb_sq := s\<rparr>)
           in if fin then (Ok (), b) else create_request sha args ch b)
      | (Throw e, s) \<Rightarrow> (Throw e, b\<lparr>rb_sq := s\<rparr>)
      | (Abort, s) \<Rightarrow> (Abort, b\<lparr>rb_sq := s\<rparr>))"

definition handle_request :: "'s sqlite_api \<Rightarrow> (string \<Rightarrow> string) \<Rightarrow> requests_args \<Rightarrow> nat \<Rightarrow> choice \<Rightarrow> int \<Rightarrow> pending \<Rightarrow>
    's rbench \<Rightarrow> (unit outcome \<times> 's rbench) option" where
  "handle_request api sha args fuel ch now pd b =
     (case pd of
        Pd_get i hash \<Rightarrow>
          Some (finish_request sha args ch now Rq_get
            (select_record api (rb_parts b ! unat i) hash (rb_sq b)) b)
      | Pd_insert rec \<Rightarrow>
          Some (finish_request sha args ch now Rq_insert
            (exec_done api (pt_insert (rb_parts b ! unat (dr_partition rec))) (insert_args rec) (rb_sq b)) b)
      | Pd_update i hash \<Rightarrow>
          map_option (\<lambda>res. finish_request sha args ch now Rq_update res b)
            (update_record api fuel (rb_parts b ! unat i) hash (rb_sq b)))"

text \<open>
  A step of the running command: some thread takes a request that is waiting, at a time that
  is not earlier than any time before.
\<close>

inductive requests_step :: "'s sqlite_api \<Rightarrow> (string \<Rightarrow> string) \<Rightarrow> requests_args \<Rightarrow>
    's rbench \<Rightarrow> unit outcome \<Rightarrow> 's rbench \<Rightarrow> bool" for api sha args where
  rs_handle: "rb_queue b = q1 @ pd # q2 \<Longrightarrow> rb_tt b \<le> now \<Longrightarrow>
    handle_request api sha args fuel ch now pd (b\<lparr>rb_queue := q1 @ q2\<rparr>) = Some (r, b') \<Longrightarrow>
    requests_step api sha args b r b'"

section \<open>Reports under concurrency\<close>

text \<open>
  \<open>time_ref::test\<close> in many threads: a thread that takes the value of \<open>tt\<close> leaves 0 behind and
  stores a value again unless it found 0. \<open>ts_held\<close> has the threads between the two accesses,
  with their time and the value they took; \<open>ts_reports\<close> the times of the reports.
\<close>

record tt_state =
  ts_tt :: int
  ts_held :: "(nat \<times> int \<times> int) list"
  ts_reports :: "int list"

definition tt_store :: "int \<Rightarrow> int \<Rightarrow> tt_state \<Rightarrow> tt_state" where
  "tt_store tnow t s =
     (if t = 0 then s
      else s\<lparr>ts_tt := snd (test_store tnow t),
             ts_reports := ts_reports s @ (if fst (test_store tnow t) then [tnow] else [])\<rparr>)"

inductive tt_step :: "tt_state \<Rightarrow> tt_state \<Rightarrow> bool" where
  tt_exchange: "tt_step s (s\<lparr>ts_tt := 0, ts_held := (i, tnow, ts_tt s) # ts_held s\<rparr>)"
| tt_stored: "ts_held s = h1 @ (i, tnow, t) # h2 \<Longrightarrow> tt_step s (tt_store tnow t (s\<lparr>ts_held := h1 @ h2\<rparr>))"

definition tt_init :: "int \<Rightarrow> tt_state \<Rightarrow> bool" where
  "tt_init t0 s \<longleftrightarrow> 0 < t0 \<and> s = \<lparr>ts_tt = t0, ts_held = [], ts_reports = []\<rparr>"

text \<open>The one value different from 0, wherever it is, is the time of the last report.\<close>

definition tokens :: "tt_state \<Rightarrow> int list" where
  "tokens s = filter (\<lambda>t. t \<noteq> 0) (ts_tt s # map (snd \<circ> snd) (ts_held s))"

abbreviation second_apart :: "int \<Rightarrow> int \<Rightarrow> bool" where
  "second_apart x y \<equiv> x + second_ns \<le> y"

definition tt_inv :: "int \<Rightarrow> tt_state \<Rightarrow> bool" where
  "tt_inv t0 s \<longleftrightarrow> 0 < t0 \<and> tokens s = [last (t0 # ts_reports s)] \<and> successively second_apart (t0 # ts_reports s) \<and>
     t0 \<le> last (t0 # ts_reports s)"

lemma tt_inv_store:
  assumes inv: "tt_inv t0 s" and h: "ts_held s = h1 @ (i, tnow, t) # h2"
  shows "tt_inv t0 (tt_store tnow t (s\<lparr>ts_held := h1 @ h2\<rparr>))"
proof (cases "t = 0")
  case True
  with h have "tokens (s\<lparr>ts_held := h1 @ h2\<rparr>) = tokens s" by (simp add: tokens_def)
  with inv True show ?thesis by (simp add: tt_store_def tt_inv_def)
next
  case False
  let ?rs = "t0 # ts_reports s"
  from inv have tk: "tokens s = [last ?rs]" and pos: "0 < t0" "t0 \<le> last ?rs" and ap: "successively second_apart ?rs"
    by (simp_all add: tt_inv_def)
  from tk h False have tt: "ts_tt s = 0" "t = last ?rs" "filter (\<lambda>t. t \<noteq> 0) (map (snd \<circ> snd) (h1 @ h2)) = []"
    by (auto simp: tokens_def append_eq_Cons_conv split: if_splits)
  have "successively second_apart (?rs @ [tnow])" if "second_ns \<le> tnow - t"
    using that ap tt(2) by (simp add: successively_append_iff del: successively.simps(3) append_Cons)
  with tt pos False ap show ?thesis
    by (auto simp: tt_store_def tt_inv_def test_store_def tokens_def second_ns_def)
qed

interpretation reports: invariant_system "tt_init t0" tt_step "tt_inv t0" for t0
proof
  show "tt_init t0 s \<Longrightarrow> tt_inv t0 s" for s by (auto simp: tt_init_def tt_inv_def tokens_def)
  show "tt_inv t0 s \<Longrightarrow> tt_step s u \<Longrightarrow> tt_inv t0 u" for s u
  proof (erule tt_step.cases)
    fix v i tnow
    assume "tt_inv t0 s" "s = v" "u = v\<lparr>ts_tt := 0, ts_held := (i, tnow, ts_tt v) # ts_held v\<rparr>"
    then show "tt_inv t0 u" by (simp add: tt_inv_def tokens_def)
  qed (auto intro: tt_inv_store)
qed

section \<open>Requests in flight\<close>

definition keys_ok :: "known_key_generator \<Rightarrow> nat \<Rightarrow> bool" where
  "keys_ok g n \<longleftrightarrow> (\<forall>rnd. \<exists>k. get_key rnd g = Some k \<and> unat (kk_partition k) < n)"

fun pending_part :: "pending \<Rightarrow> u32" where
  "pending_part (Pd_get i h) = i"
| "pending_part (Pd_update i h) = i"
| "pending_part (Pd_insert rec) = dr_partition rec"

definition balanced :: "counts \<Rightarrow> bool" where
  "balanced c \<longleftrightarrow> ct_records c = ct_gets c + ct_updates c + ct_inserts c"

definition requests_inv :: "requests_args \<Rightarrow> 's rbench \<Rightarrow> bool" where
  "requests_inv args b \<longleftrightarrow> length (rb_parts b) = unat (ca_partitions args) \<and> ca_partitions args \<noteq> 0 \<and>
     keys_ok (rb_keys b) (unat (ca_partitions args)) \<and>
     list_all (\<lambda>pd. unat (pending_part pd) < unat (ca_partitions args)) (rb_queue b) \<and>
     balanced (rb_total b) \<and> balanced (rb_interval b) \<and> length (rb_queue b) \<le> unat request_queue_max"

text \<open>The state in which the threads start, with the requests of \<open>worker::init\<close>.\<close>

definition requests_start :: "(string \<Rightarrow> string) \<Rightarrow> requests_args \<Rightarrow> 's rbench \<Rightarrow> bool" where
  "requests_start sha args b \<longleftrightarrow>
     (\<exists>chs now b0. length chs = unat request_queue_max \<and> rb_queue b0 = [] \<and> rb_total b0 = zero_counts \<and>
        rb_interval b0 = zero_counts \<and> length (rb_parts b0) = unat (ca_partitions args) \<and> ca_partitions args \<noteq> 0 \<and>
        keys_ok (rb_keys b0) (unat (ca_partitions args)) \<and> requests_init sha args chs now b0 = (Ok (), b))"

lemma count_balanced: "balanced c \<Longrightarrow> balanced (count_request req c)"
  by (cases req) (simp_all add: balanced_def)

lemma zero_balanced: "balanced zero_counts"
  by (simp add: balanced_def zero_counts_def)

lemma create_request_ok:
  assumes "length (rb_parts b) = unat (ca_partitions args)" and "ca_partitions args \<noteq> 0"
    and "keys_ok (rb_keys b) (unat (ca_partitions args))"
  shows "\<exists>pd f. create_request sha args ch b = (Ok (), b\<lparr>rb_rec := f, rb_queue := rb_queue b @ [pd]\<rparr>) \<and>
    unat (pending_part pd) < unat (ca_partitions args)"
proof -
  obtain k where k: "get_key (ch_key ch) (rb_keys b) = Some k" "unat (kk_partition k) < unat (ca_partitions args)"
    using assms(3) by (auto simp: keys_ok_def)
  have u: "unat (of_nat (length (rb_parts b)) :: u64) = unat (ca_partitions args)"
    unfolding assms(1) by (rule unat_of_nat_64) (use unat_less_32 in simp)
  then have "(of_nat (length (rb_parts b)) :: u64) \<noteq> 0" using assms(2) by (metis unat_eq_zero unsigned_0)
  let ?rec = "db_record_update sha (of_nat (length (rb_parts b))) (ca_value_sz args) (rb_rec b (ch_thread ch))"
  have p: "unat (dr_partition ?rec) < unat (ca_partitions args)"
    using update_partition_less [OF \<open>of_nat (length (rb_parts b)) \<noteq> 0\<close>] u by metis
  show ?thesis
  proof (cases "choose_request args (ch_random ch)")
    case Rq_insert
    with p show ?thesis
      by (intro exI [of _ "Pd_insert ?rec"] exI [of _ "(rb_rec b)(ch_thread ch := ?rec)"])
        (simp add: create_request_def request_insert_def post_request_def Let_def)
  qed (use k assms(1) in \<open>auto simp: create_request_def request_known_def post_request_def intro!: exI [of _ "rb_rec b"]\<close>)
qed

lemma init_requests_inv:
  assumes "requests_inv args b" and "length (rb_queue b) + length chs \<le> unat request_queue_max"
  shows "\<exists>b'. init_requests sha args chs b = (Ok (), b') \<and> requests_inv args b' \<and>
    length (rb_queue b') = length (rb_queue b) + length chs"
  using assms
proof (induction chs arbitrary: b)
  case (Cons ch chs)
  then obtain pd f where c: "create_request sha args ch b = (Ok (), b\<lparr>rb_rec := f, rb_queue := rb_queue b @ [pd]\<rparr>)"
    and pd: "unat (pending_part pd) < unat (ca_partitions args)"
    using create_request_ok [of b args sha ch] by (auto simp: requests_inv_def)
  let ?b = "b\<lparr>rb_rec := f, rb_queue := rb_queue b @ [pd]\<rparr>"
  have "requests_inv args ?b" "length (rb_queue ?b) + length chs \<le> unat request_queue_max"
    using Cons.prems pd by (simp_all add: requests_inv_def)
  from Cons.IH [OF this] show ?case by (simp add: c)
qed simp

lemma requests_inv_start: "requests_start sha args b \<Longrightarrow> requests_inv args b"
proof -
  assume "requests_start sha args b"
  then obtain chs now b0 where b0: "length chs = unat request_queue_max" "rb_queue b0 = []" "requests_inv args b0"
    and i: "requests_init sha args chs now b0 = (Ok (), b)"
    by (auto simp: requests_start_def requests_inv_def balanced_def zero_counts_def)
  from init_requests_inv [OF b0(3), of chs sha] b0 i show ?thesis
    by (auto simp: requests_init_def requests_inv_def)
qed

text \<open>One finished request: it is counted once, and replaced unless the time is over.\<close>

lemma finish_request_inv:
  assumes "requests_inv args b" and "length (rb_queue b) < unat request_queue_max"
    and "finish_request sha args ch now req res b = (Ok (), b')"
  shows "requests_inv args b'" and "rb_total b' = count_request req (rb_total b)" and "rb_t0 b' = rb_t0 b"
    and "length (rb_queue b') = length (rb_queue b) + (if ra_time args \<le> now - rb_t0 b then 0 else 1)"
proof -
  obtain v s where res: "res = (Ok v, s)" using assms(3) by (cases res; cases "fst res") (auto simp: finish_request_def)
  obtain fin b1 where d: "requests_is_done args req now (b\<lparr>rb_sq := s\<rparr>) = (fin, b1)" by fastforce
  have b1: "fin \<longleftrightarrow> ra_time args \<le> now - rb_t0 b" "requests_inv args b1" "rb_queue b1 = rb_queue b"
    "rb_total b1 = count_request req (rb_total b)" "rb_t0 b1 = rb_t0 b"
    using d assms(1)
    by (auto simp: requests_is_done_def requests_inv_def count_balanced zero_balanced Let_def
        split: prod.splits if_splits)
  have r: "(if fin then (Ok (), b1) else create_request sha args ch b1) = (Ok (), b')"
    using assms(3) res d by (simp add: finish_request_def)
  show "requests_inv args b'" "rb_total b' = count_request req (rb_total b)" "rb_t0 b' = rb_t0 b"
    "length (rb_queue b') = length (rb_queue b) + (if ra_time args \<le> now - rb_t0 b then 0 else 1)"
    using r b1 create_request_ok [of b1 args sha ch] assms(2)
    by (auto simp: requests_inv_def split: if_splits)
qed
lemma handle_request_inv:
  assumes "requests_inv args b" and "length (rb_queue b) < unat request_queue_max"
    and "handle_request api sha args fuel ch now pd b = Some (Ok (), b')"
  shows "requests_inv args b' \<and> (\<exists>req. rb_total b' = count_request req (rb_total b)) \<and> rb_t0 b' = rb_t0 b \<and>
    length (rb_queue b') = length (rb_queue b) + (if ra_time args \<le> now - rb_t0 b then 0 else 1)"
proof -
  show ?thesis
  proof (cases pd)
    case (Pd_update i h)
    then obtain res :: "int outcome \<times> 'a" where "finish_request sha args ch now Rq_update res b = (Ok (), b')"
      using assms(3) by (auto simp: handle_request_def)
    from finish_request_inv [OF assms(1,2) this] show ?thesis by blast
  next
    case (Pd_get i h)
    then obtain res :: "unit outcome \<times> 'a" where "finish_request sha args ch now Rq_get res b = (Ok (), b')"
      using assms(3) by (auto simp: handle_request_def)
    from finish_request_inv [OF assms(1,2) this] show ?thesis by blast
  next
    case (Pd_insert r)
    then obtain res :: "unit outcome \<times> 'a" where "finish_request sha args ch now Rq_insert res b = (Ok (), b')"
      using assms(3) by (auto simp: handle_request_def)
    from finish_request_inv [OF assms(1,2) this] show ?thesis by blast
  qed
qed

lemma requests_inv_step:
  assumes "requests_inv args b" and "requests_step api sha args b (Ok ()) b'"
  shows "requests_inv args b'"
  using assms(2)
proof cases
  case (rs_handle q1 pd q2 now fuel ch)
  let ?b = "b\<lparr>rb_queue := q1 @ q2\<rparr>"
  have "requests_inv args ?b" "length (rb_queue ?b) < unat request_queue_max"
    using assms(1) rs_handle(1) by (simp_all add: requests_inv_def)
  from handle_request_inv [OF this rs_handle(3)] show ?thesis by blast
qed

text \<open>A file with one key, for the witness.\<close>

definition one_key :: known_key_generator where
  "one_key = \<lparr>kg_data = replicate 5 nul, kg_sz = 1, kg_added = []\<rparr>"

lemma one_key_ok: "keys_ok one_key 1"
  by (simp add: keys_ok_def one_key_def get_key_def)

definition one_part_args :: requests_args where
  "one_part_args = \<lparr>ca_path = ''p'', ca_partitions = 1, ca_records = 0, ca_value_sz = 1, ca_cache_kib = 0, ca_threads = 1,
     ra_keys = ''k'', ra_time = 1000000000, ra_inserts = F_fin 1 (- 1), ra_updates = F_fin 0 0\<rparr>"

definition idle_bench :: "part \<Rightarrow> 's \<Rightarrow> 's rbench" where
  "idle_bench p s = \<lparr>rb_parts = [p], rb_queue = [], rb_keys = one_key, rb_total = zero_counts, rb_interval = zero_counts,
     rb_t0 = 0, rb_tt = 0, rb_rec = (\<lambda>_. db_record_thread_init 1 2), rb_sq = s\<rparr>"

lemma idle_bench_start:
  "\<exists>b. requests_start sha one_part_args b \<and> rb_sq b = s \<and> length (rb_queue b) = 1000"
proof -
  let ?chs = "replicate 1000 \<lparr>ch_random = F_fin 0 0, ch_key = 0, ch_thread = 0\<rparr>" and ?b = "idle_bench p s"
  have "requests_inv one_part_args ?b"
    using one_key_ok by (simp add: requests_inv_def one_part_args_def idle_bench_def zero_balanced)
  from init_requests_inv [OF this, of ?chs sha] obtain b where
    b: "init_requests sha one_part_args ?chs ?b = (Ok (), b)" "length (rb_queue b) = 1000"
    by (auto simp: request_queue_max_def idle_bench_def)
  have sq: "rb_sq c = rb_sq a" if "init_requests sha one_part_args chs a = (Ok (), c)" for chs and a c :: "'a rbench"
    using that
  proof (induction chs arbitrary: a)
    case (Cons ch chs)
    then show ?case
      by (auto simp: create_request_def request_known_def request_insert_def post_request_def Let_def
          split: prod.splits outcome.splits request.splits option.splits if_splits)
  qed simp
  have "requests_start sha one_part_args (b\<lparr>rb_t0 := 5, rb_tt := 5\<rparr>)"
    unfolding requests_start_def
    by (rule exI [of _ ?chs], rule exI [of _ 5], rule exI [of _ ?b])
      (use b one_key_ok in \<open>simp add: requests_init_def request_queue_max_def one_part_args_def idle_bench_def\<close>)
  with b sq [OF b(1)] show ?thesis by (intro exI [of _ "b\<lparr>rb_t0 := 5, rb_tt := 5\<rparr>"]) (simp add: idle_bench_def)
qed

interpretation requesting: invariant_system "requests_start sha args"
    "\<lambda>b b'. requests_step api sha args b (Ok ()) b'" "requests_inv args" for api sha args
  by unfold_locales (auto intro: requests_inv_start requests_inv_step)

section \<open>Accepted arguments\<close>

lemma and_then_Inr: "and_then x f = Inr b \<longleftrightarrow> (\<exists>a. x = Inr a \<and> f a = Inr b)"
  by (cases x) simp_all

lemma read_arg_Inr: "read_arg args i conv msg = Inr v \<longleftrightarrow> i < length args \<and> conv (args ! i) = Some v"
  by (auto simp: read_arg_def split: option.splits)

lemma check_Some: "check ok v = Some x \<longleftrightarrow> v = Some x \<and> ok x"
  by (auto simp: check_def split: option.splits)

lemma parse_fixed_accepted:
  assumes "parse_fixed_args args = Inr a"
  shows "8 \<le> length args \<and> partitions_min \<le> ca_partitions a \<and> ca_partitions a \<le> partitions_max \<and>
    1000000000 \<le> ra_time a \<and> ra_time a \<le> int64_max \<and> value_sz_min \<le> ca_value_sz a \<and>
    ca_path a = args ! 0 \<and> ra_keys a = args ! 1 \<and>
    \<not> fless (ra_inserts a) f32_zero \<and> \<not> fless dbl_one (ra_inserts a) \<and>
    \<not> fless (ra_updates a) f32_zero \<and> \<not> fless dbl_one (ra_updates a) \<and>
    \<not> fless dbl_one (dadd (ra_inserts a) (ra_updates a))"
proof -
  obtain ps secs ins upd vs ck where p: "7 < length args"
    "from_chars 32 (args ! 2) = Some ps" "unat partitions_min \<le> ps" "ps \<le> unat partitions_max"
    "from_chars 32 (args ! 3) = Some secs" "1 \<le> secs"
    "read_fraction (args ! 4) = Some ins" "read_fraction (args ! 5) = Some upd" "\<not> fless dbl_one (dadd ins upd)"
    "from_chars 64 (args ! 6) = Some vs" "unat value_sz_min \<le> vs"
    "a = \<lparr>ca_path = args ! 0, ca_partitions = of_nat ps, ca_records = 0, ca_value_sz = of_nat vs,
            ca_cache_kib = of_nat ck, ca_threads = 0, ra_keys = args ! 1, ra_time = int secs * 1000000000,
            ra_inserts = ins, ra_updates = upd\<rparr>"
    using assms unfolding parse_fixed_args_def and_then_Inr read_arg_Inr check_Some
    by (auto simp: and_then_Inr read_arg_Inr check_Some split: if_splits)
  have "secs < 4294967296" "vs < 18446744073709551616" using from_chars_less [OF p(5)] from_chars_less [OF p(10)] by simp_all
  then have "int secs * 1000000000 \<le> int64_max" "unat (of_nat vs :: u64) = vs" by (simp_all add: of_nat_le_64)
  moreover have "unat (of_nat ps :: u32) = ps" using from_chars_less [OF p(2)] by (simp add: of_nat_le_32)
  ultimately show ?thesis
    using p by (simp add: word_le_nat_alt read_fraction_def check_Some)
qed

lemma demo_numbers:
  "from_chars 32 ''2'' = Some 2" "from_chars 32 ''10'' = Some 10" "from_chars 64 ''100'' = Some 100" "from_chars 32 ''0'' = Some 0"
  by (simp_all add: from_chars_def is_digit_def undec_def digit_val_def)

lemma demo_fractions:
  "read_fraction ''0.25'' = Some (F_fin 4503599627370496 (- 54))" "read_fraction ''0.5'' = Some (F_fin 4503599627370496 (- 53))"
  "read_fraction ''nan'' = Some F_nan" "\<not> fless dbl_one (dadd (F_fin 4503599627370496 (- 54)) (F_fin 4503599627370496 (- 53)))"
  by code_simp+

lemma fless_nan [simp]: "\<not> fless x F_nan"
  by (cases x) simp_all

lemma demo_requests_parse:
  "\<exists>a. parse_requests_args 4 [''db'', ''keys'', ''2'', ''10'', ''0.25'', ''0.5'', ''100'', ''0''] = Ok (Inr a) \<and>
    ra_inserts a = F_fin 4503599627370496 (- 54)"
  "\<exists>a. parse_requests_args 4 [''db'', ''keys'', ''2'', ''10'', ''nan'', ''0.5'', ''100'', ''0''] = Ok (Inr a) \<and>
    ra_inserts a = F_nan"
  by (simp_all add: parse_requests_args_def parse_fixed_args_def read_arg_def check_def demo_numbers demo_fractions
      partitions_min_def partitions_max_def value_sz_min_def del: dadd.simps(1) fless.simps(1))

section \<open>Properties\<close>

text \<open>
  Reports are at least a second apart. However many threads test the time and however
  they interleave, every report comes at least one second after the report before it, and
  the first one at least one second after the start.
\<close>

lemma reports_second_apart:
  assumes "reach (tt_init t0) tt_step s"
  shows "successively (\<lambda>x y. x + 1000000000 \<le> y) (t0 # ts_reports s)"
  using reports.reachable_inv [OF assms] by (simp add: tt_inv_def second_ns_def)

theorem reports_second_apart_witness:
  "\<exists>s. reach (tt_init 7) tt_step s \<and> ts_reports s = [1000000007] \<and> successively (\<lambda>x y. x + 1000000000 \<le> y) (7 # ts_reports s)"
proof -
  let ?s0 = "\<lparr>ts_tt = 7, ts_held = [], ts_reports = []\<rparr>"
  let ?s1 = "?s0\<lparr>ts_tt := 0, ts_held := (1, 1000000007, ts_tt ?s0) # ts_held ?s0\<rparr>"
  let ?s2 = "?s1\<lparr>ts_tt := 0, ts_held := (2, 1000000009, ts_tt ?s1) # ts_held ?s1\<rparr>"
  let ?s3 = "tt_store 1000000007 7 (?s2\<lparr>ts_held := [(2, 1000000009, 0)] @ []\<rparr>)"
  have "reach (tt_init 7) tt_step ?s0" by (rule reach_init) (simp add: tt_init_def)
  then have "reach (tt_init 7) tt_step ?s1" by (rule reach_step) (rule tt_exchange)
  then have "reach (tt_init 7) tt_step ?s2" by (rule reach_step) (rule tt_exchange)
  moreover have "tt_step ?s2 ?s3" by (rule tt_stored [where i = 1]) simp
  ultimately have r: "reach (tt_init 7) tt_step ?s3" by (rule reach_step)
  from reports_second_apart [OF r] have "successively (\<lambda>x y. x + 1000000000 \<le> y) (7 # ts_reports ?s3)" .
  moreover have "ts_reports ?s3 = [1000000007]" by (simp add: tt_store_def test_store_def second_ns_def)
  ultimately show ?thesis using r by blast
qed



text \<open>
  The arguments of \<open>requests\<close>. Whatever is accepted has eight or nine arguments, one to 256
  partitions, a duration of at least one second that fits 64-bit nanoseconds, a value size
  and a number of threads of at least one, and neither fraction is below 0 or above 1.
\<close>

lemma requests_args_accepted:
  assumes "parse_requests_args hw args = Ok (Inr a)"
  shows "length args \<in> {8, 9} \<and> partitions_min \<le> ca_partitions a \<and> ca_partitions a \<le> partitions_max \<and>
    1000000000 \<le> ra_time a \<and> ra_time a \<le> int64_max \<and> value_sz_min \<le> ca_value_sz a \<and> 1 \<le> ca_threads a \<and>
    ca_path a = args ! 0 \<and> ra_keys a = args ! 1 \<and>
    \<not> fless (ra_inserts a) f32_zero \<and> \<not> fless dbl_one (ra_inserts a) \<and>
    \<not> fless (ra_updates a) f32_zero \<and> \<not> fless dbl_one (ra_updates a) \<and>
    \<not> fless dbl_one (dadd (ra_inserts a) (ra_updates a))"
proof -
  obtain r th where r: "parse_fixed_args args = Inr r" "a = r\<lparr>ca_threads := th\<rparr>" "1 \<le> th" "length args \<le> 9"
    using assms
    by (auto simp: parse_requests_args_def check_Some word_le_nat_alt word_less_nat_alt of_nat_le_32
        dest!: from_chars_less split: sum.splits if_splits option.splits)
  from parse_fixed_accepted [OF r(1)] r(2-4) show ?thesis by auto
qed

theorem requests_args_accepted_witness:
  "\<exists>a. parse_requests_args 4 [''db'', ''keys'', ''2'', ''10'', ''0.25'', ''0.5'', ''100'', ''0''] = Ok (Inr a) \<and>
     ca_partitions a \<le> partitions_max \<and> ra_time a \<le> int64_max \<and> ra_inserts a = F_fin 4503599627370496 (- 54)"
proof -
  let ?p = "parse_requests_args 4 [''db'', ''keys'', ''2'', ''10'', ''0.25'', ''0.5'', ''100'', ''0'']"
  obtain a where a: "?p = Ok (Inr a)" "ra_inserts a = F_fin 4503599627370496 (- 54)"
    using demo_requests_parse(1) by blast
  from requests_args_accepted [OF a(1)] a show ?thesis by blast
qed

text \<open>
  A fraction that is not a number is accepted, because every comparison with it is false;
  then no request is ever an insert or an update, whatever the other fraction.
\<close>

lemma nan_fraction_accepted:
  "\<exists>a. parse_requests_args 4 [''db'', ''keys'', ''2'', ''10'', ''nan'', ''0.5'', ''100'', ''0''] = Ok (Inr a) \<and>
     (\<forall>r. choose_request a r = Rq_get)"
proof -
  let ?p = "parse_requests_args 4 [''db'', ''keys'', ''2'', ''10'', ''nan'', ''0.5'', ''100'', ''0'']"
  have "\<exists>a. ?p = Ok (Inr a) \<and> ra_inserts a = F_nan" by (rule demo_requests_parse(2))
  then show ?thesis by (auto simp: choose_request_def)
qed

end
