(* ===== verification/Bench_Main.thy ===== *)
theory Bench_Main
  imports Bench_Transactions Bench_Requests
begin

text \<open>
  The commands of the benchmark program from their arguments to the start of the threads, the
  choice of the command and the exit code. Which files exist and what they contain, the
  number of processors and the contents of the records of the threads are inputs.
\<close>

section \<open>Opening all partitions\<close>

text \<open>The vector of partitions is destroyed from its first element on.\<close>

fun destroy_partitions :: "'s sqlite_api \<Rightarrow> part list \<Rightarrow> 's \<Rightarrow> unit outcome \<times> 's" where
  "destroy_partitions api [] s = (Ok (), s)"
| "destroy_partitions api (p # ps) s =
     (case partition_dtor api p s of
        (Ok _, s) \<Rightarrow> destroy_partitions api ps s
      | (_, s) \<Rightarrow> (Abort, s))"

definition leave :: "'a outcome \<Rightarrow> 's sqlite_api \<Rightarrow> part list \<Rightarrow> 's \<Rightarrow> 'a outcome \<times> 's" where
  "leave r api ps s =
     (case destroy_partitions api ps s of
        (Ok _, s) \<Rightarrow> (r, s)
      | (_, s) \<Rightarrow> (Abort, s))"

text \<open>\<open>Inl path\<close> when a file exists already.\<close>

fun open_partitions :: "'s sqlite_api \<Rightarrow> file_system \<Rightarrow> create_args \<Rightarrow> bool \<Rightarrow> u32 list \<Rightarrow> part list \<Rightarrow> 's \<Rightarrow>
    (string + part list) outcome \<times> 's" where
  "open_partitions api fs args create [] ps s = (Ok (Inr ps), s)"
| "open_partitions api fs args create (i # is) ps s =
     (case partition_ctor api fs args i create s of
        (Ok (Inr p), s) \<Rightarrow> open_partitions api fs args create is (ps @ [p]) s
      | (Ok (Inl path), s) \<Rightarrow> leave (Ok (Inl path)) api ps s
      | (Throw e, s) \<Rightarrow> leave (Throw e) api ps s
      | (Abort, s) \<Rightarrow> (Abort, s))"

definition partition_indices :: "u32 \<Rightarrow> u32 list" where
  "partition_indices n = map of_nat [0..<unat n]"

section \<open>Starting the commands\<close>

definition usage :: "bool \<Rightarrow> int" where
  "usage ok = (if ok then EXIT_SUCCESS else EXIT_FAILURE)"

text \<open>A command that has returned its exit code, or whose threads are about to run.\<close>

datatype 'b started = Finished int | Started 'b

definition create_bench :: "(string \<Rightarrow> string) \<Rightarrow> (nat \<Rightarrow> db_record) \<Rightarrow> nat \<Rightarrow> create_args \<Rightarrow> part list \<Rightarrow> 's \<Rightarrow> 's bench" where
  "create_bench sha recs t args ps s =
     worker_init sha args t (min request_queue_max (ca_records args))
       \<lparr>bs_parts = ps, bs_queue = [], bs_records = 0, bs_rec = recs, bs_sq = s\<rparr>"

definition create_cmd :: "'s sqlite_api \<Rightarrow> file_system \<Rightarrow> (string \<Rightarrow> string) \<Rightarrow> u32 \<Rightarrow> (nat \<Rightarrow> db_record) \<Rightarrow> nat \<Rightarrow>
    string list \<Rightarrow> 's \<Rightarrow> (thread_pool \<times> create_args \<times> 's bench) started outcome \<times> 's" where
  "create_cmd api fs sha hw recs t args s =
     (case parse_create_args hw args of
        Ok (Inl m) \<Rightarrow> (Ok (Finished (usage False)), s)
      | Ok (Inr a) \<Rightarrow>
         (case thread_pool_ctor (to_int32 (uint (ca_threads a))) ''main'' of
            Ok pool \<Rightarrow>
             (case open_partitions api fs a True (partition_indices (ca_partitions a)) [] s of
                (Ok (Inr ps), s) \<Rightarrow> (Ok (Started (pool, a, create_bench sha recs t a ps s)), s)
              | (Ok (Inl path), s) \<Rightarrow> (Ok (Finished EXIT_FAILURE), s)
              | (Throw e, s) \<Rightarrow> (Throw e, s)
              | (Abort, s) \<Rightarrow> (Abort, s))
          | Throw e \<Rightarrow> (Throw e, s)
          | Abort \<Rightarrow> (Abort, s))
      | Throw e \<Rightarrow> (Throw e, s)
      | Abort \<Rightarrow> (Abort, s))"

text \<open>\<open>keys\<close> gives the contents of a file; the exception of mapping it destroys the partitions.\<close>

definition requests_bench :: "known_key_generator \<Rightarrow> (nat \<Rightarrow> db_record) \<Rightarrow> part list \<Rightarrow> 's \<Rightarrow> 's rbench" where
  "requests_bench g recs ps s =
     \<lparr>rb_parts = ps, rb_queue = [], rb_keys = g, rb_total = zero_counts, rb_interval = zero_counts,
      rb_t0 = 0, rb_tt = 0, rb_rec = recs, rb_sq = s\<rparr>"

definition requests_cmd :: "'s sqlite_api \<Rightarrow> file_system \<Rightarrow> (string \<Rightarrow> string option) \<Rightarrow> (string \<Rightarrow> string) \<Rightarrow> u32 \<Rightarrow>
    (nat \<Rightarrow> db_record) \<Rightarrow> choice list \<Rightarrow> int \<Rightarrow> string list \<Rightarrow> 's \<Rightarrow>
    (thread_pool \<times> requests_args \<times> 's rbench) started outcome \<times> 's" where
  "requests_cmd api fs keys sha hw recs chs now args s =
     (case parse_requests_args hw args of
        Ok (Inl m) \<Rightarrow> (Ok (Finished (usage False)), s)
      | Ok (Inr a) \<Rightarrow>
         (case thread_pool_ctor (to_int32 (uint (ca_threads a))) ''main'' of
            Ok pool \<Rightarrow>
             (case open_partitions api fs (create_args.truncate a) False (partition_indices (ca_partitions a)) [] s of
                (Ok (Inr ps), s) \<Rightarrow>
                 (case known_key_generator_ctor (keys (ra_keys a)) of
                    None \<Rightarrow> leave (Throw (Other_exn ''keys_mmap'')) api ps s
                  | Some g \<Rightarrow>
                     (case requests_init sha a chs now (requests_bench g recs ps s) of
                        (Ok _, b) \<Rightarrow> (Ok (Started (pool, a, b)), s)
                      | (Throw e, b) \<Rightarrow> leave (Throw e) api ps s
                      | (Abort, b) \<Rightarrow> (Abort, s)))
              | (Ok (Inl path), s) \<Rightarrow> (Throw (Other_exn ''exists''), s)
              | (Throw e, s) \<Rightarrow> (Throw e, s)
              | (Abort, s) \<Rightarrow> (Abort, s))
          | Throw e \<Rightarrow> (Throw e, s)
          | Abort \<Rightarrow> (Abort, s))
      | Throw e \<Rightarrow> (Throw e, s)
      | Abort \<Rightarrow> (Abort, s))"

text \<open>After the threads have been joined: success, and the partitions are destroyed.\<close>

definition command_end :: "'s sqlite_api \<Rightarrow> part list \<Rightarrow> 's \<Rightarrow> int outcome \<times> 's" where
  "command_end api ps s = leave (Ok EXIT_SUCCESS) api ps s"

definition help_cmd :: int where
  "help_cmd = usage True"

section \<open>The choice of the command\<close>

datatype command = Cmd_create "string list" | Cmd_help | Cmd_requests "string list" | Cmd_usage

definition choose_command :: "string list \<Rightarrow> command" where
  "choose_command argv =
     (case argv of
        [] \<Rightarrow> Cmd_usage
      | cmd # args \<Rightarrow>
          if cmd = ''create'' then Cmd_create args
          else if cmd = ''help'' then Cmd_help
          else if cmd = ''requests'' then Cmd_requests args
          else Cmd_usage)"

text \<open>\<open>run\<close> without the name of the program: the option for the log level, then the command.\<close>

definition bench_run :: "string list \<Rightarrow> logger \<Rightarrow> command \<times> logger" where
  "bench_run argv lg =
     (if argv \<noteq> [] \<and> argv ! 0 = ''-l'' then
        (if length argv < 2 then (Cmd_usage, lg)
         else case from_string (argv ! 1) of
           Some l \<Rightarrow> (choose_command (drop 2 argv), set_level l lg)
         | None \<Rightarrow> (Cmd_usage, lg))
      else (choose_command argv, lg))"

text \<open>\<open>main\<close>: exceptions of a command become a failure.\<close>

definition bench_main :: "int outcome \<Rightarrow> int outcome" where
  "bench_main result = (case result of Ok c \<Rightarrow> Ok c | Throw e \<Rightarrow> Ok EXIT_FAILURE | Abort \<Rightarrow> Abort)"

section \<open>Lemmas\<close>

lemma leave_ok: "leave r api ps s = (Ok x, s') \<Longrightarrow> r = Ok x"
  by (auto simp: leave_def split: prod.splits outcome.splits)

lemma partition_ctor_made:
  "partition_ctor api fs args i c s = (Ok (Inr p), s') \<Longrightarrow> pt_idx p = i \<and> pt_cur_tx p = 0"
  by (auto simp: partition_ctor_def open_partition_def split: prod.splits outcome.splits sum.splits option.splits if_splits)

lemma partition_ctor_fresh:
  assumes "partition_ctor api fs args i True s = (Ok (Inr p), s')"
  shows "\<not> fs_exists fs (path_data_file (ca_path args) i) \<and> \<not> fs_exists fs (path_idx_file (ca_path args) i) \<and>
    \<not> fs_exists fs (path_keys_file (ca_path args) i)"
proof -
  obtain u where "fst (create_files api fs (ca_path args) i s) = Ok (Inr u)"
    using assms by (auto simp: partition_ctor_def split: prod.splits outcome.splits sum.splits)
  then show ?thesis by (rule create_files_fresh)
qed

text \<open>What all partitions have in common after opening: a property of each.\<close>

lemma open_partitions_all:
  assumes "open_partitions api fs args c is ps s = (Ok (Inr qs), s')"
    and "\<And>i s p s'. partition_ctor api fs args i c s = (Ok (Inr p), s') \<Longrightarrow> P i p"
  shows "\<exists>rs. qs = ps @ rs \<and> length rs = length is \<and> list_all2 P is rs"
  using assms(1)
proof (induction "is" arbitrary: ps s)
  case (Cons i "is")
  show ?case
  proof (cases "partition_ctor api fs args i c s")
    case (Pair r s1)
    with Cons.prems obtain p where p: "r = Ok (Inr p)"
      and rest: "open_partitions api fs args c is (ps @ [p]) s1 = (Ok (Inr qs), s')"
      by (auto split: outcome.splits sum.splits dest!: leave_ok)
    from Cons.IH [OF rest] assms(2) [OF Pair [unfolded p]] show ?thesis by auto
  qed
qed simp

lemma partition_indices_facts: "length (partition_indices n) = unat n" "i < unat n \<Longrightarrow> partition_indices n ! i = of_nat i"
  by (simp_all add: partition_indices_def)

lemma worker_init_parts: "bs_parts (worker_init sha a t n b) = bs_parts b"
proof -
  have "bs_parts ((create_record sha a t ^^ k) b) = bs_parts b" for k by (induction k) (simp_all add: create_record_facts)
  then show ?thesis by (simp add: worker_init_def)
qed

text \<open>A concrete SQLite and file system for the witnesses.\<close>

definition no_files :: file_system where
  "no_files = \<lparr>fs_exists = (\<lambda>_. False), fs_fopen = (\<lambda>_. Some [])\<rparr>"

lemma demo_sql: "run_sql tx_demo db sql as s = (Ok (), s)"
proof -
  have b: "bind_all tx_demo q i as s = (Ok (), s)" for q i
    by (induction as arbitrary: i) (simp_all add: bind_arg_at_def tx_demo_def)
  let ?q = "\<lparr>qy_db = db, qy_sql = sql, qy_sql_id = [], qy_stmt = 7\<rparr>"
  have "query_ctor tx_demo db sql [] s = (Ok ?q, s)" "query_start tx_demo ?q False s = (Ok (), s)"
    "next_row tx_demo ?q 0 s = (Ok St_done, s)" "query_dtor tx_demo ?q s = s"
    by (simp_all add: query_ctor_def query_start_def next_row_def query_dtor_def tx_demo_def
        signed_modulo_int_def signed_divide_int_def)
  then show ?thesis by (simp add: run_sql_def b)
qed

lemma demo_sqls: "run_sqls tx_demo db sqls s = (Ok (), s)"
  by (induction sqls) (auto simp: demo_sql)

lemma demo_prepare: "\<exists>qs. prepare_all tx_demo db sqls s = (Ok qs, s)"
proof (induction sqls)
  case (Cons q qs)
  then show ?case by (auto simp: query_ctor_def tx_demo_def Let_def)
qed simp

lemma demo_files:
  "connection_ctor tx_demo f c s = (Ok \<lparr>cn_file = f, cn_db = 1\<rparr>, s)" "connection_dtor tx_demo k s = (True, s)"
  by (simp_all add: connection_ctor_def connection_dtor_def tx_demo_def)

lemma demo_ctor: "\<exists>p. partition_ctor tx_demo no_files a i True s = (Ok (Inr p), s)"
  using demo_prepare [of "\<lparr>cn_file = path_data_file (ca_path a) i, cn_db = 1\<rparr>" prepared_sqls s]
  by (auto simp: partition_ctor_def create_files_def create_file_def open_partition_def demo_files demo_sqls
      no_files_def Let_def)

lemma demo_opens: "\<exists>ps. open_partitions tx_demo no_files a True is qs s = (Ok (Inr ps), s)"
proof (induction "is" arbitrary: qs)
  case (Cons i "is")
  then show ?case using demo_ctor [of a i s] by auto
qed simp

definition some_args :: create_args where
  "some_args = \<lparr>ca_path = ''db'', ca_partitions = 3, ca_records = 5, ca_value_sz = 100, ca_cache_kib = 64, ca_threads = 2\<rparr>"

lemma some_args_read: "parse_create_args 4 (create_argv some_args) = Ok (Inr some_args)"
  using accepted_argv [of some_args 4]
  by (simp add: accepted_args_def some_args_def create_args_valid_def partitions_min_def partitions_max_def
      value_sz_min_def split: outcome.splits sum.splits)

text \<open>The option \<^verbatim>\<open>-l\<close> takes any name of a level; an exception never looks like success.\<close>

lemma bench_run_level:
  "from_string name = Some l \<Longrightarrow> bench_run (''-l'' # name # argv) lg = (choose_command argv, set_level l lg)"
  "from_string name = None \<Longrightarrow> bench_run (''-l'' # name # argv) lg = (Cmd_usage, lg)"
  by (simp_all add: bench_run_def)

lemma bench_main_success: "bench_main r = Ok EXIT_SUCCESS \<longleftrightarrow> r = Ok EXIT_SUCCESS"
  by (cases r) (simp_all add: bench_main_def)

section \<open>Properties\<close>

text \<open>
  What \<open>create\<close> does before its threads run. It either ends at once with a failure, or it
  has accepted valid arguments, a pool with the requested number of threads, and one new
  partition per index, of which no file existed before and which has no open transaction;
  the records in flight are then those of the initial state from which creating proceeds.
\<close>

lemma create_cmd_starts:
  assumes "create_cmd api fs sha hw recs t args s = (Ok res, s')"
  shows "case res of
      Finished code \<Rightarrow> code = EXIT_FAILURE
    | Started (pool, a, b) \<Rightarrow>
        create_args_valid a \<and> int (thread_pool_size pool) = to_int32 (uint (ca_threads a)) \<and> create_init sha a b \<and>
        list_all2 (\<lambda>i p. pt_idx p = i \<and> \<not> fs_exists fs (path_data_file (ca_path a) i) \<and>
            \<not> fs_exists fs (path_idx_file (ca_path a) i) \<and> \<not> fs_exists fs (path_keys_file (ca_path a) i))
          (partition_indices (ca_partitions a)) (bs_parts b)"
proof (cases res)
  case (Finished code)
  with assms show ?thesis
    by (auto simp: create_cmd_def usage_def split: prod.splits outcome.splits sum.splits)
next
  case (Started x)
  obtain pool a b where x: "x = (pool, a, b)" by (cases x)
  obtain ps s1 where a: "parse_create_args hw args = Ok (Inr a)"
    and pool: "thread_pool_ctor (to_int32 (uint (ca_threads a))) ''main'' = Ok pool"
    and op: "open_partitions api fs a True (partition_indices (ca_partitions a)) [] s = (Ok (Inr ps), s1)"
    and b: "b = create_bench sha recs t a ps s1"
    using assms Started x by (auto simp: create_cmd_def split: prod.splits outcome.splits sum.splits)
  let ?P = "\<lambda>i p. (pt_idx p = i \<and> pt_cur_tx p = 0) \<and> \<not> fs_exists fs (path_data_file (ca_path a) i) \<and>
      \<not> fs_exists fs (path_idx_file (ca_path a) i) \<and> \<not> fs_exists fs (path_keys_file (ca_path a) i)"
  have P: "?P i p" if "partition_ctor api fs a i True s = (Ok (Inr p), s')" for i s p s'
    using partition_ctor_made [OF that] partition_ctor_fresh [OF that] by simp
  from open_partitions_all [OF op P] have "list_all2 ?P (partition_indices (ca_partitions a)) ps" by simp
  then have l: "length ps = unat (ca_partitions a)" and tx: "list_all (\<lambda>p. pt_cur_tx p = 0) ps"
    and fresh: "list_all2 (\<lambda>i p. pt_idx p = i \<and> \<not> fs_exists fs (path_data_file (ca_path a) i) \<and>
      \<not> fs_exists fs (path_idx_file (ca_path a) i) \<and> \<not> fs_exists fs (path_keys_file (ca_path a) i))
    (partition_indices (ca_partitions a)) ps"
    by (auto simp: list_all2_conv_all_nth list_all_length partition_indices_facts)
  have bp: "bs_parts b = ps" using worker_init_parts [of sha a t _ "\<lparr>bs_parts = ps, bs_queue = [], bs_records = 0, bs_rec = recs, bs_sq = s1\<rparr>"]
    by (simp add: b create_bench_def)
  have "create_init sha a b"
    unfolding create_init_def b create_bench_def
    by (intro exI [of _ "\<lparr>bs_parts = ps, bs_queue = [], bs_records = 0, bs_rec = recs, bs_sq = s1\<rparr>"] exI [of _ t])
      (use l tx in simp)
  moreover have "create_args_valid a" using a accepted_valid [of hw args a] by (simp add: accepted_args_def)
  moreover have "int (thread_pool_size pool) = to_int32 (uint (ca_threads a))"
    using pool by (auto simp: thread_pool_ctor_def thread_pool_size_def split: if_splits)
  ultimately show ?thesis using Started x fresh bp by simp
qed

theorem create_cmd_starts_witness:
  "\<exists>pool b s'. create_cmd tx_demo no_files demo_sha 4 (\<lambda>_. db_record_thread_init 1 2) 0 (create_argv some_args) (\<lambda>_. False) =
      (Ok (Started (pool, some_args, b)), s') \<and> create_init demo_sha some_args b \<and> length (bs_parts b) = 3"
proof -
  obtain ps where ps: "open_partitions tx_demo no_files some_args True (partition_indices (ca_partitions some_args)) []
      (\<lambda>_. False) = (Ok (Inr ps), (\<lambda>_. False))"
    using demo_opens by blast
  have "\<exists>pool. thread_pool_ctor (to_int32 (uint (ca_threads some_args))) ''main'' = Ok pool"
    by (simp add: thread_pool_ctor_def some_args_def to_int32_def)
  with ps some_args_read obtain pool b where
    c: "create_cmd tx_demo no_files demo_sha 4 (\<lambda>_. db_record_thread_init 1 2) 0 (create_argv some_args) (\<lambda>_. False) =
      (Ok (Started (pool, some_args, b)), (\<lambda>_. False))"
    by (auto simp: create_cmd_def)
  from create_cmd_starts [OF c] have i: "create_init demo_sha some_args b"
    and l: "length (bs_parts b) = length (partition_indices (ca_partitions some_args))"
    by (auto dest: list_all2_lengthD)
  from c i l show ?thesis by (intro exI conjI) (assumption, simp_all add: partition_indices_facts some_args_def)
qed

end
