(* ===== verification/Bench_Programs.thy ===== *)
theory Bench_Programs
  imports Bench_Main
begin

text \<open>
  The benchmark program from its command line to its exit code: the commands are started as
  in \<open>Bench_Main\<close>, their threads take requests until none is left, the pool is joined and
  everything is destroyed. An exception of a handler ends that handler only, because the loop
  of a pool thread catches it; a failed assertion ends the process. What a command may do is a
  big-step relation between its input and its result.
\<close>

section \<open>The end of a command\<close>

record 's bench_env =
  be_sqlite :: "'s sqlite_api"
  be_files :: file_system
  be_keys :: "string \<Rightarrow> string option"
  be_sha :: "string \<Rightarrow> string"
  be_hw :: u32
  be_recs :: "nat \<Rightarrow> db_record"
  be_thread :: nat
  be_spawn :: "nat \<Rightarrow> bool"
  be_thread_name :: string

definition run_threads :: "'s bench_env \<Rightarrow> thread_pool \<Rightarrow> unit outcome \<times> thread_pool \<times> string list" where
  "run_threads env pool = thread_pool_run (be_spawn env) (be_thread_name env) False pool"

text \<open>The locals are destroyed in reverse order: the partitions, then the pool.\<close>

definition command_exit :: "'s bench_env \<Rightarrow> thread_pool \<Rightarrow> part list \<Rightarrow> 's \<Rightarrow> int outcome \<Rightarrow> int outcome" where
  "command_exit env pool ps s r =
     (case leave r (be_sqlite env) ps s of
        (r, s) \<Rightarrow> (case thread_pool_dtor pool of Ok _ \<Rightarrow> r | _ \<Rightarrow> Abort))"

section \<open>\<open>create\<close>\<close>

definition create_started :: "'s bench_env \<Rightarrow> string list \<Rightarrow> 's \<Rightarrow>
    (thread_pool \<times> create_args \<times> 's bench) started outcome \<times> 's" where
  "create_started env args s =
     create_cmd (be_sqlite env) (be_files env) (be_sha env) (be_hw env) (be_recs env) (be_thread env) args s"

text \<open>A turn of some thread: a handler that returns or throws.\<close>

definition create_turn :: "'s bench_env \<Rightarrow> create_args \<Rightarrow> 's bench \<Rightarrow> 's bench \<Rightarrow> bool" where
  "create_turn env a b b' \<longleftrightarrow> (\<exists>r. r \<noteq> Abort \<and> create_step (be_sqlite env) (be_sha env) a b r b')"

inductive create_program :: "'s bench_env \<Rightarrow> string list \<Rightarrow> 's \<Rightarrow> int outcome \<Rightarrow> bool" for env args s where
  cp_finished: "create_started env args s = (Ok (Finished c), s') \<Longrightarrow> create_program env args s (Ok c)"
| cp_throws: "create_started env args s = (Throw e, s') \<Longrightarrow> create_program env args s (Throw e)"
| cp_aborts: "create_started env args s = (Abort, s') \<Longrightarrow> create_program env args s Abort"
| cp_run_throws: "create_started env args s = (Ok (Started (pool, a, b)), s') \<Longrightarrow>
    run_threads env pool = (Throw e, pool', names) \<Longrightarrow>
    create_program env args s (command_exit env pool' (bs_parts b) (bs_sq b) (Throw e))"
| cp_run_aborts: "create_started env args s = (Ok (Started (pool, a, b)), s') \<Longrightarrow>
    run_threads env pool = (Abort, pool', names) \<Longrightarrow> create_program env args s Abort"
| cp_handler_aborts: "create_started env args s = (Ok (Started (pool, a, b)), s') \<Longrightarrow>
    run_threads env pool = (Ok u, pool', names) \<Longrightarrow> (create_turn env a)\<^sup>*\<^sup>* b b1 \<Longrightarrow>
    create_step (be_sqlite env) (be_sha env) a b1 Abort b2 \<Longrightarrow> create_program env args s Abort"
| cp_joined: "create_started env args s = (Ok (Started (pool, a, b)), s') \<Longrightarrow>
    run_threads env pool = (Ok u, pool', names) \<Longrightarrow> (create_turn env a)\<^sup>*\<^sup>* b b1 \<Longrightarrow> bs_queue b1 = [] \<Longrightarrow>
    thread_pool_wait pool' = (r, pool'') \<Longrightarrow>
    create_program env args s (command_exit env pool'' (bs_parts b1) (bs_sq b1)
      (case r of Ok _ \<Rightarrow> Ok EXIT_SUCCESS | Throw e \<Rightarrow> Throw e | Abort \<Rightarrow> Abort))"

section \<open>\<open>requests\<close>\<close>

text \<open>The random choices of the requests of \<open>worker::init\<close> are inputs, as is the time.\<close>

definition requests_started :: "'s bench_env \<Rightarrow> (nat \<Rightarrow> choice) \<Rightarrow> int \<Rightarrow> string list \<Rightarrow> 's \<Rightarrow>
    (thread_pool \<times> requests_args \<times> 's rbench) started outcome \<times> 's" where
  "requests_started env chs now args s =
     requests_cmd (be_sqlite env) (be_files env) (be_keys env) (be_sha env) (be_hw env) (be_recs env)
       (map chs [0..<unat request_queue_max]) now args s"

definition requests_turn :: "'s bench_env \<Rightarrow> requests_args \<Rightarrow> 's rbench \<Rightarrow> 's rbench \<Rightarrow> bool" where
  "requests_turn env a b b' \<longleftrightarrow> (\<exists>r. r \<noteq> Abort \<and> requests_step (be_sqlite env) (be_sha env) a b r b')"

inductive requests_program :: "'s bench_env \<Rightarrow> string list \<Rightarrow> 's \<Rightarrow> int outcome \<Rightarrow> bool" for env args s where
  rp_finished: "requests_started env chs now args s = (Ok (Finished c), s') \<Longrightarrow> requests_program env args s (Ok c)"
| rp_throws: "requests_started env chs now args s = (Throw e, s') \<Longrightarrow> requests_program env args s (Throw e)"
| rp_aborts: "requests_started env chs now args s = (Abort, s') \<Longrightarrow> requests_program env args s Abort"
| rp_run_throws: "requests_started env chs now args s = (Ok (Started (pool, a, b)), s') \<Longrightarrow>
    run_threads env pool = (Throw e, pool', names) \<Longrightarrow>
    requests_program env args s (command_exit env pool' (rb_parts b) (rb_sq b) (Throw e))"
| rp_run_aborts: "requests_started env chs now args s = (Ok (Started (pool, a, b)), s') \<Longrightarrow>
    run_threads env pool = (Abort, pool', names) \<Longrightarrow> requests_program env args s Abort"
| rp_handler_aborts: "requests_started env chs now args s = (Ok (Started (pool, a, b)), s') \<Longrightarrow>
    run_threads env pool = (Ok u, pool', names) \<Longrightarrow> (requests_turn env a)\<^sup>*\<^sup>* b b1 \<Longrightarrow>
    requests_step (be_sqlite env) (be_sha env) a b1 Abort b2 \<Longrightarrow> requests_program env args s Abort"
| rp_joined: "requests_started env chs now args s = (Ok (Started (pool, a, b)), s') \<Longrightarrow>
    run_threads env pool = (Ok u, pool', names) \<Longrightarrow> (requests_turn env a)\<^sup>*\<^sup>* b b1 \<Longrightarrow> rb_queue b1 = [] \<Longrightarrow>
    thread_pool_wait pool' = (r, pool'') \<Longrightarrow>
    requests_program env args s (command_exit env pool'' (rb_parts b1) (rb_sq b1)
      (case r of Ok _ \<Rightarrow> Ok EXIT_SUCCESS | Throw e \<Rightarrow> Throw e | Abort \<Rightarrow> Abort))"

section \<open>The program\<close>

text \<open>\<open>run\<close> chooses the command, \<open>main\<close> turns its result into the exit code.\<close>

inductive bench_program :: "'s bench_env \<Rightarrow> string list \<Rightarrow> 's \<Rightarrow> int outcome \<Rightarrow> bool" for env argv s where
  bp_create: "fst (bench_run argv gl_logger) = Cmd_create args \<Longrightarrow> create_program env args s r \<Longrightarrow>
    bench_program env argv s (bench_main r)"
| bp_requests: "fst (bench_run argv gl_logger) = Cmd_requests args \<Longrightarrow> requests_program env args s r \<Longrightarrow>
    bench_program env argv s (bench_main r)"
| bp_help: "fst (bench_run argv gl_logger) = Cmd_help \<Longrightarrow> bench_program env argv s (bench_main (Ok help_cmd))"
| bp_usage: "fst (bench_run argv gl_logger) = Cmd_usage \<Longrightarrow> bench_program env argv s (bench_main (Ok (usage False)))"

section \<open>Every run of \<open>create\<close> is finite\<close>

text \<open>
  With failures, too, the records handled and those in flight never exceed the bound, and
  every turn either comes closer to the requested number or takes a record out of flight.
\<close>

definition turns_left :: "create_args \<Rightarrow> 's bench \<Rightarrow> nat" where
  "turns_left a b = (unat (ca_records a) - 1 - unat (bs_records b)) + length (bs_queue b)"

definition turns_inv :: "create_args \<Rightarrow> 's bench \<Rightarrow> bool" where
  "turns_inv a b \<longleftrightarrow>
     (let R = unat (ca_records a); n = min 1000 R
      in length (bs_queue b) \<le> n \<and> unat (bs_records b) + length (bs_queue b) \<le> R - 1 + n)"

lemma finish_create_cases:
  assumes "finish_create api sha args t i p b = (r, b')"
  shows "bs_records b' = bs_records b + 1 \<and>
    (length (bs_queue b') = length (bs_queue b) \<or>
     length (bs_queue b') = Suc (length (bs_queue b)) \<and> \<not> ca_records args \<le> bs_records b + 1)"
  using assms
  by (auto simp: finish_create_def is_done_def Let_def create_record_facts set_part_def
      split: if_splits prod.splits outcome.splits)

lemma handle_create_cases:
  assumes "handle_create api sha args t fw rec b = (r, b')"
  shows "bs_records b' = bs_records b \<and> length (bs_queue b') = length (bs_queue b) \<or>
    bs_records b' = bs_records b + 1 \<and>
    (length (bs_queue b') = length (bs_queue b) \<or>
     length (bs_queue b') = Suc (length (bs_queue b)) \<and> \<not> ca_records args \<le> bs_records b + 1)"
  using assms
  by (auto simp: handle_create_def Let_def set_part_def split: prod.splits outcome.splits bool.splits
      dest!: finish_create_cases)

lemma turn_facts:
  assumes "args_ok a" and "turns_inv a b" and "create_turn env a b b'"
  shows "turns_inv a b' \<and> turns_left a b' < turns_left a b"
proof -
  obtain r q1 rec q2 t fw where q: "bs_queue b = q1 @ rec # q2"
    and h: "handle_create (be_sqlite env) (be_sha env) a t fw rec (b\<lparr>bs_queue := q1 @ q2\<rparr>) = (r, b')"
    using assms(3) by (auto simp: create_turn_def elim!: create_step.cases)
  let ?r = "unat (bs_records b)" and ?R = "unat (ca_records a)"
  have R: "0 < ?R" "?R + 1000 < 2 ^ 64" using assms(1) by (simp_all add: args_ok_def unat_gt_0)
  have "?r + length (bs_queue b) \<le> ?R - 1 + min 1000 ?R" using assms(2) unfolding turns_inv_def Let_def by blast
  moreover have "0 < length (bs_queue b)" using q by simp
  ultimately have "?r + 1 < 2 ^ 64" using R by linarith
  then have u: "unat (bs_records b + 1) = ?r + 1" by (simp add: unat_word_ariths)
  then have c: "ca_records a \<le> bs_records b + 1 \<longleftrightarrow> ?R \<le> ?r + 1" by (simp add: word_le_nat_alt)
  have l: "length (bs_queue b) = Suc (length q1 + length q2)" using q by simp
  from handle_create_cases [OF h] u c
  have "unat (bs_records b') = ?r \<and> length (bs_queue b') = length q1 + length q2 \<or>
      unat (bs_records b') = ?r + 1 \<and> (length (bs_queue b') = length q1 + length q2 \<or>
        length (bs_queue b') = Suc (length q1 + length q2) \<and> ?r + 1 < ?R)"
    by auto
  with assms(2) l R show ?thesis
    unfolding turns_inv_def turns_left_def Let_def by auto
qed

lemma turns_inv_init: "args_ok a \<Longrightarrow> create_init sha a b \<Longrightarrow> turns_inv a b"
  using in_flight_init [of a sha b]
  by (auto simp: in_flight_inv_def turns_inv_def Let_def split: if_splits)

interpretation create_run: ranked_system "\<lambda>b. args_ok a \<and> create_init (be_sha env) a b" "create_turn env a"
    "\<lambda>b. args_ok a \<and> turns_inv a b" "turns_left a" for env a
  by unfold_locales (auto intro: turns_inv_init dest: turn_facts)

lemma turns_left_le: "turns_inv a b \<Longrightarrow> turns_left a b \<le> unat (ca_records a) - 1 + min 1000 (unat (ca_records a))"
  unfolding turns_inv_def turns_left_def Let_def by linarith

text \<open>A record in flight can always be handled, with some result.\<close>

lemma create_step_exists: "bs_queue b \<noteq> [] \<Longrightarrow> \<exists>r b'. create_step api sha a b r b'"
proof -
  assume "bs_queue b \<noteq> []"
  then have "bs_queue b = [] @ hd (bs_queue b) # tl (bs_queue b)" by simp
  from cs_handle [OF this, of api sha a 0 "(True, True)"] show ?thesis by (meson surj_pair)
qed

lemma create_started_valid:
  assumes "create_started env args s = (Ok (Started (pool, a, b)), s')"
  shows "parse_create_args (be_hw env) args = Ok (Inr a)" and "create_init (be_sha env) a b"
    and "ca_partitions a \<noteq> 0 \<and> ca_records a \<noteq> 0" and "pool_ok pool" and "\<not> hd (tp_joinable pool)"
proof -
  note c = assms [unfolded create_started_def]
  show p: "parse_create_args (be_hw env) args = Ok (Inr a)"
    using c by (auto simp: create_cmd_def split: prod.splits outcome.splits sum.splits)
  show "create_init (be_sha env) a b" using create_cmd_starts [OF c] by simp
  show "ca_partitions a \<noteq> 0 \<and> ca_records a \<noteq> 0"
    using create_cmd_starts [OF c] by (auto simp: create_args_valid_def partitions_min_def)
  have "thread_pool_ctor (to_int32 (uint (ca_threads a))) ''main'' = Ok pool"
    using c by (auto simp: create_cmd_def split: prod.splits outcome.splits sum.splits)
  then show "pool_ok pool" "\<not> hd (tp_joinable pool)"
    by (auto simp: thread_pool_ctor_def pool_ok_def thread_pool_size_def split: if_splits)
qed

text \<open>Started threads can be joined, and the pool can be destroyed then.\<close>

definition can_start :: "'s bench_env \<Rightarrow> bool" where
  "can_start env \<longleftrightarrow> (\<forall>t. be_spawn env t) \<and> length (be_thread_name env) \<le> 15 \<and> nul \<notin> set (be_thread_name env)"

lemma run_and_join:
  assumes "can_start env" and "pool_ok pool" and "\<not> hd (tp_joinable pool)"
  obtains pool' names pool'' where "run_threads env pool = (Ok (), pool', names)"
    and "thread_pool_wait pool' = (Ok (), pool'')" and "thread_pool_dtor pool'' = Ok ()"
proof -
  let ?n = "thread_pool_size pool"
  let ?p = "pool\<lparr>tp_joinable := replicate ?n True, tp_work := False\<rparr>"
  have n: "?n \<noteq> 0" using assms(2) by (simp add: pool_ok_def thread_pool_size_def)
  have "run_threads env pool = (Ok (), ?p, replicate ?n (take 15 (be_thread_name env @ ''.'' @ tp_name pool)))"
    using thread_pool_run_all [OF assms(2,3), of "be_spawn env" "be_thread_name env" False] assms(1)
    by (simp add: run_threads_def can_start_def)
  moreover have w: "thread_pool_wait ?p = (Ok (), ?p\<lparr>tp_joinable := replicate ?n False\<rparr>)"
    by (rule thread_pool_wait_started) (use n in simp_all)
  moreover have "\<not> hd (tp_joinable (?p\<lparr>tp_joinable := replicate ?n False\<rparr>))" using n by (cases ?n) simp_all
  then have "thread_pool_dtor (?p\<lparr>tp_joinable := replicate ?n False\<rparr>) = Ok ()"
    by (simp add: thread_pool_dtor_def thread_pool_wait_idle)
  ultimately show thesis by (rule that)
qed

lemma command_exit_cases: "thread_pool_dtor pool = Ok () \<Longrightarrow> command_exit env pool ps s r = r \<or> command_exit env pool ps s r = Abort"
  by (auto simp: command_exit_def leave_def split: prod.splits outcome.splits)

lemma create_program_exists:
  assumes "\<forall>a. parse_create_args (be_hw env) args = Ok (Inr a) \<longrightarrow> unat (ca_records a) + 1000 < 2 ^ 64"
  shows "\<exists>r. create_program env args s r"
proof (cases "create_started env args s")
  case (Pair x s1)
  show ?thesis
  proof (cases x)
    case (Ok y)
    show ?thesis
    proof (cases y)
      case (Started z)
      obtain pool a b where z: "z = (pool, a, b)" by (cases z)
      note st = Pair [unfolded Ok Started z]
      note v = create_started_valid [OF st]
      have "args_ok a" using assms v(1,3) by (simp add: args_ok_def)
      then have "args_ok a \<and> turns_inv a b" using turns_inv_init v(2) by blast
      from create_run.settles [OF this] obtain b1 where b1: "(create_turn env a)\<^sup>*\<^sup>* b b1" "\<forall>c. \<not> create_turn env a b1 c"
        by blast
      obtain u pool' names where run: "run_threads env pool = (u, pool', names)" by (cases "run_threads env pool") auto
      show ?thesis
      proof (cases u)
        case (Ok u')
        note run = run [unfolded Ok]
        show ?thesis
        proof (cases "bs_queue b1 = []")
          case True
          then show ?thesis using cp_joined [OF st run b1(1)] by (meson surj_pair)
        next
          case False
          then obtain r b2 where "create_step (be_sqlite env) (be_sha env) a b1 r b2" using create_step_exists by blast
          moreover from this b1(2) have "r = Abort" by (auto simp: create_turn_def)
          ultimately show ?thesis using cp_handler_aborts [OF st run b1(1)] by blast
        qed
      next
        case (Throw e)
        then show ?thesis using cp_run_throws [OF st] run by blast
      next
        case Abort
        then show ?thesis using cp_run_aborts [OF st] run by blast
      qed
    qed (use Pair Ok in \<open>auto intro: cp_finished\<close>)
  qed (use Pair in \<open>auto intro: cp_throws cp_aborts\<close>)
qed

lemma worker_init_records: "bs_records (worker_init sha a t n b) = bs_records b"
proof -
  have "bs_records ((create_record sha a t ^^ k) b) = bs_records b" for k by (induction k) (simp_all add: create_record_facts)
  then show ?thesis by (simp add: worker_init_def)
qed

text \<open>SQLite that reports every trouble as an error, and whose databases can be closed.\<close>

definition errors_thrown :: "'s sqlite_api \<Rightarrow> bool" where
  "errors_thrown api \<longleftrightarrow> (\<forall>q as s. fst (exec_done api q as s) \<noteq> Abort) \<and>
     (\<forall>ps s. fst (destroy_partitions api ps s) = Ok ())"

text \<open>A handler whose entry cannot be written to the file of keys fails and is not replaced.\<close>

lemma unwritable_turn:
  assumes "errors_thrown api"
  shows "\<exists>e b'. handle_create api sha a t (False, False) rec b = (Throw e, b') \<and>
    bs_queue b' = bs_queue b \<and> bs_records b' = bs_records b"
proof -
  have "fst (exec_done api q as s) \<noteq> Abort" for q as s using assms by (simp add: errors_thrown_def)
  then have "exec_done api q as s \<noteq> (Abort, s')" for q as s s' by (metis fst_conv)
  then show ?thesis
    by (auto simp: handle_create_def write_keys_def set_part_def Let_def split: prod.split outcome.split)
qed

lemma unwritable_run:
  assumes "errors_thrown (be_sqlite env)"
  shows "\<exists>b'. (create_turn env a)\<^sup>*\<^sup>* b b' \<and> bs_queue b' = [] \<and> bs_records b' = bs_records b"
proof (induction "length (bs_queue b)" arbitrary: b)
  case (Suc n)
  then obtain rec q where q: "bs_queue b = [] @ rec # q" by (cases "bs_queue b") simp_all
  obtain e b1 where h: "handle_create (be_sqlite env) (be_sha env) a 0 (False, False) rec (b\<lparr>bs_queue := [] @ q\<rparr>) = (Throw e, b1)"
    and b1: "bs_queue b1 = q" "bs_records b1 = bs_records b"
    using unwritable_turn [OF assms] by fastforce
  have "create_turn env a b b1" unfolding create_turn_def by (blast intro: cs_handle [OF q h])
  moreover obtain b2 where "(create_turn env a)\<^sup>*\<^sup>* b1 b2" "bs_queue b2 = []" "bs_records b2 = bs_records b1"
    using Suc.hyps(1) [of b1] Suc.hyps(2) q b1(1) by auto
  ultimately show ?case using b1(2) by (metis converse_rtranclp_into_rtranclp)
qed auto

lemma demo_errors: "errors_thrown tx_demo"
proof -
  have b: "bind_all tx_demo q i as s = (Ok (), s)" for q i as s
    by (induction as arbitrary: i) (simp_all add: bind_arg_at_def tx_demo_def)
  have "query_start tx_demo q False s = (Ok (), s)" for q s by (simp add: query_start_def tx_demo_def)
  moreover have "fst (step_done tx_demo q s) \<noteq> Abort" for q s
    by (simp add: step_done_def next_row_def tx_demo_def signed_modulo_int_def signed_divide_int_def)
  ultimately have "fst (exec_done tx_demo q as s) \<noteq> Abort" for q as s by (simp add: exec_done_def b)
  moreover have "fst (destroy_partitions tx_demo ps s) = Ok ()" for ps s
    by (induction ps arbitrary: s) (auto simp: partition_dtor_def demo_sql Let_def split: prod.split)
  ultimately show ?thesis by (simp add: errors_thrown_def)
qed

definition demo_bench :: "(nat \<Rightarrow> bool) bench_env" where
  "demo_bench = \<lparr>be_sqlite = tx_demo, be_files = no_files, be_keys = (\<lambda>_. None), be_sha = demo_sha, be_hw = 4,
     be_recs = (\<lambda>_. db_record_thread_init 1 2), be_thread = 0, be_spawn = (\<lambda>_. True), be_thread_name = ''benchmark''\<rparr>"

lemma demo_can_start: "can_start demo_bench"
  by (simp add: can_start_def demo_bench_def)

lemma demo_bench_starts: "\<exists>pool b s'. create_started demo_bench (create_argv some_args) (\<lambda>_. False) =
    (Ok (Started (pool, some_args, b)), s')"
  using create_cmd_starts_witness by (auto simp: create_started_def demo_bench_def)

section \<open>The queue of the request benchmark\<close>

text \<open>A turn that sees the time of the test over.\<close>

definition late_turn :: "'s bench_env \<Rightarrow> requests_args \<Rightarrow> 's rbench \<Rightarrow> 's rbench \<Rightarrow> bool" where
  "late_turn env a b b' \<longleftrightarrow>
     (\<exists>q1 pd q2 now fuel ch r. rb_queue b = q1 @ pd # q2 \<and> rb_tt b \<le> now \<and> ra_time a \<le> now - rb_t0 b \<and>
        handle_request (be_sqlite env) (be_sha env) a fuel ch now pd (b\<lparr>rb_queue := q1 @ q2\<rparr>) = Some (r, b') \<and> r \<noteq> Abort)"

lemma late_is_turn: "late_turn env a b b' \<Longrightarrow> requests_turn env a b b'"
  unfolding late_turn_def requests_turn_def by (blast intro: rs_handle)

lemma create_request_queue:
  "create_request sha a ch b = (r, b') \<Longrightarrow> length (rb_queue b') \<le> Suc (length (rb_queue b))"
  by (auto simp: create_request_def request_insert_def request_known_def post_request_def Let_def
      split: request.splits option.splits if_splits)

lemma finish_request_queue:
  assumes "finish_request sha a ch now req res b = (r, b')"
  shows "length (rb_queue b') \<le> Suc (length (rb_queue b))"
    and "ra_time a \<le> now - rb_t0 b \<Longrightarrow> rb_queue b' = rb_queue b"
proof -
  have d: "rb_queue b1 = rb_queue c \<and> fin = (ra_time a \<le> now - rb_t0 c)"
    if "requests_is_done a req now c = (fin, b1)" for c b1 fin
    using that by (auto simp: requests_is_done_def Let_def split: prod.splits if_splits)
  show "length (rb_queue b') \<le> Suc (length (rb_queue b))" "ra_time a \<le> now - rb_t0 b \<Longrightarrow> rb_queue b' = rb_queue b"
    using assms by (auto simp: finish_request_def split: prod.splits outcome.splits if_splits
        dest!: d create_request_queue)
qed

lemma handle_request_queue:
  assumes "handle_request api sha a fuel ch now pd b = Some (r, b')"
  shows "length (rb_queue b') \<le> Suc (length (rb_queue b))"
    and "ra_time a \<le> now - rb_t0 b \<Longrightarrow> rb_queue b' = rb_queue b"
  using assms by (auto simp: handle_request_def split: pending.splits dest: finish_request_queue)

lemma requests_turn_queue: "requests_turn env a b b' \<Longrightarrow> length (rb_queue b') \<le> length (rb_queue b)"
  by (auto simp: requests_turn_def elim!: requests_step.cases dest!: handle_request_queue(1))

lemma late_turn_queue: "late_turn env a b b' \<Longrightarrow> Suc (length (rb_queue b')) = length (rb_queue b)"
  by (auto simp: late_turn_def dest!: handle_request_queue(2))

section \<open>Exit codes\<close>

definition result_ok :: "int outcome \<Rightarrow> bool" where
  "result_ok r \<longleftrightarrow> (case r of Ok c \<Rightarrow> c = EXIT_SUCCESS \<or> c = EXIT_FAILURE | _ \<Rightarrow> True)"

lemma result_ok_simps [simp]:
  "result_ok (Ok c) \<longleftrightarrow> c = EXIT_SUCCESS \<or> c = EXIT_FAILURE" "result_ok (Throw e)" "result_ok Abort"
  by (simp_all add: result_ok_def)

lemma command_exit_ok: "result_ok r \<Longrightarrow> result_ok (command_exit env pool ps s r)"
  by (auto simp: command_exit_def leave_def result_ok_def split: prod.splits outcome.splits)

lemma join_result_ok: "result_ok (case w of Ok u \<Rightarrow> Ok EXIT_SUCCESS | Throw e \<Rightarrow> Throw e | Abort \<Rightarrow> Abort)"
  by (cases w) (simp_all add: result_ok_def)

lemma requests_cmd_fails: "requests_cmd api fs keys sha hw recs chs now args s = (Ok (Finished c), s') \<Longrightarrow> c = EXIT_FAILURE"
  by (auto simp: requests_cmd_def usage_def split: prod.splits outcome.splits sum.splits option.splits dest!: leave_ok)

lemma create_cmd_fails: "create_cmd api fs sha hw recs t args s = (Ok (Finished c), s') \<Longrightarrow> c = EXIT_FAILURE"
  using create_cmd_starts by fastforce

lemma create_result_ok: "create_program env args s r \<Longrightarrow> result_ok r"
  by (induction rule: create_program.induct)
    (auto intro!: command_exit_ok join_result_ok dest!: create_cmd_fails simp: create_started_def)

lemma requests_result_ok: "requests_program env args s r \<Longrightarrow> result_ok r"
  by (induction rule: requests_program.induct)
    (auto intro!: command_exit_ok join_result_ok dest!: requests_cmd_fails simp: requests_started_def)

lemma bench_main_ok: "result_ok r \<Longrightarrow> bench_main r = Abort \<or> bench_main r = Ok EXIT_SUCCESS \<or> bench_main r = Ok EXIT_FAILURE"
  by (cases r) (auto simp: bench_main_def result_ok_def)

text \<open>
  The process ends with one of the two exit codes, or by a failed assertion; help is a
  success, a command line without a command is a failure.
\<close>

lemma bench_program_code:
  assumes "bench_program env argv s r"
  shows "(r = Abort \<or> r = Ok EXIT_SUCCESS \<or> r = Ok EXIT_FAILURE) \<and>
    (fst (bench_run argv gl_logger) = Cmd_help \<longrightarrow> r = Ok EXIT_SUCCESS) \<and>
    (fst (bench_run argv gl_logger) = Cmd_usage \<longrightarrow> r = Ok EXIT_FAILURE)"
  using assms
proof cases
  case (bp_create args r')
  then show ?thesis using bench_main_ok [OF create_result_ok [OF bp_create(3)]] by auto
next
  case (bp_requests args r')
  then show ?thesis using bench_main_ok [OF requests_result_ok [OF bp_requests(3)]] by auto
qed (simp_all add: bench_main_def help_cmd_def usage_def)

section \<open>Properties\<close>

text \<open>
  C27: \<open>create\<close> always ends. For every command line, file system and behaviour of SQLite,
  with exceptions in any of the handlers and any interleaving of the threads, the program
  comes to a result, and its threads handle at most \<open>RECORDS - 1 + min 1000 RECORDS\<close>
  records, unless \<open>RECORDS\<close> is so close to the largest number that the counter of records
  wraps around.
\<close>

theorem create_program_ends:
  assumes "\<forall>a. parse_create_args (be_hw env) args = Ok (Inr a) \<longrightarrow> unat (ca_records a) + 1000 < 2 ^ 64"
  shows "(\<exists>r. create_program env args s r) \<and>
    (\<forall>pool a b s' k b'. create_started env args s = (Ok (Started (pool, a, b)), s') \<longrightarrow>
       (create_turn env a ^^ k) b b' \<longrightarrow> k \<le> unat (ca_records a) - 1 + min 1000 (unat (ca_records a)))"
proof (intro conjI allI impI)
  show "\<exists>r. create_program env args s r" by (rule create_program_exists [OF assms])
next
  fix pool a b s' k b'
  assume st: "create_started env args s = (Ok (Started (pool, a, b)), s')" and k: "(create_turn env a ^^ k) b b'"
  note v = create_started_valid [OF st]
  have "args_ok a" using assms v(1,3) by (simp add: args_ok_def)
  then have i: "args_ok a \<and> turns_inv a b" using turns_inv_init v(2) by blast
  from create_run.steps_bounded [OF this k] turns_left_le [of a b] i
  show "k \<le> unat (ca_records a) - 1 + min 1000 (unat (ca_records a))" by linarith
qed

theorem create_program_ends_witness:
  "(\<exists>r. create_program demo_bench (create_argv some_args) (\<lambda>_. False) r) \<and>
   (\<exists>pool b s'. create_started demo_bench (create_argv some_args) (\<lambda>_. False) = (Ok (Started (pool, some_args, b)), s') \<and>
      (\<forall>k b'. (create_turn demo_bench some_args ^^ k) b b' \<longrightarrow> k \<le> 9))"
proof -
  have h: "\<forall>a. parse_create_args (be_hw demo_bench) (create_argv some_args) = Ok (Inr a) \<longrightarrow> unat (ca_records a) + 1000 < 2 ^ 64"
    using some_args_read by (simp add: demo_bench_def some_args_def)
  obtain pool b s' where st: "create_started demo_bench (create_argv some_args) (\<lambda>_. False) =
      (Ok (Started (pool, some_args, b)), s')"
    using demo_bench_starts by blast
  have "unat (ca_records some_args) = 5" by (simp add: some_args_def)
  with create_program_ends [OF h, of "\<lambda>_. False"] st show ?thesis by fastforce
qed

text \<open>
  The exit code of \<open>create\<close> once threads can be created. Before the threads run, every
  refusal is a failure or an exception; after that, the program ends with success or by a
  failed assertion, never with a failure code, whatever the handlers threw.
\<close>

lemma create_exit_code:
  assumes "create_program env args s r" and "can_start env"
  shows "case fst (create_started env args s) of
      Ok (Finished c) \<Rightarrow> r = Ok EXIT_FAILURE
    | Ok (Started x) \<Rightarrow> r = Ok EXIT_SUCCESS \<or> r = Abort
    | Throw e \<Rightarrow> r = Throw e
    | Abort \<Rightarrow> r = Abort"
  using assms(1)
proof cases
  case (cp_finished c s')
  with create_cmd_starts [OF cp_finished(2) [unfolded create_started_def]] show ?thesis by simp
next
  case (cp_run_throws pool a b s' e pool' names)
  from run_and_join [OF assms(2) create_started_valid(4,5) [OF cp_run_throws(2)]] cp_run_throws(3) show ?thesis by simp
next
  case (cp_run_aborts pool a b s' pool' names)
  from run_and_join [OF assms(2) create_started_valid(4,5) [OF cp_run_aborts(2)]] cp_run_aborts(3) show ?thesis by simp
next
  case (cp_joined pool a b s' u pool' names b1 w pool'')
  have "w = Ok () \<and> thread_pool_dtor pool'' = Ok ()"
    by (rule run_and_join [OF assms(2) create_started_valid(4,5) [OF cp_joined(2)]])
      (use cp_joined(3,6) in simp)
  then have "r = Ok EXIT_SUCCESS \<or> r = Abort"
    using cp_joined(1) command_exit_cases [of pool'' env "bs_parts b1" "bs_sq b1" "Ok EXIT_SUCCESS"] by simp
  then show ?thesis by (simp add: cp_joined(2))
qed simp_all

theorem create_exit_code_witness:
  "\<exists>r. create_program demo_bench (create_argv some_args) (\<lambda>_. False) r \<and> (r = Ok EXIT_SUCCESS \<or> r = Abort)"
proof -
  obtain pool b s' where st: "create_started demo_bench (create_argv some_args) (\<lambda>_. False) =
      (Ok (Started (pool, some_args, b)), s')"
    using demo_bench_starts by blast
  have h: "\<forall>a. parse_create_args (be_hw demo_bench) (create_argv some_args) = Ok (Inr a) \<longrightarrow> unat (ca_records a) + 1000 < 2 ^ 64"
    using some_args_read by (simp add: demo_bench_def some_args_def)
  obtain r where r: "create_program demo_bench (create_argv some_args) (\<lambda>_. False) r"
    using create_program_exists [OF h] by blast
  with create_exit_code [OF r demo_can_start] st show ?thesis by auto
qed

text \<open>
  Success says nothing about the records. Whatever the arguments, once the command has
  started its threads, there is a run in which no entry can be written to the files of keys,
  every handler fails, not one record is counted, and the program still reports success.
\<close>

lemma create_success_without_records:
  assumes "create_started env args s = (Ok (Started (pool, a, b)), s')" and "can_start env"
    and "errors_thrown (be_sqlite env)"
  shows "create_program env args s (Ok EXIT_SUCCESS) \<and>
    (\<exists>b1. (create_turn env a)\<^sup>*\<^sup>* b b1 \<and> bs_queue b1 = [] \<and> bs_records b1 = 0)"
proof -
  have z: "bs_records b = 0" using create_started_valid(2) [OF assms(1)] by (auto simp: create_init_def worker_init_records)
  obtain b1 where b1: "(create_turn env a)\<^sup>*\<^sup>* b b1" "bs_queue b1 = []" "bs_records b1 = bs_records b"
    using unwritable_run [OF assms(3)] by blast
  obtain pool' names pool'' where p: "run_threads env pool = (Ok (), pool', names)"
    "thread_pool_wait pool' = (Ok (), pool'')" "thread_pool_dtor pool'' = Ok ()"
    by (rule run_and_join [OF assms(2) create_started_valid(4,5) [OF assms(1)]])
  have "fst (destroy_partitions (be_sqlite env) (bs_parts b1) (bs_sq b1)) = Ok ()"
    using assms(3) by (simp add: errors_thrown_def)
  then have "command_exit env pool'' (bs_parts b1) (bs_sq b1) (Ok EXIT_SUCCESS) = Ok EXIT_SUCCESS"
    using p(3) by (auto simp: command_exit_def leave_def split: prod.split)
  with cp_joined [OF assms(1) p(1) b1(1,2) p(2)] b1 z show ?thesis by auto
qed

theorem create_success_without_records_witness:
  "create_program demo_bench (create_argv some_args) (\<lambda>_. False) (Ok EXIT_SUCCESS) \<and>
   (\<exists>b b1. (create_turn demo_bench some_args)\<^sup>*\<^sup>* b b1 \<and> bs_queue b1 = [] \<and> bs_records b1 = 0)"
proof -
  obtain pool b s' where st: "create_started demo_bench (create_argv some_args) (\<lambda>_. False) =
      (Ok (Started (pool, some_args, b)), s')"
    using demo_bench_starts by blast
  have "errors_thrown (be_sqlite demo_bench)" by (simp add: demo_bench_def demo_errors)
  from create_success_without_records [OF st demo_can_start this] show ?thesis by blast
qed



end
