(* ===== verification/Spec2Isabelle.thy ===== *)
theory Spec2Isabelle
  imports Application_Log Db_Sync Whole_Server Handler_Log Bench_Programs
begin

text \<open>
  \<^bold>\<open>ACppSrv\<close>, a small asynchronous HTTP server in C++20 with handlers for echo, statistics and
  database queries, modelled in HOL from the sources under \<^verbatim>\<open>src/\<close>.

  \<^bold>\<open>Parts of the program and how they interact.\<close>
  \<^item> \<^verbatim>\<open>acppsrv.cpp\<close> reads the configuration (\<^verbatim>\<open>configuration.cpp\<close>), sets the log level and
    calls \<open>application::run\<close> (\<^verbatim>\<open>application.cpp\<close>), which creates the thread pools
    (\<^verbatim>\<open>worker.cpp\<close>), the database server and the HTTP server and waits for a signal.
  \<^item> The HTTP server (\<^verbatim>\<open>http_server.cpp\<close>) accepts connections in one coroutine, limits
    their number, and serves each in a coroutine of its own, which reads requests, asks a
    handler (\<^verbatim>\<open>http_hnd_*.cpp\<close>) for the response and writes it.
  \<^item> The handler for databases posts the request to the database pool, where
    \<open>db_server::run_query\<close> (\<^verbatim>\<open>db_server.cpp\<close>) executes a prepared statement through
    the wrapper of SQLite (\<^verbatim>\<open>sqlite3.cpp\<close>), repeating it while the database is locked.
  \<^item> All parts log through \<^verbatim>\<open>log.cpp\<close>; \<^verbatim>\<open>finally.hpp\<close> is the scope guard they share.
  \<^item> \<^verbatim>\<open>benchmark/benchmark.cpp\<close> is a program of its own over the same wrapper of SQLite and
    the same thread pools: it creates a partitioned database and sends requests to it.

  \<^bold>\<open>Theories.\<close>
  \<^descr>[\<open>Acpp_Prelude\<close>] machine integers, decimal numerals, C strings and buffers, outcomes of a
    call (a value, an exception, a failed assertion), reachable states, and the shared
    contracts: \<open>invariant_system\<close>, \<open>ranked_system\<close> (every step uses up a number, so all
    runs are finite), \<open>print_parse\<close>, \<open>atomic_counter\<close>.
  \<^descr>[\<open>Logging\<close>] levels, the logger and a log message over a stream that may fail; a whole
    statement writes one line, exceptions of the stream stay inside, names of levels round
    trip.
  \<^descr>[\<open>Float32\<close>] IEEE single precision with rounding to nearest even, as far as the
    configuration needs it: product, comparison, conversion from and to integers.
  \<^descr>[\<open>Configuration\<close>] the protobuf messages as records, reading and validating a file, the
    derived numbers; what is accepted, and that times convert without undefined behaviour.
  \<^descr>[\<open>Sqlite\<close>] connections and prepared statements over a record of SQLite's C functions; the
    contract \<open>row_source\<close> of stepping through a statement.
  \<^descr>[\<open>Db_Server\<close>] opening, binding, the retry loop and \<open>run_query\<close>. What SQLite does to a
    statement is described by inductive relations (rows then done, or blocked by a lock);
    complete answers, bounded retries and waits, no escaping exceptions.
  \<^descr>[\<open>Db_Sync\<close>] \<open>execute_query\<close> on all threads of the pool at once, step by step: the flag,
    mutex and condition variable they share per database, time-outs and spurious wake-ups, as
    lists of events. A thread alone does what \<open>Db_Server\<close> says; no signal is lost, each frees
    at most one thread, and every wait ends.
  \<^descr>[\<open>Http_Handler\<close>] content negotiation, parsing, serialising and the three handlers, which
    share the contract \<open>response_handler\<close>; the atomic statistics counters.
  \<^descr>[\<open>Http_Connection\<close>] the constructor of the server and \<open>handle_connection\<close> as a state
    machine: one state per suspension of the coroutine, one step per completion, with the
    effects on the stream in order. It refines an abstract protocol, on which the accounting
    of requests and responses and the keep-alive limit are proved by rule induction.
  \<^descr>[\<open>Http_Server\<close>] \<open>run\<close>, the accept loop with the limit of connections, and the whole
    server as an interleaving of the acceptor and all connections: the limit holds, no
    wake-up of the acceptor is lost, session numbers differ.
  \<^descr>[\<open>Scope_Guard\<close>] the class \<open>util::finally\<close> and the contract \<open>safe_guard\<close> of a guard that
    cannot fail.
  \<^descr>[\<open>Db_Service\<close>] connections and database threads together: \<open>db_server::query\<close>,
    \<open>db::call_query\<close> and all interleavings of connections, tasks, running queries and
    responses. No request is lost or answered twice, none gets stuck, and a request is
    followed end to end.
  \<^descr>[\<open>Whole_Server\<close>] the acceptor, all connections and the database pool as one system. It
    refines \<open>Http_Server\<close> and \<open>Db_Service\<close> at once, so their invariants hold together: the
    load of the database is bounded by the limit of connections, and no client waits for the
    database for ever.
  \<^descr>[\<open>Http_Log\<close>] the messages about connections and the end of a connection under its scope
    guard, including the exception that escapes when a limit cannot be printed.
  \<^descr>[\<open>Http_Access\<close>] the messages of the coroutine of a connection, added to its steps: the
    access log has one line per answered request, in order.
  \<^descr>[\<open>Handler_Log\<close>] what the handlers log: an error status of a response is always announced.
  \<^descr>[\<open>Worker\<close>] thread pools: construction, thread names, restart after exceptions, joining.
  \<^descr>[\<open>Application\<close>] the order of initialisation and shutdown and the exit code of \<open>main\<close>.
  \<^descr>[\<open>Process_Log\<close>] what \<open>main\<close> logs and prints itself, and that its last message agrees with
    the exit code.
  \<^descr>[\<open>Application_Log\<close>] all messages of the main thread from the first to the last, with those
    of the pools, of opening the databases and of listening: the exit code is success exactly
    if none of them is critical, and every failure names its cause.
  \<^descr>[\<open>Float64\<close>] IEEE double precision for the benchmark: each operation rounds an exact
    fraction to nearest even; the error of a rounding; reading a decimal number.
  \<^descr>[\<open>Bench_Records\<close>] keys, hashes, records and the file of keys, which reads back what was
    written.
  \<^descr>[\<open>Bench_Partition\<close>] opening, creating and closing a partition: existing files are never
    touched, and the shares of the page cache stay within the requested size.
  \<^descr>[\<open>Bench_Create\<close>, \<open>Bench_Transactions\<close>] the command \<open>create\<close>: arguments, the handler that
    inserts a record, the records in flight and the transactions of every partition.
  \<^descr>[\<open>Bench_Requests\<close>] the command \<open>requests\<close>: arguments, the choice of requests, the three
    handlers, the load in flight, and the reports under concurrency.
  \<^descr>[\<open>Bench_Main\<close>] both commands from the arguments to the start of the threads, the choice of
    the command and the exit code.
  \<^descr>[\<open>Bench_Programs\<close>] the whole benchmark program as big-step relations from the command line
    to the exit code: \<open>create\<close> always ends, within a bound, even when handlers fail;
    \<open>requests\<close> drains once its time is over; a success code does not mean that records exist.

  This theory holds the properties that span components: what a configuration guarantees of
  the running server, and that a task of the database pool always answers.

  \<^bold>\<open>Conventions.\<close> A class is a record, an operation a function of the same name, with the
  class as a prefix where the name alone would be ambiguous. Exceptions are \<open>Throw\<close>, failed
  assertions \<open>Abort\<close> (the build keeps assertions in every configuration). Unsigned integers
  are words of their width; signed integers are \<open>int\<close>, with conversions written out.
  Libraries (SQLite, Boost.Asio and Beast, protobuf, the system) are parameters: records of
  functions, completions or results. Hypotheses about them are named predicates, such as
  \<open>iequals_ok\<close> or \<open>payload_ok\<close>, and state what their documentation says.

  \<^bold>\<open>Loops.\<close> The retry loop of \<open>execute_query\<close> has fuel, because SQLite alone decides how many
  rows come; \<open>run_query_complete\<close> and \<open>run_query_stuck\<close> show that some fuel gives the
  result, for every finite behaviour of SQLite. The loop over the rows of an update in the
  benchmark has fuel for the same reason. All other functions are total.

  \<^bold>\<open>What is not modelled.\<close> The debug messages of the SQLite wrapper and of the
  threads of the pools, the messages of the accept loop other than about accepted connections,
  the text of the progress messages and of the usage of the benchmark; the bytes on the wire,
  which Beast reads and writes; memory exhaustion.
  A step of a connection runs to the next suspension, so the additions to different
  statistics counters within a step are not interleaved there; \<open>stat_conservation\<close> treats
  every interleaving of single additions. A query on a database thread is one step of
  \<open>Db_Service\<close>, for which SQLite may be in any state; \<open>Db_Sync\<close> has its steps, one per call of
  the SQLite wrapper and per critical section. A handler of the benchmark is one step.
\<close>

section \<open>Lemmas\<close>

lemma http_server_ctor_ok:
  "0 < workers \<Longrightarrow> server_cfg_ok (http_server_ctor cfg workers name version)"
  by (auto simp: server_cfg_ok_def http_server_ctor_def nonzero_def Let_def split: option.splits)

lemma http_server_ctor_max:
  "cm_http_server (cfg_data cfg) = Some http \<Longrightarrow>
    sv_max_connections (http_server_ctor cfg workers name version) = nonzero (hs_max_connections http)"
  by (simp add: http_server_ctor_def Let_def)

lemma http_server_ctor_workers: "sv_use_workers (http_server_ctor cfg workers name version) \<le> workers"
  by (auto simp: http_server_ctor_def Let_def split: option.splits)

text \<open>A configuration with a limit of one connection, for a witness.\<close>

definition limited_http :: HttpServerCfg where
  "limited_http = \<lparr>hs_port = 8080, hs_listen_queue = 0, hs_max_connections = 1, hs_idle_timeout = f32_zero,
     hs_keepalive_timeout = f32_zero, hs_keepalive_requests = 0, hs_max_request_headers = 0, hs_max_request_body = 0\<rparr>"

definition limited_configuration :: configuration where
  "limited_configuration = demo_configuration\<lparr>cfg_data := empty_msg\<lparr>cm_http_server := Some limited_http\<rparr>\<rparr>"

definition limited_server :: server_cfg where
  "limited_server = http_server_ctor limited_configuration 2 ''s'' ''1''"

section \<open>Properties\<close>

text \<open>
  C23: from the configuration file to the running server. Whatever the configuration says, a
  server built from it and at least one pool never has more open connections than
  \<open>max_connections\<close> of the file, if that is set, in any interleaving of the acceptor and
  the connections; and every connection runs on an existing pool.
\<close>

theorem configured_limit_holds:
  assumes "0 < workers" and "cm_http_server (cfg_data cfg) = Some http" and "hs_max_connections http \<noteq> 0"
    and "reach server_init (server_step env (http_server_ctor cfg workers name version)) s"
  shows "length (sr_conns s) \<le> unat (hs_max_connections http) \<and>
    list_all (\<lambda>k. cn_worker k < workers) (sr_conns s)"
proof -
  let ?sv = "http_server_ctor cfg workers name version"
  have inv: "server_inv ?sv s"
    using accepting.reachable_inv [OF assms(4)] http_server_ctor_ok [OF assms(1)] by blast
  have "counted s \<le> unat (hs_max_connections http)"
    using inv assms(3) by (auto simp: server_inv_def below_limit_def http_server_ctor_max [OF assms(2)] nonzero_def
        split: if_splits)
  moreover have "list_all (\<lambda>k. cn_worker k < sv_use_workers ?sv) (sr_conns s)"
    using inv by (auto simp: server_inv_def list_all_iff)
  ultimately show ?thesis
    using http_server_ctor_workers [of cfg workers name version]
    by (auto simp: counted_def list_all_iff intro: order.strict_trans2)
qed

theorem configured_limit_holds_witness:
  "\<exists>s. reach server_init (server_step demo_env limited_server) s \<and> length (sr_conns s) = 1 \<and>
     length (sr_conns s) \<le> 1 \<and> list_all (\<lambda>k. cn_worker k < 2) (sr_conns s)"
proof -
  let ?R = "reach server_init (server_step demo_env limited_server)"
  let ?s = "accept_done limited_server Accepted (conn_limit limited_server demo_idle)"
  have "?R demo_idle" by (rule reach_init) (simp add: server_init_def demo_idle_def)
  then have "?R (conn_limit limited_server demo_idle)" by (rule reach_step) (simp add: ss_limit demo_idle_def)
  moreover have "sv_max_connections limited_server = Some 1"
    using http_server_ctor_max [of limited_configuration limited_http]
    by (simp add: limited_server_def nonzero_def) (simp add: limited_configuration_def limited_http_def)
  then have "sr_acc (conn_limit limited_server demo_idle) = Acc_accept"
    by (simp add: conn_limit_def at_limit_def demo_idle_def)
  ultimately have "?R ?s"
    by (blast intro: reach_step ss_accept)
  moreover have "length (sr_conns ?s) = 1" by (simp add: conn_limit_def demo_idle_def)
  moreover have "length (sr_conns ?s) \<le> unat (1 :: u32) \<and> list_all (\<lambda>k. cn_worker k < 2) (sr_conns ?s)"
    using configured_limit_holds [of 2 limited_configuration "limited_http" demo_env "''s''" "''1''" ?s] calculation(1)
    by (simp add: limited_server_def) (simp add: limited_configuration_def limited_http_def)
  ultimately show ?thesis by auto
qed



end
